(* ===== verification/MM_Prelude.thy ===== *)
theory MM_Prelude
  imports Main "HOL-Library.Word"
begin

unbundle bit_operations_syntax

text \<open>
  Shared vocabulary of the motion-master development: names for the machine integers the C++
  sources use, results of calls that may fail (\<^verbatim>\<open>std::expected<T, E>\<close> is a sum whose left
  side is the error), state-passing calls against an outside world, and the generic lemmas on
  lists, bytes and words that the component theories share.
\<close>

section \<open>Machine types\<close>

type_synonym u8 = "8 word"
type_synonym u16 = "16 word"
type_synonym u32 = "32 word"
type_synonym u64 = "64 word"

type_synonym bytes = "u8 list"

section \<open>Fallible calls against a world\<close>

text \<open>
  A call that talks to the bus, the clock or the operating system takes the world it runs in and
  returns its result together with the world it leaves behind.
\<close>

type_synonym ('w, 'e, 'a) io = "'w \<Rightarrow> ('e + 'a) \<times> 'w"

definition io_return :: "'a \<Rightarrow> ('w, 'e, 'a) io" where
  "io_return a w = (Inr a, w)"

definition io_fail :: "'e \<Rightarrow> ('w, 'e, 'a) io" where
  "io_fail e w = (Inl e, w)"

definition io_bind :: "('w, 'e, 'a) io \<Rightarrow> ('a \<Rightarrow> ('w, 'e, 'b) io) \<Rightarrow> ('w, 'e, 'b) io" where
  "io_bind m k w = (case m w of (Inl e, w') \<Rightarrow> (Inl e, w') | (Inr a, w') \<Rightarrow> k a w')"

named_theorems io_simps
named_theorems byte_bits

lemma io_return_apply [simp, io_simps]: "io_return a w = (Inr a, w)"
  by (simp add: io_return_def)

lemma io_fail_apply [simp, io_simps]: "io_fail e w = (Inl e, w)"
  by (simp add: io_fail_def)

lemma io_bind_Inr [io_simps]: "m w = (Inr a, w') \<Longrightarrow> io_bind m k w = k a w'"
  by (simp add: io_bind_def)

lemma io_bind_Inl [io_simps]: "m w = (Inl e, w') \<Longrightarrow> io_bind m k w = (Inl e, w')"
  by (simp add: io_bind_def)

lemma io_bind_return_left [simp]: "io_bind (io_return a) k = k a"
  by (rule ext) (simp add: io_bind_def)

lemma io_bind_return_right [simp]: "io_bind m io_return = m"
  by (rule ext) (auto simp: io_bind_def split: prod.splits sum.splits)

lemma io_bind_assoc: "io_bind (io_bind m k) l = io_bind m (\<lambda>a. io_bind (k a) l)"
  by (rule ext) (auto simp: io_bind_def split: prod.splits sum.splits)

lemma io_bind_eq_Inr:
  "io_bind m k w = (Inr b, w'') \<longleftrightarrow> (\<exists>a w'. m w = (Inr a, w') \<and> k a w' = (Inr b, w''))"
  by (auto simp: io_bind_def split: prod.splits sum.splits)

lemma io_bindE:
  assumes "io_bind m k w = (Inr b, w'')"
  obtains a w' where "m w = (Inr a, w')" and "k a w' = (Inr b, w'')"
  using assms unfolding io_bind_eq_Inr by blast

lemma io_bind_eq_Inl:
  "io_bind m k w = (Inl e, w'') \<longleftrightarrow>
     m w = (Inl e, w'') \<or> (\<exists>a w'. m w = (Inr a, w') \<and> k a w' = (Inl e, w''))"
  by (auto simp: io_bind_def split: prod.splits sum.splits)

section \<open>Sums as results\<close>

fun isOk :: "'e + 'a \<Rightarrow> bool" where
  "isOk (Inl _) = False"
| "isOk (Inr _) = True"

fun result_bind :: "'e + 'a \<Rightarrow> ('a \<Rightarrow> 'e + 'b) \<Rightarrow> 'e + 'b" where
  "result_bind (Inl e) k = Inl e"
| "result_bind (Inr a) k = k a"

fun ok_option :: "'e + 'a \<Rightarrow> 'a option" where
  "ok_option (Inl _) = None"
| "ok_option (Inr a) = Some a"

lemma result_bind_eq_Inr:
  "result_bind r k = Inr b \<longleftrightarrow> (\<exists>a. r = Inr a \<and> k a = Inr b)"
  by (cases r) auto

section \<open>Lists\<close>

lemma nth_equality_upt:
  "length xs = n \<Longrightarrow> (\<And>i. i < n \<Longrightarrow> xs ! i = f i) \<Longrightarrow> xs = map f [0..<n]"
  by (rule nth_equalityI) auto

lemma find_Some_nth:
  "find P xs = Some x \<longleftrightarrow> (\<exists>i<length xs. P (xs ! i) \<and> x = xs ! i \<and> (\<forall>j<i. \<not> P (xs ! j)))"
  by (rule find_Some_iff)

text \<open>
  A bounded \<^verbatim>\<open>for (i = 0; i < n; ++i)\<close> loop that only updates a buffer is a \<^const>\<open>fold\<close> over the
  indices; the following rule establishes an invariant of it.
\<close>

lemma fold_upt_invariant:
  assumes "I 0 s"
    and "\<And>i s. i < n \<Longrightarrow> I i s \<Longrightarrow> I (Suc i) (f i s)"
  shows "I n (fold f [0..<n] s)"
  using assms
proof (induction n)
  case 0
  then show ?case by simp
next
  case (Suc n)
  then show ?case by simp
qed

section \<open>Bytes and little-endian words\<close>

text \<open>
  A byte buffer is read bit by bit: bit \<open>k\<close> of a buffer is bit \<open>k mod 8\<close> of byte \<open>k div 8\<close>,
  least significant first, and false past its end. Codecs that agree on every bit are equal.
\<close>

definition buf_bit :: "bytes \<Rightarrow> nat \<Rightarrow> bool" where
  "buf_bit bs k \<longleftrightarrow> k div 8 < length bs \<and> bit (bs ! (k div 8)) (k mod 8)"

lemma bytes_eq_by_bits:
  assumes "length xs = length ys"
    and "\<And>k. k < 8 * length xs \<Longrightarrow> buf_bit xs k = buf_bit ys k"
  shows "xs = ys"
proof (rule nth_equalityI)
  fix i assume i: "i < length xs"
  show "xs ! i = ys ! i"
  proof (rule bit_word_eqI)
    fix n assume n: "n < LENGTH(8)"
    have "buf_bit xs (8 * i + n) = buf_bit ys (8 * i + n)"
      using i n by (intro assms) simp
    then show "bit (xs ! i) n = bit (ys ! i) n"
      using i n assms(1) by (simp add: buf_bit_def)
  qed
qed (rule assms)

lemma buf_bit_Nil [simp]: "buf_bit [] k = False"
  by (simp add: buf_bit_def)

lemma buf_bit_past_end: "8 * length bs \<le> k \<Longrightarrow> \<not> buf_bit bs k"
  by (auto simp: buf_bit_def)

lemma buf_bit_less: "buf_bit bs k \<Longrightarrow> k < 8 * length bs"
  by (auto simp: buf_bit_def)

lemma buf_bit_byte: "n < 8 \<Longrightarrow> i < length bs \<Longrightarrow> buf_bit bs (8 * i + n) = bit (bs ! i) n"
  by (simp add: buf_bit_def)

lemma buf_bit_take [byte_bits]: "buf_bit (take n bs) k \<longleftrightarrow> k < 8 * n \<and> buf_bit bs k"
  by (auto simp: buf_bit_def)

end
