(* ===== verification/Cia402.thy ===== *)
theory Cia402
  imports MM_Prelude
begin

text \<open>
  The CiA402 vocabulary of \<^verbatim>\<open>libs/node/cia402.h\<close>: object indices, operation modes, the states of the
  device state machine and their decoding from the statusword, the controlword commands, and the
  next-hop table that walks a drive toward a requested state. Everything in the header is a pure
  function, so each is a HOL function of the same name.
\<close>

unbundle bit_operations_syntax

section \<open>Objects\<close>

text \<open>
  \<^verbatim>\<open>enum Object : uint16_t\<close> is unscoped: an enumerator is used as the index it stands for, so each
  abbreviates that value; the three the state machine is written in terms of are constants.
\<close>

abbreviation (input) kErrorCode :: u16 where "kErrorCode \<equiv> 0x603F"
definition kControlword :: u16 where "kControlword = 0x6040"
definition kStatusword :: u16 where "kStatusword = 0x6041"
definition kQuickStopOptionCode :: u16 where "kQuickStopOptionCode = 0x605A"
abbreviation (input) kModeOfOperation :: u16 where "kModeOfOperation \<equiv> 0x6060"
abbreviation (input) kModeOfOperationDisplay :: u16 where "kModeOfOperationDisplay \<equiv> 0x6061"
abbreviation (input) kPositionDemandValue :: u16 where "kPositionDemandValue \<equiv> 0x6062"
abbreviation (input) kPositionActualValue :: u16 where "kPositionActualValue \<equiv> 0x6064"
abbreviation (input) kFollowingErrorWindow :: u16 where "kFollowingErrorWindow \<equiv> 0x6065"
abbreviation (input) kFollowingErrorTimeout :: u16 where "kFollowingErrorTimeout \<equiv> 0x6066"
abbreviation (input) kPositionWindow :: u16 where "kPositionWindow \<equiv> 0x6067"
abbreviation (input) kPositionWindowTime :: u16 where "kPositionWindowTime \<equiv> 0x6068"
abbreviation (input) kVelocityDemandValue :: u16 where "kVelocityDemandValue \<equiv> 0x606B"
abbreviation (input) kVelocityActualValue :: u16 where "kVelocityActualValue \<equiv> 0x606C"
abbreviation (input) kVelocityWindow :: u16 where "kVelocityWindow \<equiv> 0x606D"
abbreviation (input) kVelocityWindowTime :: u16 where "kVelocityWindowTime \<equiv> 0x606E"
abbreviation (input) kVelocityThreshold :: u16 where "kVelocityThreshold \<equiv> 0x606F"
abbreviation (input) kVelocityThresholdTime :: u16 where "kVelocityThresholdTime \<equiv> 0x6070"
abbreviation (input) kTargetTorque :: u16 where "kTargetTorque \<equiv> 0x6071"
abbreviation (input) kMaxTorque :: u16 where "kMaxTorque \<equiv> 0x6072"
abbreviation (input) kMaxCurrent :: u16 where "kMaxCurrent \<equiv> 0x6073"
abbreviation (input) kTorqueDemand :: u16 where "kTorqueDemand \<equiv> 0x6074"
abbreviation (input) kMotorRatedCurrent :: u16 where "kMotorRatedCurrent \<equiv> 0x6075"
abbreviation (input) kMotorRatedTorque :: u16 where "kMotorRatedTorque \<equiv> 0x6076"
abbreviation (input) kTorqueActualValue :: u16 where "kTorqueActualValue \<equiv> 0x6077"
abbreviation (input) kDcLinkCircuitVoltage :: u16 where "kDcLinkCircuitVoltage \<equiv> 0x6079"
abbreviation (input) kTargetPosition :: u16 where "kTargetPosition \<equiv> 0x607A"
abbreviation (input) kPositionRangeLimit :: u16 where "kPositionRangeLimit \<equiv> 0x607B"
abbreviation (input) kHomeOffset :: u16 where "kHomeOffset \<equiv> 0x607C"
abbreviation (input) kSoftwarePositionLimit :: u16 where "kSoftwarePositionLimit \<equiv> 0x607D"
abbreviation (input) kPolarity :: u16 where "kPolarity \<equiv> 0x607E"
abbreviation (input) kMaxMotorSpeed :: u16 where "kMaxMotorSpeed \<equiv> 0x6080"
abbreviation (input) kProfileVelocity :: u16 where "kProfileVelocity \<equiv> 0x6081"
abbreviation (input) kProfileAcceleration :: u16 where "kProfileAcceleration \<equiv> 0x6083"
abbreviation (input) kProfileDeceleration :: u16 where "kProfileDeceleration \<equiv> 0x6084"
abbreviation (input) kQuickStopDeceleration :: u16 where "kQuickStopDeceleration \<equiv> 0x6085"
abbreviation (input) kMotionProfileType :: u16 where "kMotionProfileType \<equiv> 0x6086"
abbreviation (input) kTorqueSlope :: u16 where "kTorqueSlope \<equiv> 0x6087"
abbreviation (input) kTorqueProfileType :: u16 where "kTorqueProfileType \<equiv> 0x6088"
abbreviation (input) kGearRatio :: u16 where "kGearRatio \<equiv> 0x6091"
abbreviation (input) kFeedConstant :: u16 where "kFeedConstant \<equiv> 0x6092"
abbreviation (input) kHomingMethod :: u16 where "kHomingMethod \<equiv> 0x6098"
abbreviation (input) kHomingSpeeds :: u16 where "kHomingSpeeds \<equiv> 0x6099"
abbreviation (input) kHomingAcceleration :: u16 where "kHomingAcceleration \<equiv> 0x609A"
abbreviation (input) kSiUnitVelocity :: u16 where "kSiUnitVelocity \<equiv> 0x60A9"
abbreviation (input) kVelocityOffset :: u16 where "kVelocityOffset \<equiv> 0x60B1"
abbreviation (input) kTorqueOffset :: u16 where "kTorqueOffset \<equiv> 0x60B2"
abbreviation (input) kTouchProbeFunction :: u16 where "kTouchProbeFunction \<equiv> 0x60B8"
abbreviation (input) kTouchProbeStatus :: u16 where "kTouchProbeStatus \<equiv> 0x60B9"
abbreviation (input) kTouchProbe1PositiveEdge :: u16 where "kTouchProbe1PositiveEdge \<equiv> 0x60BA"
abbreviation (input) kTouchProbe1NegativeEdge :: u16 where "kTouchProbe1NegativeEdge \<equiv> 0x60BB"
abbreviation (input) kTouchProbeTimeStamp1PositiveValue :: u16 where "kTouchProbeTimeStamp1PositiveValue \<equiv> 0x60D1"
abbreviation (input) kTouchProbeTimeStamp1NegativeValue :: u16 where "kTouchProbeTimeStamp1NegativeValue \<equiv> 0x60D2"
abbreviation (input) kPositioningOptionCode :: u16 where "kPositioningOptionCode \<equiv> 0x60F2"
abbreviation (input) kFollowingErrorActualValue :: u16 where "kFollowingErrorActualValue \<equiv> 0x60F4"
abbreviation (input) kControlEffort :: u16 where "kControlEffort \<equiv> 0x60FA"
abbreviation (input) kPositionDemandInternalValue :: u16 where "kPositionDemandInternalValue \<equiv> 0x60FC"
abbreviation (input) kDigitalInputs :: u16 where "kDigitalInputs \<equiv> 0x60FD"
abbreviation (input) kDigitalOutputs :: u16 where "kDigitalOutputs \<equiv> 0x60FE"
abbreviation (input) kTargetVelocity :: u16 where "kTargetVelocity \<equiv> 0x60FF"
abbreviation (input) kSupportedDriveModes :: u16 where "kSupportedDriveModes \<equiv> 0x6502"

section \<open>Operation modes\<close>

text \<open>
  \<^verbatim>\<open>enum class OperationMode : int8_t\<close> has one enumerator per profile mode, and as a C++ enumeration
  with a fixed underlying type it can also hold any other 8-bit value, which a
  \<^verbatim>\<open>static_cast\<close> from a raw reading produces: those values are \<open>kUnlisted\<close>.
\<close>

datatype OperationMode =
    kNoMode
  | kProfilePosition
  | kVelocity
  | kProfileVelocityMode
  | kProfileTorque
  | kHoming
  | kInterpolatedPosition
  | kCyclicSyncPosition
  | kCyclicSyncVelocity
  | kCyclicSyncTorque
  | kCyclicSyncTorqueCommutationAngle
  | kUnlisted u8

text \<open>The enumerators with their underlying values, in declaration order.\<close>

definition operation_mode_values :: "(OperationMode \<times> u8) list" where
  "operation_mode_values =
     [(kNoMode, 0), (kProfilePosition, 1), (kVelocity, 2), (kProfileVelocityMode, 3),
      (kProfileTorque, 4), (kHoming, 6), (kInterpolatedPosition, 7), (kCyclicSyncPosition, 8),
      (kCyclicSyncVelocity, 9), (kCyclicSyncTorque, 10), (kCyclicSyncTorqueCommutationAngle, 11)]"

definition mode_of_raw :: "u8 \<Rightarrow> OperationMode" where
  "mode_of_raw v =
     (case find (\<lambda>e. snd e = v) operation_mode_values of
        Some e \<Rightarrow> fst e
      | None \<Rightarrow> kUnlisted v)"

definition raw_of_mode :: "OperationMode \<Rightarrow> u8" where
  "raw_of_mode m =
     (case m of
        kUnlisted v \<Rightarrow> v
      | _ \<Rightarrow> (case find (\<lambda>e. fst e = m) operation_mode_values of Some e \<Rightarrow> snd e | None \<Rightarrow> 0))"

definition toOperationMode :: "int \<Rightarrow> OperationMode option" where
  "toOperationMode value =
     (if value < -128 \<or> value > 127 then None
      else case mode_of_raw (word_of_int value) of
             kUnlisted _ \<Rightarrow> None
           | m \<Rightarrow> Some m)"

section \<open>States, commands and the statusword\<close>

datatype State =
    kNotReadyToSwitchOn
  | kSwitchOnDisabled
  | kReadyToSwitchOn
  | kSwitchedOn
  | kOperationEnabled
  | kQuickStopActive
  | kFaultReactionActive
  | kFault

definition all_states :: "State list" where
  "all_states = [kNotReadyToSwitchOn, kSwitchOnDisabled, kReadyToSwitchOn, kSwitchedOn,
                 kOperationEnabled, kQuickStopActive, kFaultReactionActive, kFault]"

definition kCommandMask :: u16 where
  "kCommandMask = 0x008F"

datatype Command =
    kCmdShutdown
  | kCmdSwitchOn
  | kCmdEnableOperation
  | kCmdDisableVoltage
  | kCmdQuickStop
  | kCmdFaultReset

primrec command_bits :: "Command \<Rightarrow> u16" where
  "command_bits kCmdShutdown = 0x0006"
| "command_bits kCmdSwitchOn = 0x0007"
| "command_bits kCmdEnableOperation = 0x000F"
| "command_bits kCmdDisableVoltage = 0x0000"
| "command_bits kCmdQuickStop = 0x0002"
| "command_bits kCmdFaultReset = 0x0080"

definition decodeState :: "u16 \<Rightarrow> State" where
  "decodeState statusword =
     (if statusword AND 0x4F = 0x40 then kSwitchOnDisabled
      else if statusword AND 0x6F = 0x21 then kReadyToSwitchOn
      else if statusword AND 0x6F = 0x23 then kSwitchedOn
      else if statusword AND 0x6F = 0x27 then kOperationEnabled
      else if statusword AND 0x6F = 0x07 then kQuickStopActive
      else if statusword AND 0x4F = 0x0F then kFaultReactionActive
      else if statusword AND 0x4F = 0x08 then kFault
      else kNotReadyToSwitchOn)"

definition isInternalLimitActive :: "u16 \<Rightarrow> bool" where
  "isInternalLimitActive statusword \<longleftrightarrow> statusword AND 0x0800 \<noteq> 0"

definition isTargetReached :: "u16 \<Rightarrow> bool" where
  "isTargetReached statusword \<longleftrightarrow> statusword AND 0x0400 \<noteq> 0"

definition isFaulted :: "u16 \<Rightarrow> bool" where
  "isFaulted statusword \<longleftrightarrow>
     (let s = decodeState statusword in s = kFault \<or> s = kFaultReactionActive)"

primrec state_toString :: "State \<Rightarrow> string" where
  "state_toString kNotReadyToSwitchOn = ''NotReadyToSwitchOn''"
| "state_toString kSwitchOnDisabled = ''SwitchOnDisabled''"
| "state_toString kReadyToSwitchOn = ''ReadyToSwitchOn''"
| "state_toString kSwitchedOn = ''SwitchedOn''"
| "state_toString kOperationEnabled = ''OperationEnabled''"
| "state_toString kQuickStopActive = ''QuickStopActive''"
| "state_toString kFaultReactionActive = ''FaultReactionActive''"
| "state_toString kFault = ''Fault''"

primrec mode_toString :: "OperationMode \<Rightarrow> string" where
  "mode_toString kNoMode = ''NoMode''"
| "mode_toString kProfilePosition = ''ProfilePosition''"
| "mode_toString kVelocity = ''Velocity''"
| "mode_toString kProfileVelocityMode = ''ProfileVelocity''"
| "mode_toString kProfileTorque = ''ProfileTorque''"
| "mode_toString kHoming = ''Homing''"
| "mode_toString kInterpolatedPosition = ''InterpolatedPosition''"
| "mode_toString kCyclicSyncPosition = ''CyclicSyncPosition''"
| "mode_toString kCyclicSyncVelocity = ''CyclicSyncVelocity''"
| "mode_toString kCyclicSyncTorque = ''CyclicSyncTorque''"
| "mode_toString kCyclicSyncTorqueCommutationAngle = ''CyclicSyncTorqueCommutationAngle''"
| "mode_toString (kUnlisted _) = ''Unknown''"

record StandardOperationMode =
  mode :: OperationMode
  mode_bit :: int
  abbreviation' :: string
  label :: string

definition kStandardOperationModes :: "StandardOperationMode list" where
  "kStandardOperationModes =
     [\<lparr>mode = kNoMode, mode_bit = -1, abbreviation' = '''', label = ''No mode selected''\<rparr>,
      \<lparr>mode = kProfilePosition, mode_bit = 0, abbreviation' = ''pp'',
       label = ''Profile position mode''\<rparr>,
      \<lparr>mode = kVelocity, mode_bit = 1, abbreviation' = ''vl'',
       label = ''Velocity mode (frequency converter)''\<rparr>,
      \<lparr>mode = kProfileVelocityMode, mode_bit = 2, abbreviation' = ''pv'',
       label = ''Profile velocity mode''\<rparr>,
      \<lparr>mode = kProfileTorque, mode_bit = 3, abbreviation' = ''tq'',
       label = ''Profile torque mode''\<rparr>,
      \<lparr>mode = kHoming, mode_bit = 5, abbreviation' = ''hm'', label = ''Homing mode''\<rparr>,
      \<lparr>mode = kInterpolatedPosition, mode_bit = 6, abbreviation' = ''ip'',
       label = ''Interpolated position mode''\<rparr>,
      \<lparr>mode = kCyclicSyncPosition, mode_bit = 7, abbreviation' = ''csp'',
       label = ''Cyclic synchronous position mode''\<rparr>,
      \<lparr>mode = kCyclicSyncVelocity, mode_bit = 8, abbreviation' = ''csv'',
       label = ''Cyclic synchronous velocity mode''\<rparr>,
      \<lparr>mode = kCyclicSyncTorque, mode_bit = 9, abbreviation' = ''cst'',
       label = ''Cyclic synchronous torque mode''\<rparr>,
      \<lparr>mode = kCyclicSyncTorqueCommutationAngle, mode_bit = 10, abbreviation' = ''cstca'',
       label = ''Cyclic synchronous torque mode with commutation angle''\<rparr>]"

definition quickStopHolds :: "u16 \<Rightarrow> bool" where
  "quickStopHolds optionCode \<longleftrightarrow> sint optionCode \<ge> 5 \<and> sint optionCode \<le> 8"

definition kFirstManufacturerDriveModeBit :: int where
  "kFirstManufacturerDriveModeBit = 16"

definition parseState :: "string \<Rightarrow> State option" where
  "parseState token = find (\<lambda>state. token = state_toString state) all_states"

primrec isCommandableState :: "State \<Rightarrow> bool" where
  "isCommandableState kSwitchOnDisabled = True"
| "isCommandableState kReadyToSwitchOn = True"
| "isCommandableState kSwitchedOn = True"
| "isCommandableState kOperationEnabled = True"
| "isCommandableState kQuickStopActive = True"
| "isCommandableState kNotReadyToSwitchOn = False"
| "isCommandableState kFaultReactionActive = False"
| "isCommandableState kFault = False"

text \<open>
  \<^verbatim>\<open>FsaTransition\<close> pairs an action with a command that is meaningful for \<^verbatim>\<open>kCommand\<close> only; the
  command is therefore an argument of that constructor.
\<close>

datatype FsaTransition =
    kArrived
  | kCommand Command
  | kWait
  | kUnreachable

definition nextFsaTransition :: "State \<Rightarrow> State \<Rightarrow> bool \<Rightarrow> FsaTransition" where
  "nextFsaTransition from target allowQuickStopOverride =
     (if \<not> isCommandableState target then kUnreachable
      else if from = target then kArrived
      else case from of
        kNotReadyToSwitchOn \<Rightarrow> kWait
      | kFaultReactionActive \<Rightarrow> kWait
      | kFault \<Rightarrow> kCommand kCmdFaultReset
      | kSwitchOnDisabled \<Rightarrow> kCommand kCmdShutdown
      | kReadyToSwitchOn \<Rightarrow>
          (if target = kSwitchOnDisabled then kCommand kCmdDisableVoltage
           else kCommand kCmdSwitchOn)
      | kSwitchedOn \<Rightarrow>
          (if target = kSwitchOnDisabled then kCommand kCmdDisableVoltage
           else if target = kReadyToSwitchOn then kCommand kCmdShutdown
           else kCommand kCmdEnableOperation)
      | kOperationEnabled \<Rightarrow>
          (if target = kSwitchOnDisabled then kCommand kCmdDisableVoltage
           else if target = kReadyToSwitchOn then kCommand kCmdShutdown
           else if target = kSwitchedOn then kCommand kCmdSwitchOn
           else kCommand kCmdQuickStop)
      | kQuickStopActive \<Rightarrow>
          (if target = kOperationEnabled
           then (if allowQuickStopOverride then kCommand kCmdEnableOperation else kUnreachable)
           else kCommand kCmdDisableVoltage))"

section \<open>Lemmas\<close>

lemmas mode_table_simps = operation_mode_values_def mode_of_raw_def raw_of_mode_def

lemma raw_of_mode_of_raw [simp]: "raw_of_mode (mode_of_raw v) = v"
  by (simp add: mode_table_simps)

lemma State_in_all_states [simp]: "s \<in> set all_states"
  by (cases s) (simp_all add: all_states_def)

lemma state_toString_inject [simp]: "state_toString s = state_toString t \<longleftrightarrow> s = t"
  by (cases s; cases t) simp_all

section \<open>The statusword table\<close>

text \<open>The rows of the ETG.6010 mask and match table, in no particular order.\<close>

definition statusword_table :: "(u16 \<times> u16 \<times> State) list" where
  "statusword_table =
     [(0x4F, 0x40, kSwitchOnDisabled), (0x6F, 0x21, kReadyToSwitchOn), (0x6F, 0x23, kSwitchedOn),
      (0x6F, 0x27, kOperationEnabled), (0x6F, 0x07, kQuickStopActive),
      (0x4F, 0x0F, kFaultReactionActive), (0x4F, 0x08, kFault)]"

lemma mask_4F_via_6F: "sw AND 0x4F = (sw AND 0x6F) AND (0x4F :: u16)"
  by (simp add: and.assoc)

text \<open>
  C23: The decoding of a statusword is the ETG.6010 table: whichever row matches gives the state, so
  no statusword matches two rows of different states and the order of the comparisons in the code
  does not matter, and a statusword that no row matches is \<open>kNotReadyToSwitchOn\<close>.
\<close>

theorem decodeState_table:
  "(\<forall>(mask, pattern, state)\<in>set statusword_table. sw AND mask = pattern \<longrightarrow> decodeState sw = state)
   \<and> ((\<forall>(mask, pattern, state)\<in>set statusword_table. sw AND mask \<noteq> pattern)
        \<longrightarrow> decodeState sw = kNotReadyToSwitchOn)"
proof -
  obtain y z where yz: "sw AND 0x6F = y" "sw AND 0x4F = z" "z = y AND 0x4F"
    by (metis mask_4F_via_6F)
  then show ?thesis
    unfolding statusword_table_def decodeState_def by auto
qed

theorem decodeState_table_witness:
  "0x1637 AND 0x6F = (0x27 :: u16) \<and> decodeState 0x1637 = kOperationEnabled"
proof -
  have "(0x6F, 0x27, kOperationEnabled) \<in> set statusword_table"
    by (simp add: statusword_table_def)
  moreover have "0x1637 AND 0x6F = (0x27 :: u16)" by simp
  ultimately show ?thesis using decodeState_table [of "0x1637"] by fastforce
qed

section \<open>The next-hop table against the state machine of the profile\<close>

text \<open>
  How a drive that follows the profile answers a command, on the rows of ETG.6010 Figure 2 that the
  table uses; the drive itself is firmware outside this repository.
\<close>

definition follows_profile :: "(State \<Rightarrow> Command \<Rightarrow> State) \<Rightarrow> bool" where
  "follows_profile drive \<longleftrightarrow>
     drive kFault kCmdFaultReset = kSwitchOnDisabled
   \<and> drive kSwitchOnDisabled kCmdShutdown = kReadyToSwitchOn
   \<and> drive kReadyToSwitchOn kCmdDisableVoltage = kSwitchOnDisabled
   \<and> drive kReadyToSwitchOn kCmdSwitchOn = kSwitchedOn
   \<and> drive kSwitchedOn kCmdDisableVoltage = kSwitchOnDisabled
   \<and> drive kSwitchedOn kCmdShutdown = kReadyToSwitchOn
   \<and> drive kSwitchedOn kCmdEnableOperation = kOperationEnabled
   \<and> drive kOperationEnabled kCmdDisableVoltage = kSwitchOnDisabled
   \<and> drive kOperationEnabled kCmdShutdown = kReadyToSwitchOn
   \<and> drive kOperationEnabled kCmdSwitchOn = kSwitchedOn
   \<and> drive kOperationEnabled kCmdQuickStop = kQuickStopActive
   \<and> drive kQuickStopActive kCmdEnableOperation = kOperationEnabled
   \<and> drive kQuickStopActive kCmdDisableVoltage = kSwitchOnDisabled"

text \<open>The height of a state on the ladder the walk climbs, and the hops left to a target.\<close>

primrec rung :: "State \<Rightarrow> nat" where
  "rung kFault = 0"
| "rung kNotReadyToSwitchOn = 0"
| "rung kFaultReactionActive = 0"
| "rung kSwitchOnDisabled = 1"
| "rung kReadyToSwitchOn = 2"
| "rung kSwitchedOn = 3"
| "rung kOperationEnabled = 4"
| "rung kQuickStopActive = 5"

definition fsa_distance :: "State \<Rightarrow> State \<Rightarrow> nat" where
  "fsa_distance from target =
     (if from = target then 0
      else if from = kQuickStopActive \<and> target = kOperationEnabled then 1
      else if from = kQuickStopActive then rung target
      else if rung from < rung target then rung target - rung from
      else 1)"

lemma fsa_distance_bound: "isCommandableState target \<Longrightarrow> fsa_distance from target \<le> 5"
  by (cases "from"; cases target) (simp_all add: fsa_distance_def)

lemma command_gets_closer:
  assumes "follows_profile drive"
    and "nextFsaTransition from target allow = kCommand c"
  shows "fsa_distance (drive from c) target < fsa_distance from target"
  using assms
  by (cases "from"; cases target; cases allow)
     (simp_all add: follows_profile_def nextFsaTransition_def fsa_distance_def split: if_splits)

text \<open>One hop of the walk on a drive whose answer is immediate; the walk itself iterates it.\<close>

fun fsa_walk :: "(State \<Rightarrow> Command \<Rightarrow> State) \<Rightarrow> State \<Rightarrow> bool \<Rightarrow> nat \<Rightarrow> State \<Rightarrow> State" where
  "fsa_walk drive target allow 0 s = s"
| "fsa_walk drive target allow (Suc n) s =
     (case nextFsaTransition s target allow of
        kCommand c \<Rightarrow> fsa_walk drive target allow n (drive s c)
      | _ \<Rightarrow> s)"

text \<open>The states from which the table has a next hop toward the target.\<close>

definition fsa_can_move :: "State \<Rightarrow> State \<Rightarrow> bool \<Rightarrow> bool" where
  "fsa_can_move from target allow \<longleftrightarrow>
     from \<noteq> kNotReadyToSwitchOn \<and> from \<noteq> kFaultReactionActive
   \<and> (from = kQuickStopActive \<and> target = kOperationEnabled \<longrightarrow> allow)"

lemma command_keeps_moving:
  assumes "follows_profile drive"
    and "nextFsaTransition from target allow = kCommand c"
  shows "fsa_can_move (drive from c) target allow"
  using assms
  by (cases "from"; cases target; cases allow)
     (simp_all add: follows_profile_def nextFsaTransition_def fsa_can_move_def split: if_splits)

lemma can_move_next:
  assumes "isCommandableState target" and "fsa_can_move from target allow" and "from \<noteq> target"
  shows "\<exists>c. nextFsaTransition from target allow = kCommand c"
  using assms by (cases "from") (auto simp: nextFsaTransition_def fsa_can_move_def)

lemma fsa_walk_arrives:
  assumes "follows_profile drive" and "isCommandableState target"
    and "fsa_can_move s target allow" and "fsa_distance s target \<le> n"
  shows "fsa_walk drive target allow n s = target"
  using assms(3,4)
proof (induction n arbitrary: s)
  case 0
  with assms(2) show ?case by (cases target) (auto simp: fsa_distance_def split: if_splits)
next
  case (Suc n)
  show ?case
  proof (cases "s = target")
    case True
    with assms(2) show ?thesis by (simp add: nextFsaTransition_def)
  next
    case False
    then obtain c where c: "nextFsaTransition s target allow = kCommand c"
      using can_move_next assms(2) Suc.prems(1) by blast
    have "fsa_distance (drive s c) target \<le> n"
      using command_gets_closer [OF assms(1) c] Suc.prems(2) by simp
    with command_keeps_moving [OF assms(1) c] Suc.IH c show ?thesis by simp
  qed
qed

text \<open>
  On a drive that follows the profile, iterating the next-hop table reaches every state a master
  can ask for within five commands, from every state in which the drive accepts commands; the one
  exception is leaving a quick stop for OperationEnabled when overriding it is not allowed.
\<close>

theorem next_hops_reach_target:
  assumes "follows_profile drive" and "isCommandableState target"
    and "s \<noteq> kNotReadyToSwitchOn" and "s \<noteq> kFaultReactionActive"
    and "s = kQuickStopActive \<and> target = kOperationEnabled \<longrightarrow> allow"
    and "5 \<le> n"
  shows "fsa_walk drive target allow n s = target"
proof -
  have "fsa_can_move s target allow" using assms(3-5) by (simp add: fsa_can_move_def)
  moreover have "fsa_distance s target \<le> n"
    using fsa_distance_bound [OF assms(2), of s] assms(6) by simp
  ultimately show ?thesis using fsa_walk_arrives assms(1,2) by blast
qed

text \<open>A drive that answers every command as the profile says and ignores the others.\<close>

definition profile_answers :: "State \<Rightarrow> Command \<Rightarrow> State" where
  "profile_answers s c =
     (case (s, c) of
        (kFault, kCmdFaultReset) \<Rightarrow> kSwitchOnDisabled
      | (kSwitchOnDisabled, kCmdShutdown) \<Rightarrow> kReadyToSwitchOn
      | (kReadyToSwitchOn, kCmdDisableVoltage) \<Rightarrow> kSwitchOnDisabled
      | (kReadyToSwitchOn, kCmdSwitchOn) \<Rightarrow> kSwitchedOn
      | (kSwitchedOn, kCmdDisableVoltage) \<Rightarrow> kSwitchOnDisabled
      | (kSwitchedOn, kCmdShutdown) \<Rightarrow> kReadyToSwitchOn
      | (kSwitchedOn, kCmdEnableOperation) \<Rightarrow> kOperationEnabled
      | (kOperationEnabled, kCmdDisableVoltage) \<Rightarrow> kSwitchOnDisabled
      | (kOperationEnabled, kCmdShutdown) \<Rightarrow> kReadyToSwitchOn
      | (kOperationEnabled, kCmdSwitchOn) \<Rightarrow> kSwitchedOn
      | (kOperationEnabled, kCmdQuickStop) \<Rightarrow> kQuickStopActive
      | (kQuickStopActive, kCmdEnableOperation) \<Rightarrow> kOperationEnabled
      | (kQuickStopActive, kCmdDisableVoltage) \<Rightarrow> kSwitchOnDisabled
      | _ \<Rightarrow> s)"

lemma profile_answers_follows: "follows_profile profile_answers"
  by (simp add: follows_profile_def profile_answers_def)

theorem next_hops_reach_target_witness:
  "fsa_walk profile_answers kOperationEnabled False 5 kFault = kOperationEnabled"
  by (rule next_hops_reach_target) (simp_all add: profile_answers_follows)

text \<open>
  The table refuses in exactly two cases, a target no master can ask for and a quick stop it may
  not override, and it commands nothing while the drive moves on its own; the command that leaves a
  quick stop for OperationEnabled is therefore only ever issued when the caller allowed it.
\<close>

theorem nextFsaTransition_refuses_iff:
  "(nextFsaTransition s target allow = kUnreachable \<longleftrightarrow>
      (if isCommandableState target
       then s = kQuickStopActive \<and> target = kOperationEnabled \<and> \<not> allow else True))
   \<and> (nextFsaTransition s target allow = kWait \<longleftrightarrow>
      isCommandableState target \<and> s \<in> {kNotReadyToSwitchOn, kFaultReactionActive})
   \<and> (nextFsaTransition s target allow = kArrived \<longleftrightarrow> isCommandableState target \<and> s = target)"
  by (cases s; cases target) (simp_all add: nextFsaTransition_def)

text \<open>
  State names parse back to exactly the state they name, and no other text parses.
\<close>

theorem parseState_iff: "parseState token = Some s \<longleftrightarrow> token = state_toString s"
proof
  assume "parseState token = Some s"
  then show "token = state_toString s" by (auto simp: parseState_def find_Some_iff)
next
  assume "token = state_toString s"
  then show "parseState token = Some s"
    by (cases s) (simp_all add: parseState_def all_states_def)
qed

text \<open>
  A requested operation mode is accepted exactly when it is one of the profile's modes, and the
  value later written to the drive is the number that was asked for: numbers outside the 8-bit range
  are not wrapped onto another mode.
\<close>

theorem toOperationMode_exact:
  "toOperationMode value = Some m \<longleftrightarrow>
     sint (raw_of_mode m) = value \<and> (\<forall>v. m \<noteq> kUnlisted v)"
proof
  assume a: "toOperationMode value = Some m"
  then have r: "-128 \<le> value" "value \<le> 127" and m: "m = mode_of_raw (word_of_int value)"
    and listed: "\<forall>v. m \<noteq> kUnlisted v"
    by (auto simp: toOperationMode_def split: if_splits OperationMode.splits)
  have "sint (word_of_int value :: u8) = value"
    using r by (simp add: sint_sbintrunc' signed_take_bit_int_eq_self)
  with m listed show "sint (raw_of_mode m) = value \<and> (\<forall>v. m \<noteq> kUnlisted v)" by simp
next
  assume "sint (raw_of_mode m) = value \<and> (\<forall>v. m \<noteq> kUnlisted v)"
  then show "toOperationMode value = Some m"
    by (cases m) (auto simp: toOperationMode_def mode_table_simps)
qed

end
