(* ===== verification/Object_Data_Types.thy ===== *)
theory Object_Data_Types
  imports MM_Prelude
begin

text \<open>
  The CoE data type codes of \<^verbatim>\<open>libs/comm/object_data_types.h\<close>: the enumerators of
  \<^verbatim>\<open>ObjectDataType\<close> that code switches over or examples use, the catalogue \<^verbatim>\<open>kObjectDataTypes\<close>,
  which lists every code with its name and width, and the two lookups over it. A code is whatever
  16-bit number a slave reports, so an enumerator is the constant of its value and a \<^verbatim>\<open>switch\<close> over
  the enumeration compares the code with those constants.
\<close>

section \<open>Codes\<close>

definition BOOLEAN :: u16 where "BOOLEAN = 0x0001"
definition BYTE :: u16 where "BYTE = 0x001E"
definition WORD :: u16 where "WORD = 0x001F"
definition DWORD :: u16 where "DWORD = 0x0020"
definition BIT1 :: u16 where "BIT1 = 0x0030"
definition INTEGER8 :: u16 where "INTEGER8 = 0x0002"
definition INTEGER16 :: u16 where "INTEGER16 = 0x0003"
definition INTEGER24 :: u16 where "INTEGER24 = 0x0010"
definition INTEGER32 :: u16 where "INTEGER32 = 0x0004"
definition INTEGER64 :: u16 where "INTEGER64 = 0x0015"
definition UNSIGNED8 :: u16 where "UNSIGNED8 = 0x0005"
definition UNSIGNED16 :: u16 where "UNSIGNED16 = 0x0006"
definition UNSIGNED32 :: u16 where "UNSIGNED32 = 0x0007"
definition UNSIGNED64 :: u16 where "UNSIGNED64 = 0x001B"
definition REAL32 :: u16 where "REAL32 = 0x0008"
definition REAL64 :: u16 where "REAL64 = 0x0011"
definition VISIBLE_STRING :: u16 where "VISIBLE_STRING = 0x0009"
definition OCTET_STRING :: u16 where "OCTET_STRING = 0x000A"
definition UNICODE_STRING :: u16 where "UNICODE_STRING = 0x000B"
definition WSTRING :: u16 where "WSTRING = 0x0268"

section \<open>Catalogue\<close>

record ObjectDataTypeInfo =
  odt_code :: u16
  odt_name :: string
  odt_bitSize :: u16

text \<open>One row of the catalogue, in the order of the fields of \<^verbatim>\<open>ObjectDataTypeInfo\<close>.\<close>

definition odt_row :: "u16 \<Rightarrow> string \<Rightarrow> u16 \<Rightarrow> ObjectDataTypeInfo" where
  "odt_row c n b = \<lparr>odt_code = c, odt_name = n, odt_bitSize = b\<rparr>"

definition kObjectDataTypes :: "ObjectDataTypeInfo list" where
  "kObjectDataTypes =
     [odt_row 0x0000 ''UNSPECIFIED'' 0,
      odt_row 0x0001 ''BOOLEAN'' 1,
      odt_row 0x0002 ''INTEGER8'' 8,
      odt_row 0x0003 ''INTEGER16'' 16,
      odt_row 0x0004 ''INTEGER32'' 32,
      odt_row 0x0005 ''UNSIGNED8'' 8,
      odt_row 0x0006 ''UNSIGNED16'' 16,
      odt_row 0x0007 ''UNSIGNED32'' 32,
      odt_row 0x0008 ''REAL32'' 32,
      odt_row 0x0009 ''VISIBLE_STRING'' 0,
      odt_row 0x000A ''OCTET_STRING'' 0,
      odt_row 0x000B ''UNICODE_STRING'' 0,
      odt_row 0x000C ''TIME_OF_DAY'' 48,
      odt_row 0x000D ''TIME_DIFFERENCE'' 48,
      odt_row 0x000F ''DOMAIN'' 0,
      odt_row 0x0010 ''INTEGER24'' 24,
      odt_row 0x0011 ''REAL64'' 64,
      odt_row 0x0012 ''INTEGER40'' 40,
      odt_row 0x0013 ''INTEGER48'' 48,
      odt_row 0x0014 ''INTEGER56'' 56,
      odt_row 0x0015 ''INTEGER64'' 64,
      odt_row 0x0016 ''UNSIGNED24'' 24,
      odt_row 0x0018 ''UNSIGNED40'' 40,
      odt_row 0x0019 ''UNSIGNED48'' 48,
      odt_row 0x001A ''UNSIGNED56'' 56,
      odt_row 0x001B ''UNSIGNED64'' 64,
      odt_row 0x001D ''GUID'' 128,
      odt_row 0x001E ''BYTE'' 8,
      odt_row 0x001F ''WORD'' 16,
      odt_row 0x0020 ''DWORD'' 32,
      odt_row 0x0021 ''PDO_MAPPING'' 0,
      odt_row 0x0023 ''IDENTITY'' 0,
      odt_row 0x0025 ''COMMAND_PAR'' 0,
      odt_row 0x0027 ''PDO_PARAMETER'' 0,
      odt_row 0x0028 ''ENUM'' 0,
      odt_row 0x0029 ''SM_SYNCHRONISATION'' 0,
      odt_row 0x002A ''RECORD'' 0,
      odt_row 0x002B ''BACKUP_PARAMETER'' 0,
      odt_row 0x002C ''MODULAR_DEVICE_PROFILE'' 0,
      odt_row 0x002D ''BITARR8'' 8,
      odt_row 0x002E ''BITARR16'' 16,
      odt_row 0x002F ''BITARR32'' 32,
      odt_row 0x0030 ''BIT1'' 1,
      odt_row 0x0031 ''BIT2'' 2,
      odt_row 0x0032 ''BIT3'' 3,
      odt_row 0x0033 ''BIT4'' 4,
      odt_row 0x0034 ''BIT5'' 5,
      odt_row 0x0035 ''BIT6'' 6,
      odt_row 0x0036 ''BIT7'' 7,
      odt_row 0x0037 ''BIT8'' 8,
      odt_row 0x0038 ''BIT9'' 9,
      odt_row 0x0039 ''BIT10'' 10,
      odt_row 0x003A ''BIT11'' 11,
      odt_row 0x003B ''BIT12'' 12,
      odt_row 0x003C ''BIT13'' 13,
      odt_row 0x003D ''BIT14'' 14,
      odt_row 0x003E ''BIT15'' 15,
      odt_row 0x003F ''BIT16'' 16,
      odt_row 0x0260 ''ARRAY_OF_INT'' 0,
      odt_row 0x0261 ''ARRAY_OF_SINT'' 0,
      odt_row 0x0262 ''ARRAY_OF_DINT'' 0,
      odt_row 0x0263 ''ARRAY_OF_UDINT'' 0,
      odt_row 0x0264 ''ARRAY_OF_BITARR8'' 0,
      odt_row 0x0265 ''ARRAY_OF_BITARR16'' 0,
      odt_row 0x0266 ''ARRAY_OF_BITARR32'' 0,
      odt_row 0x0267 ''ARRAY_OF_USINT'' 0,
      odt_row 0x0268 ''WSTRING'' 0,
      odt_row 0x0269 ''ARRAY_OF_REAL'' 0,
      odt_row 0x026A ''ARRAY_OF_LREAL'' 0,
      odt_row 0x0281 ''ERROR_SETTING'' 0,
      odt_row 0x0282 ''DIAGNOSIS_HISTORY'' 0,
      odt_row 0x0283 ''EXTERNAL_SYNC_STATUS'' 0,
      odt_row 0x0284 ''EXTERNAL_SYNC_SETTINGS'' 0,
      odt_row 0x0285 ''DEFTYPE_FSOEFRAME'' 0,
      odt_row 0x0286 ''DEFTYPE_FSOECOMMPAR'' 0]"

definition objectDataTypeName :: "u16 \<Rightarrow> string" where
  "objectDataTypeName code =
     (case find (\<lambda>e. odt_code e = code) kObjectDataTypes of
        Some e \<Rightarrow> odt_name e
      | None \<Rightarrow> ''UNKNOWN'')"

definition objectDataTypeBitSize :: "u16 \<Rightarrow> u16" where
  "objectDataTypeBitSize code =
     (case find (\<lambda>e. odt_code e = code) kObjectDataTypes of
        Some e \<Rightarrow> odt_bitSize e
      | None \<Rightarrow> 0)"

section \<open>The catalogue is keyed by its codes\<close>

lemma kObjectDataTypes_codes:
  "map odt_code kObjectDataTypes =
     [0x0000, 0x0001, 0x0002, 0x0003, 0x0004, 0x0005, 0x0006, 0x0007, 0x0008, 0x0009,
      0x000A, 0x000B, 0x000C, 0x000D, 0x000F, 0x0010, 0x0011, 0x0012, 0x0013, 0x0014,
      0x0015, 0x0016, 0x0018, 0x0019, 0x001A, 0x001B, 0x001D, 0x001E, 0x001F, 0x0020,
      0x0021, 0x0023, 0x0025, 0x0027, 0x0028, 0x0029, 0x002A, 0x002B, 0x002C, 0x002D,
      0x002E, 0x002F, 0x0030, 0x0031, 0x0032, 0x0033, 0x0034, 0x0035, 0x0036, 0x0037,
      0x0038, 0x0039, 0x003A, 0x003B, 0x003C, 0x003D, 0x003E, 0x003F, 0x0260, 0x0261,
      0x0262, 0x0263, 0x0264, 0x0265, 0x0266, 0x0267, 0x0268, 0x0269, 0x026A, 0x0281,
      0x0282, 0x0283, 0x0284, 0x0285, 0x0286]"
  by (simp add: kObjectDataTypes_def odt_row_def)

lemma kObjectDataTypes_distinct: "distinct (map odt_code kObjectDataTypes)"
  unfolding kObjectDataTypes_codes by simp

lemma find_by_key:
  assumes "distinct (map f xs)" and "x \<in> set xs"
  shows "find (\<lambda>e. f e = f x) xs = Some x"
  using assms by (induction xs) force+

end
