(* ===== verification/Ieee754.thy ===== *)
theory Ieee754
  imports MM_Prelude
begin

text \<open>
  The binary interchange formats behind the C++ types \<^verbatim>\<open>float\<close> and \<^verbatim>\<open>double\<close>, as far as the
  sources convert between them and the integers: decoding a bit pattern into a sign, a
  significand and a power of two, and the conversion of an exact dyadic number to the nearest
  pattern, ties to even. Parameter \<open>p\<close> is the precision with the hidden bit and \<open>ew\<close> the width of
  the exponent field; \<^verbatim>\<open>float\<close> is \<open>p = 24\<close>, \<open>ew = 8\<close> and \<^verbatim>\<open>double\<close> is \<open>p = 53\<close>, \<open>ew = 11\<close>.
\<close>

datatype fp =
    FpNan bool nat
  | FpInf bool
  | FpFin bool nat int

text \<open>\<open>FpFin s m e\<close> is the number \<open>m * 2 ^ e\<close>, negated when \<open>s\<close>.\<close>

definition fp_bias :: "nat \<Rightarrow> int" where
  "fp_bias ew = 2 ^ (ew - 1) - 1"

definition fp_emin :: "nat \<Rightarrow> nat \<Rightarrow> int" where
  "fp_emin p ew = 1 - fp_bias ew - (int p - 1)"

definition fp_decode :: "nat \<Rightarrow> nat \<Rightarrow> nat \<Rightarrow> fp" where
  "fp_decode p ew n =
     (let frac = n mod 2 ^ (p - 1);
          ex = n div 2 ^ (p - 1) mod 2 ^ ew;
          s = odd (n div 2 ^ (p - 1 + ew))
      in if ex = 2 ^ ew - 1 then (if frac = 0 then FpInf s else FpNan s frac)
         else if ex = 0 then FpFin s frac (fp_emin p ew)
         else FpFin s (frac + 2 ^ (p - 1)) (fp_emin p ew + int ex - 1))"

fun bit_length :: "nat \<Rightarrow> nat" where
  "bit_length n = (if n = 0 then 0 else Suc (bit_length (n div 2)))"

declare bit_length.simps [simp del]

lemma bit_length_eval [simp]:
  "bit_length 0 = 0"
  "bit_length (Suc 0) = 1"
  "bit_length (numeral k) = Suc (bit_length (numeral k div 2))"
  by (subst bit_length.simps, simp)+

text \<open>Dropping \<open>s\<close> low bits, rounding to nearest with ties to even.\<close>

definition round_half_even :: "nat \<Rightarrow> nat \<Rightarrow> nat" where
  "round_half_even m s =
     (if s = 0 then m
      else let d = m div 2 ^ s; r = m mod 2 ^ s; h = 2 ^ (s - 1)
           in if r > h \<or> (r = h \<and> odd d) then d + 1 else d)"

definition fp_round :: "nat \<Rightarrow> nat \<Rightarrow> bool \<Rightarrow> nat \<Rightarrow> int \<Rightarrow> nat" where
  "fp_round p ew s m e =
     (let sgn = (if s then 2 ^ (p - 1 + ew) else 0);
          inf = (2 ^ ew - 1) * 2 ^ (p - 1)
      in if m = 0 then sgn
         else let q = max (fp_emin p ew) (e + int (bit_length m) - int p);
                  m' = (if q \<le> e then m * 2 ^ nat (e - q) else round_half_even m (nat (q - e)));
                  n = m' + nat (q - fp_emin p ew) * 2 ^ (p - 1)
              in sgn + min n inf)"

text \<open>
  Converting a NaN keeps its sign and the leading bits of its payload and sets the quiet bit, as
  the conversion instructions of the supported processors do; the language leaves it open.
\<close>

definition fp_nan :: "nat \<Rightarrow> nat \<Rightarrow> nat \<Rightarrow> bool \<Rightarrow> nat \<Rightarrow> nat" where
  "fp_nan p0 p ew s frac =
     (let quiet = 2 ^ (p - 2);
          frac' = (if p0 \<ge> p then frac div 2 ^ (p0 - p) else frac * 2 ^ (p - p0));
          payload = frac' mod quiet
      in (if s then 2 ^ (p - 1 + ew) else 0) + (2 ^ ew - 1) * 2 ^ (p - 1) + quiet + payload)"

definition fp_encode :: "nat \<Rightarrow> nat \<Rightarrow> nat \<Rightarrow> fp \<Rightarrow> nat" where
  "fp_encode p0 p ew x =
     (case x of
        FpNan s frac \<Rightarrow> fp_nan p0 p ew s frac
      | FpInf s \<Rightarrow> (if s then 2 ^ (p - 1 + ew) else 0) + (2 ^ ew - 1) * 2 ^ (p - 1)
      | FpFin s m e \<Rightarrow> fp_round p ew s m e)"

section \<open>float and double\<close>

definition float_value :: "u32 \<Rightarrow> fp" where
  "float_value w = fp_decode 24 8 (unat w)"

definition double_value :: "u64 \<Rightarrow> fp" where
  "double_value w = fp_decode 53 11 (unat w)"

definition float_to_double :: "u32 \<Rightarrow> u64" where
  "float_to_double w = word_of_nat (fp_encode 24 53 11 (float_value w))"

definition double_to_float :: "u64 \<Rightarrow> u32" where
  "double_to_float w = word_of_nat (fp_encode 53 24 8 (double_value w))"

definition int_to_double :: "int \<Rightarrow> u64" where
  "int_to_double i = word_of_nat (fp_round 53 11 (i < 0) (nat \<bar>i\<bar>) 0)"

fun fp_isfinite :: "fp \<Rightarrow> bool" where
  "fp_isfinite (FpFin _ _ _) = True"
| "fp_isfinite _ = False"

text \<open>A finite value is whole when its negative powers of two divide its significand.\<close>

fun fp_whole :: "fp \<Rightarrow> bool" where
  "fp_whole (FpFin s m e) = (e \<ge> 0 \<or> m mod 2 ^ nat (- e) = 0)"
| "fp_whole _ = False"

fun fp_trunc :: "fp \<Rightarrow> int" where
  "fp_trunc (FpFin s m e) =
     (let a = (if e \<ge> 0 then m * 2 ^ nat e else m div 2 ^ nat (- e))
      in if s then - int a else int a)"
| "fp_trunc _ = 0"

text \<open>Comparison of the magnitude with an integer, without leaving the integers.\<close>

fun fp_abs_gt :: "fp \<Rightarrow> nat \<Rightarrow> bool" where
  "fp_abs_gt (FpFin s m e) k =
     (if e \<ge> 0 then m * 2 ^ nat e > k else m > k * 2 ^ nat (- e))"
| "fp_abs_gt (FpInf s) k = True"
| "fp_abs_gt (FpNan s f) k = False"

section \<open>Bounds of the encoding\<close>

lemma fp_round_lt:
  assumes "p > 0"
  shows "fp_round p ew s m e < 2 ^ (p + ew)"
proof -
  have k: "(2::nat) ^ (p + ew) = 2 * 2 ^ (p - 1 + ew)"
    using assms by (cases p) (simp_all add: power_add)
  have "(2 ^ ew - 1) * 2 ^ (p - 1) < (2::nat) ^ (p - 1 + ew)"
    by (simp add: power_add algebra_simps)
  then have "min n ((2 ^ ew - 1) * 2 ^ (p - 1)) < (2::nat) ^ (p - 1 + ew)" for n
    by (rule min.strict_coboundedI2)
  then have "(if s then 2 ^ (p - 1 + ew) else 0) + min n ((2 ^ ew - 1) * 2 ^ (p - 1))
               < (2::nat) ^ (p + ew)" for n
    unfolding k mult_2 by (intro add_le_less_mono) auto
  then show ?thesis
    unfolding fp_round_def Let_def using zero_less_power [of "2::nat" "p - 1 + ew"] k by auto
qed

text \<open>The decoded significand of a finite pattern fits the precision.\<close>

lemma fp_decode_significand:
  assumes "p > 0" and "fp_decode p ew n = FpFin s m e"
  shows "m < 2 ^ p"
proof -
  obtain k where p: "p = Suc k" using assms(1) by (cases p) auto
  have r: "n mod 2 ^ k < 2 ^ k" by simp
  have "m = n mod 2 ^ k \<or> m = n mod 2 ^ k + 2 ^ k"
    using assms(2) by (auto simp: fp_decode_def Let_def p split: if_splits)
  with r show ?thesis unfolding p power_Suc by linarith
qed

lemmas fp_eval =
  int_to_double_def double_to_float_def float_to_double_def double_value_def float_value_def
  fp_decode_def fp_encode_def fp_round_def fp_emin_def fp_bias_def round_half_even_def Let_def

end
