(* ===== verification/Device_Parameter.thy ===== *)
theory Device_Parameter
  imports Object_Data_Types Ieee754
begin

text \<open>
  Parameter values and their wire encoding: \<^verbatim>\<open>libs/node/device_parameter.h\<close> and
  \<^verbatim>\<open>libs/node/device_parameter.cc\<close>. A value is one alternative of the C++ variant; integers keep
  their width and their two's complement bits, floating point values their bit pattern, and a
  \<^verbatim>\<open>std::string\<close> its bytes. A \<^verbatim>\<open>memcpy\<close> between a value and a buffer is the little-endian reading the
  header's \<^verbatim>\<open>static_assert\<close> fixes.
\<close>

unbundle bit_operations_syntax

section \<open>Values\<close>

datatype DeviceParameterValue =
    VInt8 u8 | VInt16 u16 | VInt32 u32 | VInt64 u64
  | VUint8 u8 | VUint16 u16 | VUint32 u32 | VUint64 u64
  | VFloat u32 | VDouble u64
  | VString bytes | VBytes bytes

text \<open>The alternatives of the variant, as \<^verbatim>\<open>std::holds_alternative\<close> names them.\<close>

datatype Alternative =
    TInt8 | TInt16 | TInt32 | TInt64
  | TUint8 | TUint16 | TUint32 | TUint64
  | TFloat | TDouble
  | TString | TBytes

primrec alternative :: "DeviceParameterValue \<Rightarrow> Alternative" where
  "alternative (VInt8 _) = TInt8"
| "alternative (VInt16 _) = TInt16"
| "alternative (VInt32 _) = TInt32"
| "alternative (VInt64 _) = TInt64"
| "alternative (VUint8 _) = TUint8"
| "alternative (VUint16 _) = TUint16"
| "alternative (VUint32 _) = TUint32"
| "alternative (VUint64 _) = TUint64"
| "alternative (VFloat _) = TFloat"
| "alternative (VDouble _) = TDouble"
| "alternative (VString _) = TString"
| "alternative (VBytes _) = TBytes"

text \<open>\<^verbatim>\<open>sizeof\<close> of an arithmetic alternative, and 0 for the two containers.\<close>

primrec alternative_size :: "Alternative \<Rightarrow> nat" where
  "alternative_size TInt8 = 1"
| "alternative_size TInt16 = 2"
| "alternative_size TInt32 = 4"
| "alternative_size TInt64 = 8"
| "alternative_size TUint8 = 1"
| "alternative_size TUint16 = 2"
| "alternative_size TUint32 = 4"
| "alternative_size TUint64 = 8"
| "alternative_size TFloat = 4"
| "alternative_size TDouble = 8"
| "alternative_size TString = 0"
| "alternative_size TBytes = 0"

primrec alternative_integral :: "Alternative \<Rightarrow> bool" where
  "alternative_integral TInt8 = True"
| "alternative_integral TInt16 = True"
| "alternative_integral TInt32 = True"
| "alternative_integral TInt64 = True"
| "alternative_integral TUint8 = True"
| "alternative_integral TUint16 = True"
| "alternative_integral TUint32 = True"
| "alternative_integral TUint64 = True"
| "alternative_integral TFloat = False"
| "alternative_integral TDouble = False"
| "alternative_integral TString = False"
| "alternative_integral TBytes = False"

primrec alternative_signed :: "Alternative \<Rightarrow> bool" where
  "alternative_signed TInt8 = True"
| "alternative_signed TInt16 = True"
| "alternative_signed TInt32 = True"
| "alternative_signed TInt64 = True"
| "alternative_signed TUint8 = False"
| "alternative_signed TUint16 = False"
| "alternative_signed TUint32 = False"
| "alternative_signed TUint64 = False"
| "alternative_signed TFloat = False"
| "alternative_signed TDouble = False"
| "alternative_signed TString = False"
| "alternative_signed TBytes = False"

text \<open>\<^verbatim>\<open>std::numeric_limits\<close> of an integral alternative.\<close>

definition limit_min :: "Alternative \<Rightarrow> int" where
  "limit_min t = (if alternative_signed t then - (2 ^ (8 * alternative_size t - 1)) else 0)"

definition limit_max :: "Alternative \<Rightarrow> int" where
  "limit_max t =
     (if alternative_signed t then 2 ^ (8 * alternative_size t - 1) - 1
      else 2 ^ (8 * alternative_size t) - 1)"

definition in_range :: "Alternative \<Rightarrow> int \<Rightarrow> bool" where
  "in_range t i \<longleftrightarrow> limit_min t \<le> i \<and> i \<le> limit_max t"

primrec int_value :: "DeviceParameterValue \<Rightarrow> int option" where
  "int_value (VInt8 w) = Some (sint w)"
| "int_value (VInt16 w) = Some (sint w)"
| "int_value (VInt32 w) = Some (sint w)"
| "int_value (VInt64 w) = Some (sint w)"
| "int_value (VUint8 w) = Some (uint w)"
| "int_value (VUint16 w) = Some (uint w)"
| "int_value (VUint32 w) = Some (uint w)"
| "int_value (VUint64 w) = Some (uint w)"
| "int_value (VFloat _) = None"
| "int_value (VDouble _) = None"
| "int_value (VString _) = None"
| "int_value (VBytes _) = None"

text \<open>\<^verbatim>\<open>static_cast\<close> of an integer to an integral alternative: modular, as in C++20.\<close>

primrec cast_int :: "Alternative \<Rightarrow> int \<Rightarrow> DeviceParameterValue" where
  "cast_int TInt8 i = VInt8 (word_of_int i)"
| "cast_int TInt16 i = VInt16 (word_of_int i)"
| "cast_int TInt32 i = VInt32 (word_of_int i)"
| "cast_int TInt64 i = VInt64 (word_of_int i)"
| "cast_int TUint8 i = VUint8 (word_of_int i)"
| "cast_int TUint16 i = VUint16 (word_of_int i)"
| "cast_int TUint32 i = VUint32 (word_of_int i)"
| "cast_int TUint64 i = VUint64 (word_of_int i)"
| "cast_int TFloat i = VFloat (double_to_float (int_to_double i))"
| "cast_int TDouble i = VDouble (int_to_double i)"
| "cast_int TString i = VString []"
| "cast_int TBytes i = VBytes []"

definition makeParameterKey :: "u16 \<Rightarrow> u8 \<Rightarrow> u32" where
  "makeParameterKey index subindex = push_bit 8 (ucast index) OR ucast subindex"

definition valueAs :: "Alternative \<Rightarrow> DeviceParameterValue \<Rightarrow> DeviceParameterValue option" where
  "valueAs t value =
     (if alternative value = t then Some value
      else if alternative_integral t
      then (case int_value value of
              Some i \<Rightarrow> if in_range t i then Some (cast_int t i) else None
            | None \<Rightarrow> None)
      else None)"

section \<open>The data type switch\<close>

text \<open>
  Four functions of the source switch over the data type code with the same groups of case labels;
  \<open>type_case\<close> is that grouping, \<open>CaseDefault\<close> the \<^verbatim>\<open>default\<close> label.
\<close>

datatype TypeCase =
    CaseUint8 | CaseInt8 | CaseInt16 | CaseInt32 | CaseUint16 | CaseUint32 | CaseReal32
  | CaseReal64 | CaseInt64 | CaseUint64 | CaseVisibleString | CaseUnicodeString | CaseDefault

definition type_case :: "u16 \<Rightarrow> TypeCase" where
  "type_case dataType =
     (if dataType \<in> {BOOLEAN, UNSIGNED8, BYTE} then CaseUint8
      else if dataType = INTEGER8 then CaseInt8
      else if dataType = INTEGER16 then CaseInt16
      else if dataType = INTEGER32 then CaseInt32
      else if dataType \<in> {UNSIGNED16, WORD} then CaseUint16
      else if dataType \<in> {UNSIGNED32, DWORD} then CaseUint32
      else if dataType = REAL32 then CaseReal32
      else if dataType = REAL64 then CaseReal64
      else if dataType = INTEGER64 then CaseInt64
      else if dataType = UNSIGNED64 then CaseUint64
      else if dataType = VISIBLE_STRING then CaseVisibleString
      else if dataType = UNICODE_STRING then CaseUnicodeString
      else CaseDefault)"

definition defaultValueForDataType :: "u16 \<Rightarrow> DeviceParameterValue" where
  "defaultValueForDataType dataType =
     (case type_case dataType of
        CaseUint8 \<Rightarrow> VUint8 0
      | CaseInt8 \<Rightarrow> VInt8 0
      | CaseInt16 \<Rightarrow> VInt16 0
      | CaseInt32 \<Rightarrow> VInt32 0
      | CaseUint16 \<Rightarrow> VUint16 0
      | CaseUint32 \<Rightarrow> VUint32 0
      | CaseReal32 \<Rightarrow> VFloat 0
      | CaseReal64 \<Rightarrow> VDouble 0
      | CaseInt64 \<Rightarrow> VInt64 0
      | CaseUint64 \<Rightarrow> VUint64 0
      | CaseVisibleString \<Rightarrow> VString []
      | CaseUnicodeString \<Rightarrow> VString []
      | CaseDefault \<Rightarrow> VBytes [])"

definition isScalarDataType :: "u16 \<Rightarrow> bool" where
  "isScalarDataType dataType =
     (case type_case dataType of
        CaseVisibleString \<Rightarrow> False
      | CaseUnicodeString \<Rightarrow> False
      | CaseDefault \<Rightarrow> False
      | _ \<Rightarrow> True)"

definition scalarByteWidth :: "u16 \<Rightarrow> nat" where
  "scalarByteWidth dataType = alternative_size (alternative (defaultValueForDataType dataType))"

section \<open>Packing\<close>

definition packLeBits :: "bytes \<Rightarrow> u64" where
  "packLeBits bs =
     fold (\<lambda>i out. out OR push_bit (8 * i) (ucast (bs ! i))) [0..<min (length bs) 8] 0"

text \<open>\<^verbatim>\<open>unpackLeBits(bits, out)\<close> fills every byte of \<^verbatim>\<open>out\<close>; \<open>n\<close> is the size of that span.\<close>

definition unpackLeBits :: "u64 \<Rightarrow> nat \<Rightarrow> bytes" where
  "unpackLeBits bits n = map (\<lambda>i. if i < 8 then ucast (drop_bit (8 * i) bits) else 0) [0..<n]"

section \<open>The SDO codec\<close>

datatype codec_error =
    TooShort u16 nat nat
  | OtherAlternative u16 nat
  | ExpectsString u16
  | ExpectsRawBytes u16

text \<open>\<^verbatim>\<open>memcpy\<close> of the leading \<^verbatim>\<open>sizeof(T)\<close> bytes into a \<^verbatim>\<open>T\<close>.\<close>

primrec scalar_of_bits :: "Alternative \<Rightarrow> u64 \<Rightarrow> DeviceParameterValue" where
  "scalar_of_bits TInt8 b = VInt8 (ucast b)"
| "scalar_of_bits TInt16 b = VInt16 (ucast b)"
| "scalar_of_bits TInt32 b = VInt32 (ucast b)"
| "scalar_of_bits TInt64 b = VInt64 b"
| "scalar_of_bits TUint8 b = VUint8 (ucast b)"
| "scalar_of_bits TUint16 b = VUint16 (ucast b)"
| "scalar_of_bits TUint32 b = VUint32 (ucast b)"
| "scalar_of_bits TUint64 b = VUint64 b"
| "scalar_of_bits TFloat b = VFloat (ucast b)"
| "scalar_of_bits TDouble b = VDouble b"
| "scalar_of_bits TString b = VString []"
| "scalar_of_bits TBytes b = VBytes []"

primrec bits_of_scalar :: "DeviceParameterValue \<Rightarrow> u64" where
  "bits_of_scalar (VInt8 w) = ucast w"
| "bits_of_scalar (VInt16 w) = ucast w"
| "bits_of_scalar (VInt32 w) = ucast w"
| "bits_of_scalar (VInt64 w) = w"
| "bits_of_scalar (VUint8 w) = ucast w"
| "bits_of_scalar (VUint16 w) = ucast w"
| "bits_of_scalar (VUint32 w) = ucast w"
| "bits_of_scalar (VUint64 w) = w"
| "bits_of_scalar (VFloat w) = ucast w"
| "bits_of_scalar (VDouble w) = w"
| "bits_of_scalar (VString _) = 0"
| "bits_of_scalar (VBytes _) = 0"

definition decodeScalar ::
  "Alternative \<Rightarrow> u16 \<Rightarrow> bytes \<Rightarrow> codec_error + DeviceParameterValue" where
  "decodeScalar t dataType bs =
     (if length bs < alternative_size t then Inl (TooShort dataType (alternative_size t) (length bs))
      else Inr (scalar_of_bits t (packLeBits (take (alternative_size t) bs))))"

definition encodeScalar ::
  "Alternative \<Rightarrow> u16 \<Rightarrow> DeviceParameterValue \<Rightarrow> codec_error + bytes" where
  "encodeScalar t dataType value =
     (if alternative value \<noteq> t then Inl (OtherAlternative dataType (alternative_size t))
      else Inr (unpackLeBits (bits_of_scalar value) (alternative_size t)))"

text \<open>The \<^verbatim>\<open>while\<close> loop of the VISIBLE_STRING case: the length without the trailing spaces.\<close>

fun trim_spaces :: "bytes \<Rightarrow> nat \<Rightarrow> nat" where
  "trim_spaces bs 0 = 0"
| "trim_spaces bs (Suc len) = (if bs ! len = 0x20 then trim_spaces bs len else Suc len)"

definition decodeSdoBytes :: "u16 \<Rightarrow> bytes \<Rightarrow> codec_error + DeviceParameterValue" where
  "decodeSdoBytes dataType bs =
     (case type_case dataType of
        CaseUint8 \<Rightarrow> decodeScalar TUint8 dataType bs
      | CaseInt8 \<Rightarrow> decodeScalar TInt8 dataType bs
      | CaseInt16 \<Rightarrow> decodeScalar TInt16 dataType bs
      | CaseInt32 \<Rightarrow> decodeScalar TInt32 dataType bs
      | CaseUint16 \<Rightarrow> decodeScalar TUint16 dataType bs
      | CaseUint32 \<Rightarrow> decodeScalar TUint32 dataType bs
      | CaseReal32 \<Rightarrow> decodeScalar TFloat dataType bs
      | CaseReal64 \<Rightarrow> decodeScalar TDouble dataType bs
      | CaseInt64 \<Rightarrow> decodeScalar TInt64 dataType bs
      | CaseUint64 \<Rightarrow> decodeScalar TUint64 dataType bs
      | CaseVisibleString \<Rightarrow>
          (let nul = length (takeWhile (\<lambda>b. b \<noteq> 0) bs)
           in Inr (VString (take (trim_spaces bs nul) bs)))
      | CaseUnicodeString \<Rightarrow> Inr (VString bs)
      | CaseDefault \<Rightarrow> Inr (VBytes bs))"

definition encodeSdoBytes :: "u16 \<Rightarrow> DeviceParameterValue \<Rightarrow> codec_error + bytes" where
  "encodeSdoBytes dataType value =
     (case type_case dataType of
        CaseUint8 \<Rightarrow> encodeScalar TUint8 dataType value
      | CaseInt8 \<Rightarrow> encodeScalar TInt8 dataType value
      | CaseInt16 \<Rightarrow> encodeScalar TInt16 dataType value
      | CaseInt32 \<Rightarrow> encodeScalar TInt32 dataType value
      | CaseUint16 \<Rightarrow> encodeScalar TUint16 dataType value
      | CaseUint32 \<Rightarrow> encodeScalar TUint32 dataType value
      | CaseReal32 \<Rightarrow> encodeScalar TFloat dataType value
      | CaseReal64 \<Rightarrow> encodeScalar TDouble dataType value
      | CaseInt64 \<Rightarrow> encodeScalar TInt64 dataType value
      | CaseUint64 \<Rightarrow> encodeScalar TUint64 dataType value
      | CaseVisibleString \<Rightarrow>
          (case value of VString s \<Rightarrow> Inr s | _ \<Rightarrow> Inl (ExpectsString dataType))
      | CaseUnicodeString \<Rightarrow>
          (case value of VString s \<Rightarrow> Inr s | _ \<Rightarrow> Inl (ExpectsString dataType))
      | CaseDefault \<Rightarrow>
          (case value of VBytes raw \<Rightarrow> Inr raw | _ \<Rightarrow> Inl (ExpectsRawBytes dataType)))"

text \<open>\<^verbatim>\<open>numericValue\<close> yields a double, kept as its bit pattern.\<close>

definition numericValue :: "DeviceParameterValue \<Rightarrow> u64 option" where
  "numericValue value =
     (case value of
        VFloat w \<Rightarrow> Some (float_to_double w)
      | VDouble w \<Rightarrow> Some w
      | VString _ \<Rightarrow> None
      | VBytes _ \<Rightarrow> None
      | _ \<Rightarrow> map_option int_to_double (int_value value))"

section \<open>Parameters\<close>

datatype SyncState = Unknown | Synced | Pending | Stale

primrec syncStateName :: "SyncState \<Rightarrow> string" where
  "syncStateName Unknown = ''unknown''"
| "syncStateName Synced = ''synced''"
| "syncStateName Pending = ''pending''"
| "syncStateName Stale = ''stale''"

datatype ParameterOrigin = ObjectDictionary | Sii

primrec parameterOriginName :: "ParameterOrigin \<Rightarrow> string" where
  "parameterOriginName ObjectDictionary = ''objectDictionary''"
| "parameterOriginName Sii = ''sii''"

text \<open>
  The fields of \<^verbatim>\<open>struct DeviceParameter\<close> that code here reads; the descriptive strings the ESI adds
  (unit symbol, description, options, file name) only pass through to JSON.
\<close>

record DeviceParameter =
  dp_index :: u16
  dp_subindex :: u8
  dp_name :: bytes
  dp_objectCode :: u16
  dp_dataType :: u16
  dp_bitLength :: u16
  dp_access :: u16
  dp_origin :: ParameterOrigin
  dp_cell :: u64
  dp_rawValue :: bytes
  dp_syncState :: SyncState
  dp_unit :: "u32 option"
  dp_defaultValue :: "DeviceParameterValue option"
  dp_minValue :: "DeviceParameterValue option"
  dp_maxValue :: "DeviceParameterValue option"

definition parameter_key :: "DeviceParameter \<Rightarrow> u32" where
  "parameter_key p = makeParameterKey (dp_index p) (dp_subindex p)"

definition loadBits :: "DeviceParameter \<Rightarrow> u64" where
  "loadBits p = dp_cell p"

definition storeBits :: "u64 \<Rightarrow> DeviceParameter \<Rightarrow> DeviceParameter" where
  "storeBits v p = p\<lparr>dp_cell := v\<rparr>"

definition currentValue :: "DeviceParameter \<Rightarrow> DeviceParameterValue" where
  "currentValue p =
     (let decoded =
            (if isScalarDataType (dp_dataType p)
             then decodeSdoBytes (dp_dataType p) (unpackLeBits (loadBits p) 8)
             else decodeSdoBytes (dp_dataType p) (dp_rawValue p))
      in case decoded of
           Inr v \<Rightarrow> v
         | Inl _ \<Rightarrow> defaultValueForDataType (dp_dataType p))"

definition scalar :: "Alternative \<Rightarrow> DeviceParameter \<Rightarrow> DeviceParameterValue option" where
  "scalar t p =
     (if alternative (defaultValueForDataType (dp_dataType p)) \<noteq> t then None
      else Some (scalar_of_bits t (loadBits p)))"

definition rawValueBytes :: "DeviceParameter \<Rightarrow> bytes" where
  "rawValueBytes p =
     (let width = scalarByteWidth (dp_dataType p)
      in if width = 0 then dp_rawValue p else unpackLeBits (loadBits p) width)"

definition setRawValue :: "bytes \<Rightarrow> DeviceParameter \<Rightarrow> DeviceParameter" where
  "setRawValue bs p =
     (if isScalarDataType (dp_dataType p) then storeBits (packLeBits bs) p
      else p\<lparr>dp_rawValue := bs\<rparr>)"

definition markReadFailed :: "DeviceParameter \<Rightarrow> DeviceParameter" where
  "markReadFailed p = (if dp_syncState p = Synced then p\<lparr>dp_syncState := Stale\<rparr> else p)"

datatype parameter_error =
    HoldsDifferentType u16 u8
  | NotNumeric u16 u8
  | OutsideLimits u16 u8 u16
  | NotWhole u16 u8 u16
  | OutsideReal32 u16 u8 u16
  | CannotAssignNonNumeric u16 u8
  | CannotAssignNonString u16 u8
  | CannotAssignNonBytes u16 u8
  | CodecError codec_error

definition getValue :: "Alternative \<Rightarrow> DeviceParameter \<Rightarrow> parameter_error + DeviceParameterValue" where
  "getValue t p =
     (case valueAs t (currentValue p) of
        Some v \<Rightarrow> Inr v
      | None \<Rightarrow> Inl (HoldsDifferentType (dp_index p) (dp_subindex p)))"

definition numeric :: "DeviceParameter \<Rightarrow> parameter_error + u64" where
  "numeric p =
     (case numericValue (currentValue p) of
        Some n \<Rightarrow> Inr n
      | None \<Rightarrow> Inl (NotNumeric (dp_index p) (dp_subindex p)))"

datatype conversion_failure = NotInLimits | NotAWholeNumber | NotInReal32

text \<open>The largest finite \<^verbatim>\<open>float\<close>.\<close>

definition float_max :: nat where
  "float_max = (2 ^ 24 - 1) * 2 ^ 104"

text \<open>\<^verbatim>\<open>static_cast<double>\<close> of an arithmetic value, as its bit pattern.\<close>

definition to_double :: "DeviceParameterValue \<Rightarrow> u64" where
  "to_double v =
     (case v of
        VFloat w \<Rightarrow> float_to_double w
      | VDouble w \<Rightarrow> w
      | _ \<Rightarrow> (case int_value v of Some i \<Rightarrow> int_to_double i | None \<Rightarrow> 0))"

text \<open>
  The template is instantiated for arithmetic types only, so \<open>target\<close> and the alternative of
  \<open>incoming\<close> are neither of the two containers.
\<close>

definition convertExactly ::
  "Alternative \<Rightarrow> DeviceParameterValue \<Rightarrow> conversion_failure + DeviceParameterValue" where
  "convertExactly target incoming =
     (if alternative_integral target \<and> alternative_integral (alternative incoming)
      then (let i = the (int_value incoming)
            in if \<not> in_range target i then Inl NotInLimits else Inr (cast_int target i))
      else if alternative_integral target
      then (let x = double_value (to_double incoming)
            in if \<not> fp_isfinite x \<or> \<not> fp_whole x then Inl NotAWholeNumber
               else if \<not> in_range target (fp_trunc x) then Inl NotInLimits
               else Inr (cast_int target (fp_trunc x)))
      else if target = TFloat
      then (let xb = to_double incoming; x = double_value xb
            in if fp_isfinite x \<and> fp_abs_gt x float_max then Inl NotInReal32
               else Inr (VFloat (double_to_float xb)))
      else Inr (VDouble (to_double incoming)))"

definition conversion_error :: "DeviceParameter \<Rightarrow> conversion_failure \<Rightarrow> parameter_error" where
  "conversion_error p f =
     (case f of
        NotInLimits \<Rightarrow> OutsideLimits (dp_index p) (dp_subindex p) (dp_dataType p)
      | NotAWholeNumber \<Rightarrow> NotWhole (dp_index p) (dp_subindex p) (dp_dataType p)
      | NotInReal32 \<Rightarrow> OutsideReal32 (dp_index p) (dp_subindex p) (dp_dataType p))"

definition encode :: "DeviceParameter \<Rightarrow> DeviceParameterValue \<Rightarrow> parameter_error + bytes" where
  "encode p v =
     (let target = alternative (defaultValueForDataType (dp_dataType p));
          coerced =
            (if alternative_size target \<noteq> 0
             then (if alternative_size (alternative v) \<noteq> 0
                   then (case convertExactly target v of
                           Inl f \<Rightarrow> Inl (conversion_error p f)
                         | Inr c \<Rightarrow> Inr c)
                   else Inl (CannotAssignNonNumeric (dp_index p) (dp_subindex p)))
             else if target = TString
             then (if alternative v = TString then Inr v
                   else Inl (CannotAssignNonString (dp_index p) (dp_subindex p)))
             else (if alternative v = TBytes then Inr v
                   else Inl (CannotAssignNonBytes (dp_index p) (dp_subindex p))))
      in case coerced of
           Inl e \<Rightarrow> Inl e
         | Inr c \<Rightarrow> (case encodeSdoBytes (dp_dataType p) c of
                       Inl e \<Rightarrow> Inl (CodecError e)
                     | Inr bs \<Rightarrow> Inr bs))"

definition setValue :: "DeviceParameterValue \<Rightarrow> DeviceParameter \<Rightarrow> parameter_error + DeviceParameter" where
  "setValue v p =
     (case encode p v of
        Inl e \<Rightarrow> Inl e
      | Inr bs \<Rightarrow> Inr (setRawValue bs p))"

definition isReadable :: "DeviceParameter \<Rightarrow> bool" where
  "isReadable p \<longleftrightarrow> dp_access p AND 0x07 \<noteq> 0"

section \<open>Packing is bit for bit\<close>

lemma bit_packLeBits [byte_bits]: "bit (packLeBits bs) k \<longleftrightarrow> k < 64 \<and> buf_bit bs k"
proof -
  let ?n = "min (length bs) 8"
  let ?f = "\<lambda>i out. out OR push_bit (8 * i) (ucast (bs ! i) :: u64)"
  have "\<forall>k. bit (fold ?f [0..<?n] 0) k \<longleftrightarrow> k < 8 * ?n \<and> buf_bit bs k"
  proof (rule fold_upt_invariant [where I = "\<lambda>i out. \<forall>k. bit out k \<longleftrightarrow> k < 8 * i \<and> buf_bit bs k"])
    fix i and out :: u64
    assume i: "i < ?n" and IH: "\<forall>k. bit out k \<longleftrightarrow> k < 8 * i \<and> buf_bit bs k"
    show "\<forall>k. bit (?f i out) k \<longleftrightarrow> k < 8 * Suc i \<and> buf_bit bs k"
    proof
      fix k
      consider "k < 8 * i" | "8 * i \<le> k" "k < 8 * Suc i" | "8 * Suc i \<le> k" by linarith
      then show "bit (?f i out) k \<longleftrightarrow> k < 8 * Suc i \<and> buf_bit bs k"
      proof cases
        case 2
        then obtain n where "k = 8 * i + n" "n < 8"
          by (metis add.commute add_diff_cancel_left' le_Suc_ex less_diff_conv2 mult_Suc_right)
        then show ?thesis
          using i IH by (simp add: bit_simps buf_bit_byte)
      next
        case 3
        then have "\<not> bit (bs ! i) (k - 8 * i)"
          by (auto dest: bit_imp_le_length)
        with 3 show ?thesis using IH by (simp add: bit_simps)
      qed (use IH in \<open>simp add: bit_simps\<close>)
    qed
  qed simp
  moreover have "k < 64 \<and> buf_bit bs k \<longleftrightarrow> k < 8 * ?n \<and> buf_bit bs k"
    by (auto simp: buf_bit_def)
  ultimately show ?thesis by (simp add: packLeBits_def)
qed

lemma length_unpackLeBits [simp]: "length (unpackLeBits b n) = n"
  by (simp add: unpackLeBits_def)

lemma buf_bit_unpackLeBits [byte_bits]: "buf_bit (unpackLeBits b n) k \<longleftrightarrow> k < 8 * n \<and> bit b k"
proof (cases "k < 8 * n")
  case True
  then have "k div 8 < n" by auto
  moreover have "bit b k \<Longrightarrow> k div 8 < 8" by (auto dest: bit_imp_le_length)
  ultimately show ?thesis using True
    by (auto simp: buf_bit_def unpackLeBits_def bit_simps)
next
  case False
  then show ?thesis by (simp add: buf_bit_past_end)
qed

lemma unpack_pack: "length bs \<le> 8 \<Longrightarrow> unpackLeBits (packLeBits bs) (length bs) = bs"
  by (rule bytes_eq_by_bits) (auto simp: byte_bits)

lemma pack_unpack: "packLeBits (unpackLeBits b n) = take_bit (8 * n) b"
  by (rule bit_word_eqI) (auto simp: byte_bits bit_simps)

lemma pack_take: "packLeBits (take n bs) = take_bit (8 * n) (packLeBits bs)"
  by (rule bit_word_eqI) (auto simp: byte_bits bit_simps)

section \<open>Scalars and strings on the wire\<close>

lemma scalar_of_bits_of_scalar:
  assumes "alternative v = t" and "alternative_size t \<noteq> 0"
  shows "scalar_of_bits t (take_bit (8 * alternative_size t) (bits_of_scalar v)) = v"
  using assms by (cases v) (auto intro!: bit_word_eqI simp: bit_simps)

lemma alternative_scalar_of_bits [simp]: "alternative (scalar_of_bits t b) = t"
  by (cases t) simp_all

lemma decodeScalar_unpack:
  assumes "alternative v = t" and "alternative_size t \<noteq> 0"
  shows "decodeScalar t dt (unpackLeBits (bits_of_scalar v) (alternative_size t)) = Inr v"
  using assms by (simp add: decodeScalar_def pack_unpack scalar_of_bits_of_scalar)

lemma trim_spaces_le: "trim_spaces bs n \<le> n"
  by (induction bs n rule: trim_spaces.induct) auto

lemma trim_spaces_full: "trim_spaces bs n = n \<longleftrightarrow> n = 0 \<or> bs ! (n - 1) \<noteq> 0x20"
  using trim_spaces_le [of bs "n - 1"] by (cases n) auto

lemma takeWhile_full: "length (takeWhile P xs) = length xs \<longleftrightarrow> (\<forall>x\<in>set xs. P x)"
  by (induction xs) auto

text \<open>
  The strings a VISIBLE_STRING object gives back as they were sent: no NUL inside, and no space at
  the end.
\<close>

definition visible_clean :: "bytes \<Rightarrow> bool" where
  "visible_clean s \<longleftrightarrow> 0 \<notin> set s \<and> (s = [] \<or> last s \<noteq> 0x20)"

lemma visible_decode_exact:
  "length s \<le> trim_spaces s (length (takeWhile (\<lambda>b. b \<noteq> 0) s)) \<longleftrightarrow> visible_clean s"
proof -
  let ?n = "length (takeWhile (\<lambda>b. b \<noteq> 0) s)"
  have le: "trim_spaces s ?n \<le> ?n" "?n \<le> length s"
    by (simp_all add: trim_spaces_le length_takeWhile_le)
  have "length s \<le> trim_spaces s ?n \<longleftrightarrow> trim_spaces s ?n = ?n \<and> ?n = length s"
    using le by auto
  also have "\<dots> \<longleftrightarrow> visible_clean s"
  proof (cases "0 \<in> set s")
    case True
    then show ?thesis by (auto simp: visible_clean_def takeWhile_full)
  next
    case False
    then have tw: "takeWhile (\<lambda>b. b \<noteq> 0) s = s" by (auto simp: takeWhile_eq_all_conv)
    show ?thesis
      unfolding tw using False by (auto simp: visible_clean_def trim_spaces_full last_conv_nth)
  qed
  finally show ?thesis .
qed

lemmas codec_defs =
  decodeSdoBytes_def encodeSdoBytes_def defaultValueForDataType_def isScalarDataType_def
  scalarByteWidth_def

lemma type_case_visible: "type_case dt = CaseVisibleString \<longleftrightarrow> dt = VISIBLE_STRING"
  by (auto simp: type_case_def BOOLEAN_def UNSIGNED8_def BYTE_def INTEGER8_def INTEGER16_def
      INTEGER32_def UNSIGNED16_def WORD_def UNSIGNED32_def DWORD_def REAL32_def REAL64_def
      INTEGER64_def UNSIGNED64_def VISIBLE_STRING_def)

lemma scalar_width_pos: "isScalarDataType dt \<longleftrightarrow> scalarByteWidth dt \<noteq> 0"
  by (simp add: codec_defs split: TypeCase.split)

lemma scalar_width_le: "scalarByteWidth dt \<le> 8"
  by (simp add: codec_defs split: TypeCase.split)

abbreviation declared_alternative :: "u16 \<Rightarrow> Alternative" where
  "declared_alternative dt \<equiv> alternative (defaultValueForDataType dt)"

lemma decodeSdoBytes_scalar:
  "isScalarDataType dt \<Longrightarrow> decodeSdoBytes dt bs = decodeScalar (declared_alternative dt) dt bs"
  by (simp add: codec_defs split: TypeCase.splits)

lemma encodeSdoBytes_scalar:
  "isScalarDataType dt \<Longrightarrow> encodeSdoBytes dt v = encodeScalar (declared_alternative dt) dt v"
  by (simp add: codec_defs split: TypeCase.splits)

lemma sdo_scalar_round_trip:
  assumes "isScalarDataType dt" and "alternative v = declared_alternative dt"
  shows "encodeSdoBytes dt v = Inr (unpackLeBits (bits_of_scalar v) (scalarByteWidth dt))"
    and "decodeSdoBytes dt (unpackLeBits (bits_of_scalar v) (scalarByteWidth dt)) = Inr v"
  using assms decodeScalar_unpack [of v "declared_alternative dt" dt]
  by (simp_all add: encodeSdoBytes_scalar decodeSdoBytes_scalar encodeScalar_def
      scalar_width_pos scalarByteWidth_def)

text \<open>
  C22: Every value of the alternative a data type declares is encoded without error, and decoding
  the bytes gives the same value back, for every data type; the one exception are the strings of
  a VISIBLE_STRING object, which come back unchanged exactly when they contain no NUL and do not
  end in a space.
\<close>

theorem sdo_round_trip:
  assumes "alternative v = declared_alternative dt"
  shows "\<exists>bs. encodeSdoBytes dt v = Inr bs \<and>
              (decodeSdoBytes dt bs = Inr v \<longleftrightarrow>
                 (\<forall>s. dt = VISIBLE_STRING \<longrightarrow> v = VString s \<longrightarrow> visible_clean s))"
proof (cases "isScalarDataType dt")
  case True
  then have "dt \<noteq> VISIBLE_STRING"
    by (auto simp: isScalarDataType_def type_case_visible [symmetric])
  with True assms sdo_scalar_round_trip show ?thesis by blast
next
  case False
  then show ?thesis
    using assms
    by (cases v)
       (auto simp: codec_defs type_case_visible [symmetric] visible_decode_exact Let_def
             split: TypeCase.splits)
qed

theorem sdo_round_trip_witness:
  "\<exists>bs. encodeSdoBytes INTEGER16 (VInt16 0xFF9C) = Inr bs \<and>
        (decodeSdoBytes INTEGER16 bs = Inr (VInt16 0xFF9C) \<longleftrightarrow>
           (\<forall>s. INTEGER16 = VISIBLE_STRING \<longrightarrow> VInt16 0xFF9C = VString s \<longrightarrow> visible_clean s))"
  by (rule sdo_round_trip) code_simp

section \<open>Storing and converting\<close>

lemma int_value_cast_int:
  assumes "alternative_integral t" and "in_range t i"
  shows "int_value (cast_int t i) = Some i"
  using assms
  by (cases t)
     (auto simp: in_range_def limit_min_def limit_max_def sint_sbintrunc' signed_take_bit_int_eq_self
        uint_word_of_int)

lemma alternative_cast_int [simp]: "alternative (cast_int t i) = t"
  by (cases t) simp_all

lemma signed_limits:
  fixes w :: "'a::len word"
  shows "- (2 ^ (LENGTH('a) - 1)) \<le> sint w" and "sint w \<le> 2 ^ (LENGTH('a) - 1) - 1"
  using sint_range_size [of w] by (auto simp: word_size)

lemma unsigned_limit:
  fixes w :: "'a::len word"
  shows "uint w \<le> 2 ^ LENGTH('a) - 1"
  using uint_lt2p [of w] by simp

lemmas word_limits =
  signed_limits [where 'a = 8, simplified] signed_limits [where 'a = 16, simplified]
  signed_limits [where 'a = 32, simplified] signed_limits [where 'a = 64, simplified]
  unsigned_limit [where 'a = 8, simplified] unsigned_limit [where 'a = 16, simplified]
  unsigned_limit [where 'a = 32, simplified] unsigned_limit [where 'a = 64, simplified]

lemma int_value_in_range: "int_value v = Some i \<Longrightarrow> in_range (alternative v) i"
  by (cases v) (auto simp: in_range_def limit_min_def limit_max_def word_limits)

lemma int_value_integral: "int_value v = None \<longleftrightarrow> \<not> alternative_integral (alternative v)"
  by (cases v) simp_all

lemma currentValue_setRawValue_scalar:
  assumes "isScalarDataType (dp_dataType p)" and "length bs = scalarByteWidth (dp_dataType p)"
  shows "decodeSdoBytes (dp_dataType p) bs = Inr (currentValue (setRawValue bs p))"
proof -
  let ?t = "declared_alternative (dp_dataType p)"
  have n: "alternative_size ?t = length bs"
    using assms(2) by (simp add: scalarByteWidth_def)
  have l: "length bs \<le> 8" using assms(2) scalar_width_le by simp
  have "packLeBits (take (length bs) (unpackLeBits (packLeBits bs) 8)) = packLeBits bs"
    by (rule bit_word_eqI) (auto simp: byte_bits bit_simps dest: buf_bit_less)
  with assms n l show ?thesis
    by (simp add: currentValue_def setRawValue_def storeBits_def loadBits_def
        decodeSdoBytes_scalar decodeScalar_def)
qed

text \<open>
  What is stored is what is read back: after the wire bytes of a parameter are stored, at the
  declared width when the type is a scalar, the raw bytes read back are the same, the decoded
  current value is the decoding of those bytes, and no other field of the parameter changes.
\<close>

theorem stored_bytes_read_back:
  assumes "isScalarDataType (dp_dataType p) \<longrightarrow> length bs = scalarByteWidth (dp_dataType p)"
  shows "rawValueBytes (setRawValue bs p) = bs
       \<and> decodeSdoBytes (dp_dataType p) bs = Inr (currentValue (setRawValue bs p))
       \<and> setRawValue bs p = p\<lparr>dp_cell := dp_cell (setRawValue bs p),
                              dp_rawValue := dp_rawValue (setRawValue bs p)\<rparr>"
proof (cases "isScalarDataType (dp_dataType p)")
  case True
  with assms have len: "length bs = scalarByteWidth (dp_dataType p)" by simp
  have "unpackLeBits (packLeBits bs) (length bs) = bs"
    by (rule unpack_pack) (simp add: len scalar_width_le)
  with True len currentValue_setRawValue_scalar show ?thesis
    by (simp add: rawValueBytes_def setRawValue_def storeBits_def loadBits_def scalar_width_pos)
next
  case False
  then show ?thesis
    by (auto simp: rawValueBytes_def setRawValue_def currentValue_def scalar_width_pos codec_defs
        split: TypeCase.splits)
qed

definition example_parameter :: "u16 \<Rightarrow> DeviceParameter" where
  "example_parameter dataType =
     \<lparr>dp_index = 0x6064, dp_subindex = 0, dp_name = [], dp_objectCode = 7, dp_dataType = dataType,
      dp_bitLength = 32, dp_access = 7, dp_origin = ObjectDictionary, dp_cell = 0,
      dp_rawValue = [], dp_syncState = Unknown, dp_unit = None, dp_defaultValue = None,
      dp_minValue = None, dp_maxValue = None\<rparr>"

theorem stored_bytes_read_back_witness:
  "let p = example_parameter INTEGER32; bs = [0x78, 0x56, 0x34, 0xF2]
   in rawValueBytes (setRawValue bs p) = bs
    \<and> decodeSdoBytes (dp_dataType p) bs = Inr (currentValue (setRawValue bs p))
    \<and> setRawValue bs p = p\<lparr>dp_cell := dp_cell (setRawValue bs p),
                           dp_rawValue := dp_rawValue (setRawValue bs p)\<rparr>"
  unfolding Let_def by (rule stored_bytes_read_back) code_simp

section \<open>Conversions keep the number\<close>

text \<open>
  The integer a value stands for, if it stands for one: an integer alternative is its own value,
  a floating point number counts when it is finite and whole.
\<close>

definition exact_int :: "DeviceParameterValue \<Rightarrow> int option" where
  "exact_int v =
     (if alternative_integral (alternative v) then int_value v
      else if alternative_size (alternative v) = 0 then None
      else let x = double_value (to_double v)
           in if fp_isfinite x \<and> fp_whole x then Some (fp_trunc x) else None)"

lemma convertExactly_integral:
  assumes "alternative_integral t" and "alternative_size (alternative v) \<noteq> 0"
  shows "convertExactly t v =
           (case exact_int v of
              None \<Rightarrow> Inl NotAWholeNumber
            | Some i \<Rightarrow> if in_range t i then Inr (cast_int t i) else Inl NotInLimits)"
proof (cases "int_value v")
  case None
  with assms show ?thesis
    by (simp add: convertExactly_def exact_int_def int_value_integral Let_def)
next
  case (Some i)
  then have "alternative_integral (alternative v)"
    using int_value_integral [of v] by simp
  with assms Some show ?thesis
    by (simp add: convertExactly_def exact_int_def)
qed

lemma integral_size_pos: "alternative_integral t \<Longrightarrow> 0 < alternative_size t"
  by (cases t) simp_all

lemma currentValue_store_scalar:
  assumes "isScalarDataType (dp_dataType p)" and "alternative v = declared_alternative (dp_dataType p)"
  shows "currentValue (setRawValue (unpackLeBits (bits_of_scalar v) (scalarByteWidth (dp_dataType p))) p) = v"
  using sdo_scalar_round_trip(2) [OF assms]
    currentValue_setRawValue_scalar [OF assms(1), of "unpackLeBits (bits_of_scalar v) (scalarByteWidth (dp_dataType p))"]
  by simp

text \<open>
  Writing a number to an integer parameter never changes it. A value that stands for an integer
  within the limits of the declared type is stored, only the cell of the parameter changes, and the
  parameter then reads as that integer; an integer outside the limits, a fraction, a value that is
  not finite and a non-number are refused.
\<close>

theorem setValue_integer_exact:
  assumes "alternative_integral (declared_alternative (dp_dataType p))"
  shows "case exact_int v of
           Some i \<Rightarrow>
             (if in_range (declared_alternative (dp_dataType p)) i
              then \<exists>p'. setValue v p = Inr p' \<and> int_value (currentValue p') = Some i
                      \<and> p' = p\<lparr>dp_cell := dp_cell p'\<rparr>
              else setValue v p = Inl (OutsideLimits (dp_index p) (dp_subindex p) (dp_dataType p)))
         | None \<Rightarrow> \<exists>e. setValue v p = Inl e"
proof -
  let ?t = "declared_alternative (dp_dataType p)"
  have pos: "alternative_size ?t \<noteq> 0" using assms by (simp add: integral_size_pos)
  then have sc: "isScalarDataType (dp_dataType p)" by (simp add: scalar_width_pos scalarByteWidth_def)
  show ?thesis
  proof (cases "exact_int v")
    case None
    then show ?thesis
      using assms pos by (auto simp: setValue_def encode_def convertExactly_integral Let_def)
  next
    case (Some i)
    then have sz: "alternative_size (alternative v) \<noteq> 0"
      by (auto simp: exact_int_def integral_size_pos split: if_splits)
    show ?thesis
      using assms pos sz Some sc
        sdo_scalar_round_trip(1) [OF sc, of "cast_int ?t i"]
        currentValue_store_scalar [OF sc, of "cast_int ?t i"] int_value_cast_int [of ?t i]
      by (auto simp: setValue_def encode_def convertExactly_integral Let_def conversion_error_def
          setRawValue_def storeBits_def)
  qed
qed

theorem setValue_integer_exact_witness:
  "case exact_int (VUint32 200) of
     Some i \<Rightarrow>
       (if in_range (declared_alternative (dp_dataType (example_parameter INTEGER8))) i
        then \<exists>p'. setValue (VUint32 200) (example_parameter INTEGER8) = Inr p'
                \<and> int_value (currentValue p') = Some i
                \<and> p' = example_parameter INTEGER8\<lparr>dp_cell := dp_cell p'\<rparr>
        else setValue (VUint32 200) (example_parameter INTEGER8)
               = Inl (OutsideLimits (dp_index (example_parameter INTEGER8))
                        (dp_subindex (example_parameter INTEGER8))
                        (dp_dataType (example_parameter INTEGER8))))
   | None \<Rightarrow> \<exists>e. setValue (VUint32 200) (example_parameter INTEGER8) = Inl e"
  by (rule setValue_integer_exact) code_simp

lemma cast_int_int_value: "int_value r = Some i \<Longrightarrow> cast_int (alternative r) i = r"
  by (cases r) auto

text \<open>
  Typed reads do not alias: \<^verbatim>\<open>valueAs<T>\<close> for an integer type returns a value exactly when the
  stored value is an integer that fits \<^verbatim>\<open>T\<close>, and the value returned is of type \<^verbatim>\<open>T\<close> and denotes the
  same integer; a float, a string or raw bytes are never converted.
\<close>

theorem valueAs_integral_iff:
  assumes "alternative_integral t"
  shows "valueAs t v = Some r \<longleftrightarrow>
           (\<exists>i. int_value v = Some i \<and> in_range t i \<and> alternative r = t \<and> int_value r = Some i)"
proof -
  have "valueAs t v = (case int_value v of
                         Some i \<Rightarrow> if in_range t i then Some (cast_int t i) else None
                       | None \<Rightarrow> None)"
    using assms int_value_in_range [of v] cast_int_int_value [of v] int_value_integral [of v]
    by (auto simp: valueAs_def split: option.splits)
  with assms show ?thesis
    using cast_int_int_value [of r] by (auto simp: int_value_cast_int split: option.splits)
qed

theorem valueAs_integral_iff_witness:
  "valueAs TUint8 (VInt8 0xFF) = Some (VUint8 0xFF) \<longleftrightarrow>
     (\<exists>i. int_value (VInt8 0xFF) = Some i \<and> in_range TUint8 i
        \<and> alternative (VUint8 0xFF) = TUint8 \<and> int_value (VUint8 0xFF) = Some i)"
  by (rule valueAs_integral_iff) simp


lemma real32_encodes_16777217:
  "encode (example_parameter REAL32) (VInt32 16777217) = Inr [0, 0, 0x80, 0x4B]"
proof -
  have c: "convertExactly TFloat (VInt32 16777217) = Inr (VFloat 0x4B800000)"
    by (simp add: convertExactly_def to_double_def fp_eval float_max_def)
  have d: "declared_alternative REAL32 = TFloat" by code_simp
  have e: "encodeSdoBytes REAL32 (VFloat 0x4B800000) = Inr [0, 0, 0x80, 0x4B]" by code_simp
  show ?thesis
    by (simp add: encode_def example_parameter_def Let_def c d e)
qed

text \<open>
  A REAL32 parameter does not always keep the number written to it: 16777217 is accepted and
  the parameter then holds the float 16777216, although the contract of \<^verbatim>\<open>encode\<close> is that the
  conversion never changes the value.
\<close>

theorem setValue_real32_rounds:
  "(case setValue (VInt32 16777217) (example_parameter REAL32) of
      Inr p' \<Rightarrow> currentValue p' = VFloat 0x4B800000
    | Inl _ \<Rightarrow> False)
   \<and> fp_trunc (float_value 0x4B800000) = 16777216"
proof
  have "currentValue (setRawValue [0, 0, 0x80, 0x4B] (example_parameter REAL32)) = VFloat 0x4B800000"
    by code_simp
  then show "case setValue (VInt32 16777217) (example_parameter REAL32) of
      Inr p' \<Rightarrow> currentValue p' = VFloat 0x4B800000 | Inl _ \<Rightarrow> False"
    by (simp add: setValue_def real32_encodes_16777217)
qed (simp add: fp_eval)

text \<open>
  Decoding fails in one case only, a scalar type with fewer bytes than its width; a data type
  the codec does not know is not an error but comes back as its raw bytes.
\<close>

theorem decodeSdoBytes_error_iff:
  "decodeSdoBytes dt bs = Inl e \<longleftrightarrow>
     isScalarDataType dt \<and> length bs < scalarByteWidth dt
     \<and> e = TooShort dt (scalarByteWidth dt) (length bs)"
  by (cases "isScalarDataType dt")
     (auto simp: decodeSdoBytes_scalar decodeScalar_def scalarByteWidth_def,
      auto simp: codec_defs Let_def split: TypeCase.splits)


end
