(* ===== verification/Device_Access.thy ===== *)
theory Device_Access
  imports Device_Parameter
begin

text \<open>
  The part of \<^verbatim>\<open>class Device\<close> (\<^verbatim>\<open>libs/node/device.h\<close>) its borrowed views are written against: typed
  reads and writes of one parameter, the read-once accessor, and the values of a grouped read. The
  operations that reach the bus, the clock and \<^verbatim>\<open>std::this_thread::sleep_for\<close> are the fields of
  \<open>device_access\<close>, so that every client is a function of the device it is given; time is counted
  in nanoseconds.
\<close>

section \<open>The operations a view calls\<close>

record ObjectValues =
  ov_index :: u16
  ov_values :: "(u8 \<times> DeviceParameterValue) list"

record ('w, 'e) device_access =
  da_readParameter :: "u16 \<Rightarrow> u8 \<Rightarrow> ('w, 'e, DeviceParameterValue) io"
  da_writeParameter :: "u16 \<Rightarrow> u8 \<Rightarrow> DeviceParameterValue \<Rightarrow> ('w, 'e, unit) io"
  da_readObject :: "u16 \<Rightarrow> ('w, 'e, ObjectValues) io"
  da_findParameter :: "u16 \<Rightarrow> u8 \<Rightarrow> 'w \<Rightarrow> DeviceParameter option"
  da_now :: "'w \<Rightarrow> nat \<times> 'w"
  da_sleep_for :: "nat \<Rightarrow> 'w \<Rightarrow> 'w"

datatype 'e access_error =
    DeviceError 'e
  | HoldsAnotherType u16 u8
  | NoReadableSubindex u16 u8

section \<open>Typed access\<close>

definition lift_device :: "('w, 'e, 'a) io \<Rightarrow> ('w, 'e access_error, 'a) io" where
  "lift_device m w = (case m w of (Inl e, w') \<Rightarrow> (Inl (DeviceError e), w') | (Inr a, w') \<Rightarrow> (Inr a, w'))"

definition readValue ::
  "Alternative \<Rightarrow> ('w, 'e) device_access \<Rightarrow> u16 \<Rightarrow> u8 \<Rightarrow> ('w, 'e access_error, DeviceParameterValue) io" where
  "readValue t dev index subindex =
     io_bind (lift_device (da_readParameter dev index subindex)) (\<lambda>v.
       case valueAs t v of
         Some value \<Rightarrow> io_return value
       | None \<Rightarrow> io_fail (HoldsAnotherType index subindex))"

definition writeValue ::
  "('w, 'e) device_access \<Rightarrow> u16 \<Rightarrow> u8 \<Rightarrow> DeviceParameterValue \<Rightarrow> ('w, 'e access_error, unit) io" where
  "writeValue dev index subindex newValue =
     lift_device (da_writeParameter dev index subindex newValue)"

definition readCachedValue ::
  "Alternative \<Rightarrow> ('w, 'e) device_access \<Rightarrow> u16 \<Rightarrow> u8 \<Rightarrow> ('w, 'e access_error, DeviceParameterValue) io" where
  "readCachedValue t dev index subindex w =
     (case da_findParameter dev index subindex w of
        Some p \<Rightarrow>
          if dp_syncState p = Synced
          then (case getValue t p of
                  Inr v \<Rightarrow> (Inr v, w)
                | Inl _ \<Rightarrow> (Inl (HoldsAnotherType index subindex), w))
          else readValue t dev index subindex w
      | None \<Rightarrow> readValue t dev index subindex w)"

definition readObject :: "('w, 'e) device_access \<Rightarrow> u16 \<Rightarrow> ('w, 'e access_error, ObjectValues) io" where
  "readObject dev index = lift_device (da_readObject dev index)"

definition object_get :: "Alternative \<Rightarrow> u8 \<Rightarrow> ObjectValues \<Rightarrow> 'e access_error + DeviceParameterValue" where
  "object_get t subindex ov =
     (case map_of (ov_values ov) subindex of
        None \<Rightarrow> Inl (NoReadableSubindex (ov_index ov) subindex)
      | Some v \<Rightarrow>
          if alternative v = t then Inr v else Inl (HoldsAnotherType (ov_index ov) subindex))"

text \<open>The instantiations of \<^verbatim>\<open>readValue<T>\<close> the views use; the value is of alternative \<^verbatim>\<open>T\<close>.\<close>

definition as_word8 :: "DeviceParameterValue \<Rightarrow> u8" where
  "as_word8 v = (case v of VInt8 w \<Rightarrow> w | VUint8 w \<Rightarrow> w | _ \<Rightarrow> 0)"

definition as_word16 :: "DeviceParameterValue \<Rightarrow> u16" where
  "as_word16 v = (case v of VInt16 w \<Rightarrow> w | VUint16 w \<Rightarrow> w | _ \<Rightarrow> 0)"

definition as_word32 :: "DeviceParameterValue \<Rightarrow> u32" where
  "as_word32 v = (case v of VInt32 w \<Rightarrow> w | VUint32 w \<Rightarrow> w | _ \<Rightarrow> 0)"

definition io_map :: "('a \<Rightarrow> 'b) \<Rightarrow> ('w, 'e, 'a) io \<Rightarrow> ('w, 'e, 'b) io" where
  "io_map f m = io_bind m (\<lambda>a. io_return (f a))"

definition readValue_i8 :: "('w, 'e) device_access \<Rightarrow> u16 \<Rightarrow> u8 \<Rightarrow> ('w, 'e access_error, u8) io" where
  "readValue_i8 dev index subindex = io_map as_word8 (readValue TInt8 dev index subindex)"

definition readValue_u8 :: "('w, 'e) device_access \<Rightarrow> u16 \<Rightarrow> u8 \<Rightarrow> ('w, 'e access_error, u8) io" where
  "readValue_u8 dev index subindex = io_map as_word8 (readValue TUint8 dev index subindex)"

definition readValue_i16 :: "('w, 'e) device_access \<Rightarrow> u16 \<Rightarrow> u8 \<Rightarrow> ('w, 'e access_error, u16) io" where
  "readValue_i16 dev index subindex = io_map as_word16 (readValue TInt16 dev index subindex)"

definition readValue_u16 :: "('w, 'e) device_access \<Rightarrow> u16 \<Rightarrow> u8 \<Rightarrow> ('w, 'e access_error, u16) io" where
  "readValue_u16 dev index subindex = io_map as_word16 (readValue TUint16 dev index subindex)"

definition readValue_i32 :: "('w, 'e) device_access \<Rightarrow> u16 \<Rightarrow> u8 \<Rightarrow> ('w, 'e access_error, u32) io" where
  "readValue_i32 dev index subindex = io_map as_word32 (readValue TInt32 dev index subindex)"

definition readValue_u32 :: "('w, 'e) device_access \<Rightarrow> u16 \<Rightarrow> u8 \<Rightarrow> ('w, 'e access_error, u32) io" where
  "readValue_u32 dev index subindex = io_map as_word32 (readValue TUint32 dev index subindex)"

lemmas readValue_inst_defs =
  readValue_i8_def readValue_u8_def readValue_i16_def readValue_u16_def readValue_i32_def
  readValue_u32_def

section \<open>Lemmas\<close>

lemma lift_device_eq_Inr [simp]: "lift_device m w = (Inr a, w') \<longleftrightarrow> m w = (Inr a, w')"
  by (auto simp: lift_device_def split: prod.splits sum.splits)

lemma snd_lift_device [simp]: "snd (lift_device m w) = snd (m w)"
  by (auto simp: lift_device_def split: prod.splits sum.splits)

lemma snd_readValue [simp]:
  "snd (readValue t dev index subindex w) = snd (da_readParameter dev index subindex w)"
  by (auto simp: readValue_def io_bind_def lift_device_def split: prod.splits sum.splits option.splits)

lemma snd_io_map [simp]: "snd (io_map f m w) = snd (m w)"
  by (auto simp: io_map_def io_bind_def split: prod.splits sum.splits)

lemma io_map_eq_Inr: "io_map f m w = (Inr b, w') \<longleftrightarrow> (\<exists>a. m w = (Inr a, w') \<and> b = f a)"
  by (auto simp: io_map_def io_bind_eq_Inr)

end
