(* ===== verification/Cia402_Accessors.thy ===== *)
theory Cia402_Accessors
  imports Cia402 Device_Access
begin

text \<open>
  The object accessors of \<^verbatim>\<open>class Cia402Drive\<close> (\<^verbatim>\<open>libs/node/cia402_drive.cc\<close>): each reads or writes one
  fixed object of the drive profile with the type the profile gives it, and the accessors of a
  two-element object read it as a whole and write its elements in order.
\<close>

section \<open>Single objects\<close>

definition statusword :: "('w, 'e) device_access \<Rightarrow> ('w, 'e access_error, u16) io" where
  "statusword dev = readValue_u16 dev kStatusword 0"

definition controlword :: "('w, 'e) device_access \<Rightarrow> ('w, 'e access_error, u16) io" where
  "controlword dev = readValue_u16 dev kControlword 0"

definition setControlword :: "('w, 'e) device_access \<Rightarrow> u16 \<Rightarrow> ('w, 'e access_error, unit) io" where
  "setControlword dev value = writeValue dev kControlword 0 (VUint16 value)"

definition operationModeValue :: "('w, 'e) device_access \<Rightarrow> ('w, 'e access_error, u8) io" where
  "operationModeValue dev = readValue_i8 dev kModeOfOperation 0"

definition operationModeValueDisplay :: "('w, 'e) device_access \<Rightarrow> ('w, 'e access_error, u8) io" where
  "operationModeValueDisplay dev = readValue_i8 dev kModeOfOperationDisplay 0"

definition setOperationModeValue :: "('w, 'e) device_access \<Rightarrow> u8 \<Rightarrow> ('w, 'e access_error, unit) io" where
  "setOperationModeValue dev value = writeValue dev kModeOfOperation 0 (VInt8 value)"

definition targetPosition :: "('w, 'e) device_access \<Rightarrow> ('w, 'e access_error, u32) io" where
  "targetPosition dev = readValue_i32 dev kTargetPosition 0"

definition setTargetPosition :: "('w, 'e) device_access \<Rightarrow> u32 \<Rightarrow> ('w, 'e access_error, unit) io" where
  "setTargetPosition dev value = writeValue dev kTargetPosition 0 (VInt32 value)"

definition targetVelocity :: "('w, 'e) device_access \<Rightarrow> ('w, 'e access_error, u32) io" where
  "targetVelocity dev = readValue_i32 dev kTargetVelocity 0"

definition setTargetVelocity :: "('w, 'e) device_access \<Rightarrow> u32 \<Rightarrow> ('w, 'e access_error, unit) io" where
  "setTargetVelocity dev value = writeValue dev kTargetVelocity 0 (VInt32 value)"

definition targetTorque :: "('w, 'e) device_access \<Rightarrow> ('w, 'e access_error, u16) io" where
  "targetTorque dev = readValue_i16 dev kTargetTorque 0"

definition setTargetTorque :: "('w, 'e) device_access \<Rightarrow> u16 \<Rightarrow> ('w, 'e access_error, unit) io" where
  "setTargetTorque dev value = writeValue dev kTargetTorque 0 (VInt16 value)"

definition positionActualValue :: "('w, 'e) device_access \<Rightarrow> ('w, 'e access_error, u32) io" where
  "positionActualValue dev = readValue_i32 dev kPositionActualValue 0"

definition velocityActualValue :: "('w, 'e) device_access \<Rightarrow> ('w, 'e access_error, u32) io" where
  "velocityActualValue dev = readValue_i32 dev kVelocityActualValue 0"

definition torqueActualValue :: "('w, 'e) device_access \<Rightarrow> ('w, 'e access_error, u16) io" where
  "torqueActualValue dev = readValue_i16 dev kTorqueActualValue 0"

definition errorCode :: "('w, 'e) device_access \<Rightarrow> ('w, 'e access_error, u16) io" where
  "errorCode dev = readValue_u16 dev kErrorCode 0"

definition quickStopOptionCode :: "('w, 'e) device_access \<Rightarrow> ('w, 'e access_error, u16) io" where
  "quickStopOptionCode dev = readValue_i16 dev kQuickStopOptionCode 0"

definition setQuickStopOptionCode :: "('w, 'e) device_access \<Rightarrow> u16 \<Rightarrow> ('w, 'e access_error, unit) io" where
  "setQuickStopOptionCode dev value = writeValue dev kQuickStopOptionCode 0 (VInt16 value)"

definition positionDemandValue :: "('w, 'e) device_access \<Rightarrow> ('w, 'e access_error, u32) io" where
  "positionDemandValue dev = readValue_i32 dev kPositionDemandValue 0"

definition followingErrorWindow :: "('w, 'e) device_access \<Rightarrow> ('w, 'e access_error, u32) io" where
  "followingErrorWindow dev = readValue_u32 dev kFollowingErrorWindow 0"

definition setFollowingErrorWindow :: "('w, 'e) device_access \<Rightarrow> u32 \<Rightarrow> ('w, 'e access_error, unit) io" where
  "setFollowingErrorWindow dev value = writeValue dev kFollowingErrorWindow 0 (VUint32 value)"

definition followingErrorTimeout :: "('w, 'e) device_access \<Rightarrow> ('w, 'e access_error, u16) io" where
  "followingErrorTimeout dev = readValue_u16 dev kFollowingErrorTimeout 0"

definition setFollowingErrorTimeout :: "('w, 'e) device_access \<Rightarrow> u16 \<Rightarrow> ('w, 'e access_error, unit) io" where
  "setFollowingErrorTimeout dev value = writeValue dev kFollowingErrorTimeout 0 (VUint16 value)"

definition positionWindow :: "('w, 'e) device_access \<Rightarrow> ('w, 'e access_error, u32) io" where
  "positionWindow dev = readValue_u32 dev kPositionWindow 0"

definition setPositionWindow :: "('w, 'e) device_access \<Rightarrow> u32 \<Rightarrow> ('w, 'e access_error, unit) io" where
  "setPositionWindow dev value = writeValue dev kPositionWindow 0 (VUint32 value)"

definition positionWindowTime :: "('w, 'e) device_access \<Rightarrow> ('w, 'e access_error, u16) io" where
  "positionWindowTime dev = readValue_u16 dev kPositionWindowTime 0"

definition setPositionWindowTime :: "('w, 'e) device_access \<Rightarrow> u16 \<Rightarrow> ('w, 'e access_error, unit) io" where
  "setPositionWindowTime dev value = writeValue dev kPositionWindowTime 0 (VUint16 value)"

definition velocityDemandValue :: "('w, 'e) device_access \<Rightarrow> ('w, 'e access_error, u32) io" where
  "velocityDemandValue dev = readValue_i32 dev kVelocityDemandValue 0"

definition velocityWindow :: "('w, 'e) device_access \<Rightarrow> ('w, 'e access_error, u16) io" where
  "velocityWindow dev = readValue_u16 dev kVelocityWindow 0"

definition setVelocityWindow :: "('w, 'e) device_access \<Rightarrow> u16 \<Rightarrow> ('w, 'e access_error, unit) io" where
  "setVelocityWindow dev value = writeValue dev kVelocityWindow 0 (VUint16 value)"

definition velocityWindowTime :: "('w, 'e) device_access \<Rightarrow> ('w, 'e access_error, u16) io" where
  "velocityWindowTime dev = readValue_u16 dev kVelocityWindowTime 0"

definition setVelocityWindowTime :: "('w, 'e) device_access \<Rightarrow> u16 \<Rightarrow> ('w, 'e access_error, unit) io" where
  "setVelocityWindowTime dev value = writeValue dev kVelocityWindowTime 0 (VUint16 value)"

definition velocityThreshold :: "('w, 'e) device_access \<Rightarrow> ('w, 'e access_error, u16) io" where
  "velocityThreshold dev = readValue_u16 dev kVelocityThreshold 0"

definition setVelocityThreshold :: "('w, 'e) device_access \<Rightarrow> u16 \<Rightarrow> ('w, 'e access_error, unit) io" where
  "setVelocityThreshold dev value = writeValue dev kVelocityThreshold 0 (VUint16 value)"

definition velocityThresholdTime :: "('w, 'e) device_access \<Rightarrow> ('w, 'e access_error, u16) io" where
  "velocityThresholdTime dev = readValue_u16 dev kVelocityThresholdTime 0"

definition setVelocityThresholdTime :: "('w, 'e) device_access \<Rightarrow> u16 \<Rightarrow> ('w, 'e access_error, unit) io" where
  "setVelocityThresholdTime dev value = writeValue dev kVelocityThresholdTime 0 (VUint16 value)"

definition maxTorque :: "('w, 'e) device_access \<Rightarrow> ('w, 'e access_error, u16) io" where
  "maxTorque dev = readValue_u16 dev kMaxTorque 0"

definition setMaxTorque :: "('w, 'e) device_access \<Rightarrow> u16 \<Rightarrow> ('w, 'e access_error, unit) io" where
  "setMaxTorque dev value = writeValue dev kMaxTorque 0 (VUint16 value)"

definition maxCurrent :: "('w, 'e) device_access \<Rightarrow> ('w, 'e access_error, u16) io" where
  "maxCurrent dev = readValue_u16 dev kMaxCurrent 0"

definition setMaxCurrent :: "('w, 'e) device_access \<Rightarrow> u16 \<Rightarrow> ('w, 'e access_error, unit) io" where
  "setMaxCurrent dev value = writeValue dev kMaxCurrent 0 (VUint16 value)"

definition torqueDemand :: "('w, 'e) device_access \<Rightarrow> ('w, 'e access_error, u16) io" where
  "torqueDemand dev = readValue_i16 dev kTorqueDemand 0"

definition motorRatedCurrent :: "('w, 'e) device_access \<Rightarrow> ('w, 'e access_error, u32) io" where
  "motorRatedCurrent dev = readValue_u32 dev kMotorRatedCurrent 0"

definition setMotorRatedCurrent :: "('w, 'e) device_access \<Rightarrow> u32 \<Rightarrow> ('w, 'e access_error, unit) io" where
  "setMotorRatedCurrent dev value = writeValue dev kMotorRatedCurrent 0 (VUint32 value)"

definition motorRatedTorque :: "('w, 'e) device_access \<Rightarrow> ('w, 'e access_error, u32) io" where
  "motorRatedTorque dev = readValue_u32 dev kMotorRatedTorque 0"

definition setMotorRatedTorque :: "('w, 'e) device_access \<Rightarrow> u32 \<Rightarrow> ('w, 'e access_error, unit) io" where
  "setMotorRatedTorque dev value = writeValue dev kMotorRatedTorque 0 (VUint32 value)"

definition dcLinkCircuitVoltage :: "('w, 'e) device_access \<Rightarrow> ('w, 'e access_error, u32) io" where
  "dcLinkCircuitVoltage dev = readValue_u32 dev kDcLinkCircuitVoltage 0"

definition homeOffset :: "('w, 'e) device_access \<Rightarrow> ('w, 'e access_error, u32) io" where
  "homeOffset dev = readValue_i32 dev kHomeOffset 0"

definition setHomeOffset :: "('w, 'e) device_access \<Rightarrow> u32 \<Rightarrow> ('w, 'e access_error, unit) io" where
  "setHomeOffset dev value = writeValue dev kHomeOffset 0 (VInt32 value)"

definition polarity :: "('w, 'e) device_access \<Rightarrow> ('w, 'e access_error, u8) io" where
  "polarity dev = readValue_u8 dev kPolarity 0"

definition setPolarity :: "('w, 'e) device_access \<Rightarrow> u8 \<Rightarrow> ('w, 'e access_error, unit) io" where
  "setPolarity dev value = writeValue dev kPolarity 0 (VUint8 value)"

definition maxMotorSpeed :: "('w, 'e) device_access \<Rightarrow> ('w, 'e access_error, u32) io" where
  "maxMotorSpeed dev = readValue_u32 dev kMaxMotorSpeed 0"

definition setMaxMotorSpeed :: "('w, 'e) device_access \<Rightarrow> u32 \<Rightarrow> ('w, 'e access_error, unit) io" where
  "setMaxMotorSpeed dev value = writeValue dev kMaxMotorSpeed 0 (VUint32 value)"

definition profileVelocity :: "('w, 'e) device_access \<Rightarrow> ('w, 'e access_error, u32) io" where
  "profileVelocity dev = readValue_u32 dev kProfileVelocity 0"

definition setProfileVelocity :: "('w, 'e) device_access \<Rightarrow> u32 \<Rightarrow> ('w, 'e access_error, unit) io" where
  "setProfileVelocity dev value = writeValue dev kProfileVelocity 0 (VUint32 value)"

definition profileAcceleration :: "('w, 'e) device_access \<Rightarrow> ('w, 'e access_error, u32) io" where
  "profileAcceleration dev = readValue_u32 dev kProfileAcceleration 0"

definition setProfileAcceleration :: "('w, 'e) device_access \<Rightarrow> u32 \<Rightarrow> ('w, 'e access_error, unit) io" where
  "setProfileAcceleration dev value = writeValue dev kProfileAcceleration 0 (VUint32 value)"

definition profileDeceleration :: "('w, 'e) device_access \<Rightarrow> ('w, 'e access_error, u32) io" where
  "profileDeceleration dev = readValue_u32 dev kProfileDeceleration 0"

definition setProfileDeceleration :: "('w, 'e) device_access \<Rightarrow> u32 \<Rightarrow> ('w, 'e access_error, unit) io" where
  "setProfileDeceleration dev value = writeValue dev kProfileDeceleration 0 (VUint32 value)"

definition quickStopDeceleration :: "('w, 'e) device_access \<Rightarrow> ('w, 'e access_error, u32) io" where
  "quickStopDeceleration dev = readValue_u32 dev kQuickStopDeceleration 0"

definition setQuickStopDeceleration :: "('w, 'e) device_access \<Rightarrow> u32 \<Rightarrow> ('w, 'e access_error, unit) io" where
  "setQuickStopDeceleration dev value = writeValue dev kQuickStopDeceleration 0 (VUint32 value)"

definition motionProfileType :: "('w, 'e) device_access \<Rightarrow> ('w, 'e access_error, u16) io" where
  "motionProfileType dev = readValue_i16 dev kMotionProfileType 0"

definition setMotionProfileType :: "('w, 'e) device_access \<Rightarrow> u16 \<Rightarrow> ('w, 'e access_error, unit) io" where
  "setMotionProfileType dev value = writeValue dev kMotionProfileType 0 (VInt16 value)"

definition torqueSlope :: "('w, 'e) device_access \<Rightarrow> ('w, 'e access_error, u32) io" where
  "torqueSlope dev = readValue_u32 dev kTorqueSlope 0"

definition setTorqueSlope :: "('w, 'e) device_access \<Rightarrow> u32 \<Rightarrow> ('w, 'e access_error, unit) io" where
  "setTorqueSlope dev value = writeValue dev kTorqueSlope 0 (VUint32 value)"

definition torqueProfileType :: "('w, 'e) device_access \<Rightarrow> ('w, 'e access_error, u16) io" where
  "torqueProfileType dev = readValue_i16 dev kTorqueProfileType 0"

definition setTorqueProfileType :: "('w, 'e) device_access \<Rightarrow> u16 \<Rightarrow> ('w, 'e access_error, unit) io" where
  "setTorqueProfileType dev value = writeValue dev kTorqueProfileType 0 (VInt16 value)"

definition homingMethod :: "('w, 'e) device_access \<Rightarrow> ('w, 'e access_error, u8) io" where
  "homingMethod dev = readValue_i8 dev kHomingMethod 0"

definition setHomingMethod :: "('w, 'e) device_access \<Rightarrow> u8 \<Rightarrow> ('w, 'e access_error, unit) io" where
  "setHomingMethod dev value = writeValue dev kHomingMethod 0 (VInt8 value)"

definition homingAcceleration :: "('w, 'e) device_access \<Rightarrow> ('w, 'e access_error, u32) io" where
  "homingAcceleration dev = readValue_u32 dev kHomingAcceleration 0"

definition setHomingAcceleration :: "('w, 'e) device_access \<Rightarrow> u32 \<Rightarrow> ('w, 'e access_error, unit) io" where
  "setHomingAcceleration dev value = writeValue dev kHomingAcceleration 0 (VUint32 value)"

definition siUnitVelocity :: "('w, 'e) device_access \<Rightarrow> ('w, 'e access_error, u32) io" where
  "siUnitVelocity dev = readValue_u32 dev kSiUnitVelocity 0"

definition setSiUnitVelocity :: "('w, 'e) device_access \<Rightarrow> u32 \<Rightarrow> ('w, 'e access_error, unit) io" where
  "setSiUnitVelocity dev value = writeValue dev kSiUnitVelocity 0 (VUint32 value)"

definition velocityOffset :: "('w, 'e) device_access \<Rightarrow> ('w, 'e access_error, u32) io" where
  "velocityOffset dev = readValue_i32 dev kVelocityOffset 0"

definition setVelocityOffset :: "('w, 'e) device_access \<Rightarrow> u32 \<Rightarrow> ('w, 'e access_error, unit) io" where
  "setVelocityOffset dev value = writeValue dev kVelocityOffset 0 (VInt32 value)"

definition torqueOffset :: "('w, 'e) device_access \<Rightarrow> ('w, 'e access_error, u16) io" where
  "torqueOffset dev = readValue_i16 dev kTorqueOffset 0"

definition setTorqueOffset :: "('w, 'e) device_access \<Rightarrow> u16 \<Rightarrow> ('w, 'e access_error, unit) io" where
  "setTorqueOffset dev value = writeValue dev kTorqueOffset 0 (VInt16 value)"

definition touchProbeFunction :: "('w, 'e) device_access \<Rightarrow> ('w, 'e access_error, u16) io" where
  "touchProbeFunction dev = readValue_u16 dev kTouchProbeFunction 0"

definition setTouchProbeFunction :: "('w, 'e) device_access \<Rightarrow> u16 \<Rightarrow> ('w, 'e access_error, unit) io" where
  "setTouchProbeFunction dev value = writeValue dev kTouchProbeFunction 0 (VUint16 value)"

definition touchProbeStatus :: "('w, 'e) device_access \<Rightarrow> ('w, 'e access_error, u16) io" where
  "touchProbeStatus dev = readValue_u16 dev kTouchProbeStatus 0"

definition touchProbe1PositiveEdge :: "('w, 'e) device_access \<Rightarrow> ('w, 'e access_error, u32) io" where
  "touchProbe1PositiveEdge dev = readValue_i32 dev kTouchProbe1PositiveEdge 0"

definition touchProbe1NegativeEdge :: "('w, 'e) device_access \<Rightarrow> ('w, 'e access_error, u32) io" where
  "touchProbe1NegativeEdge dev = readValue_i32 dev kTouchProbe1NegativeEdge 0"

definition touchProbeTimeStamp1PositiveValue :: "('w, 'e) device_access \<Rightarrow> ('w, 'e access_error, u32) io" where
  "touchProbeTimeStamp1PositiveValue dev = readValue_u32 dev kTouchProbeTimeStamp1PositiveValue 0"

definition touchProbeTimeStamp1NegativeValue :: "('w, 'e) device_access \<Rightarrow> ('w, 'e access_error, u32) io" where
  "touchProbeTimeStamp1NegativeValue dev = readValue_u32 dev kTouchProbeTimeStamp1NegativeValue 0"

definition positioningOptionCode :: "('w, 'e) device_access \<Rightarrow> ('w, 'e access_error, u16) io" where
  "positioningOptionCode dev = readValue_u16 dev kPositioningOptionCode 0"

definition setPositioningOptionCode :: "('w, 'e) device_access \<Rightarrow> u16 \<Rightarrow> ('w, 'e access_error, unit) io" where
  "setPositioningOptionCode dev value = writeValue dev kPositioningOptionCode 0 (VUint16 value)"

definition followingErrorActualValue :: "('w, 'e) device_access \<Rightarrow> ('w, 'e access_error, u32) io" where
  "followingErrorActualValue dev = readValue_i32 dev kFollowingErrorActualValue 0"

definition controlEffort :: "('w, 'e) device_access \<Rightarrow> ('w, 'e access_error, u32) io" where
  "controlEffort dev = readValue_i32 dev kControlEffort 0"

definition positionDemandInternalValue :: "('w, 'e) device_access \<Rightarrow> ('w, 'e access_error, u32) io" where
  "positionDemandInternalValue dev = readValue_i32 dev kPositionDemandInternalValue 0"

definition digitalInputs :: "('w, 'e) device_access \<Rightarrow> ('w, 'e access_error, u32) io" where
  "digitalInputs dev = readValue_u32 dev kDigitalInputs 0"

definition supportedDriveModes :: "('w, 'e) device_access \<Rightarrow> ('w, 'e access_error, u32) io" where
  "supportedDriveModes dev = io_map as_word32 (readCachedValue TUint32 dev kSupportedDriveModes 0)"

section \<open>Two-element objects\<close>

record PositionRangeLimit =
  prl_min :: u32
  prl_max :: u32

definition positionRangeLimit :: "('w, 'e) device_access \<Rightarrow> ('w, 'e access_error, PositionRangeLimit) io" where
  "positionRangeLimit dev =
     io_bind (readObject dev kPositionRangeLimit) (\<lambda>object.
       case object_get TInt32 1 object of
         Inl e \<Rightarrow> io_fail e
       | Inr a \<Rightarrow>
           (case object_get TInt32 2 object of
              Inl e \<Rightarrow> io_fail e
            | Inr b \<Rightarrow> io_return \<lparr>prl_min = as_word32 a, prl_max = as_word32 b\<rparr>))"

definition setPositionRangeLimit :: "('w, 'e) device_access \<Rightarrow> PositionRangeLimit \<Rightarrow> ('w, 'e access_error, unit) io" where
  "setPositionRangeLimit dev value =
     io_bind (writeValue dev kPositionRangeLimit 1 (VInt32 (prl_min value))) (\<lambda>_.
       writeValue dev kPositionRangeLimit 2 (VInt32 (prl_max value)))"

record SoftwarePositionLimit =
  spl_min :: u32
  spl_max :: u32

definition softwarePositionLimit :: "('w, 'e) device_access \<Rightarrow> ('w, 'e access_error, SoftwarePositionLimit) io" where
  "softwarePositionLimit dev =
     io_bind (readObject dev kSoftwarePositionLimit) (\<lambda>object.
       case object_get TInt32 1 object of
         Inl e \<Rightarrow> io_fail e
       | Inr a \<Rightarrow>
           (case object_get TInt32 2 object of
              Inl e \<Rightarrow> io_fail e
            | Inr b \<Rightarrow> io_return \<lparr>spl_min = as_word32 a, spl_max = as_word32 b\<rparr>))"

definition setSoftwarePositionLimit :: "('w, 'e) device_access \<Rightarrow> SoftwarePositionLimit \<Rightarrow> ('w, 'e access_error, unit) io" where
  "setSoftwarePositionLimit dev value =
     io_bind (writeValue dev kSoftwarePositionLimit 1 (VInt32 (spl_min value))) (\<lambda>_.
       writeValue dev kSoftwarePositionLimit 2 (VInt32 (spl_max value)))"

record GearRatio =
  gr_motorRevolutions :: u32
  gr_shaftRevolutions :: u32

definition gearRatio :: "('w, 'e) device_access \<Rightarrow> ('w, 'e access_error, GearRatio) io" where
  "gearRatio dev =
     io_bind (readObject dev kGearRatio) (\<lambda>object.
       case object_get TUint32 1 object of
         Inl e \<Rightarrow> io_fail e
       | Inr a \<Rightarrow>
           (case object_get TUint32 2 object of
              Inl e \<Rightarrow> io_fail e
            | Inr b \<Rightarrow> io_return \<lparr>gr_motorRevolutions = as_word32 a, gr_shaftRevolutions = as_word32 b\<rparr>))"

definition setGearRatio :: "('w, 'e) device_access \<Rightarrow> GearRatio \<Rightarrow> ('w, 'e access_error, unit) io" where
  "setGearRatio dev value =
     io_bind (writeValue dev kGearRatio 1 (VUint32 (gr_motorRevolutions value))) (\<lambda>_.
       writeValue dev kGearRatio 2 (VUint32 (gr_shaftRevolutions value)))"

record FeedConstant =
  fc_feed :: u32
  fc_shaftRevolutions :: u32

definition feedConstant :: "('w, 'e) device_access \<Rightarrow> ('w, 'e access_error, FeedConstant) io" where
  "feedConstant dev =
     io_bind (readObject dev kFeedConstant) (\<lambda>object.
       case object_get TUint32 1 object of
         Inl e \<Rightarrow> io_fail e
       | Inr a \<Rightarrow>
           (case object_get TUint32 2 object of
              Inl e \<Rightarrow> io_fail e
            | Inr b \<Rightarrow> io_return \<lparr>fc_feed = as_word32 a, fc_shaftRevolutions = as_word32 b\<rparr>))"

definition setFeedConstant :: "('w, 'e) device_access \<Rightarrow> FeedConstant \<Rightarrow> ('w, 'e access_error, unit) io" where
  "setFeedConstant dev value =
     io_bind (writeValue dev kFeedConstant 1 (VUint32 (fc_feed value))) (\<lambda>_.
       writeValue dev kFeedConstant 2 (VUint32 (fc_shaftRevolutions value)))"

record HomingSpeeds =
  hs_switchSearch :: u32
  hs_zeroSearch :: u32

definition homingSpeeds :: "('w, 'e) device_access \<Rightarrow> ('w, 'e access_error, HomingSpeeds) io" where
  "homingSpeeds dev =
     io_bind (readObject dev kHomingSpeeds) (\<lambda>object.
       case object_get TUint32 1 object of
         Inl e \<Rightarrow> io_fail e
       | Inr a \<Rightarrow>
           (case object_get TUint32 2 object of
              Inl e \<Rightarrow> io_fail e
            | Inr b \<Rightarrow> io_return \<lparr>hs_switchSearch = as_word32 a, hs_zeroSearch = as_word32 b\<rparr>))"

definition setHomingSpeeds :: "('w, 'e) device_access \<Rightarrow> HomingSpeeds \<Rightarrow> ('w, 'e access_error, unit) io" where
  "setHomingSpeeds dev value =
     io_bind (writeValue dev kHomingSpeeds 1 (VUint32 (hs_switchSearch value))) (\<lambda>_.
       writeValue dev kHomingSpeeds 2 (VUint32 (hs_zeroSearch value)))"

record DigitalOutputs =
  do_physicalOutputs :: u32
  do_bitMask :: u32

definition digitalOutputs :: "('w, 'e) device_access \<Rightarrow> ('w, 'e access_error, DigitalOutputs) io" where
  "digitalOutputs dev =
     io_bind (readObject dev kDigitalOutputs) (\<lambda>object.
       case object_get TUint32 1 object of
         Inl e \<Rightarrow> io_fail e
       | Inr a \<Rightarrow>
           (case object_get TUint32 2 object of
              Inl e \<Rightarrow> io_fail e
            | Inr b \<Rightarrow> io_return \<lparr>do_physicalOutputs = as_word32 a, do_bitMask = as_word32 b\<rparr>))"

definition setDigitalOutputs :: "('w, 'e) device_access \<Rightarrow> DigitalOutputs \<Rightarrow> ('w, 'e access_error, unit) io" where
  "setDigitalOutputs dev value =
     io_bind (writeValue dev kDigitalOutputs 1 (VUint32 (do_physicalOutputs value))) (\<lambda>_.
       writeValue dev kDigitalOutputs 2 (VUint32 (do_bitMask value)))"

end
