(* ===== verification/Cia402_Drive.thy ===== *)
theory Cia402_Drive
  imports Cia402_Accessors
begin

text \<open>
  The behaviour of \<^verbatim>\<open>class Cia402Drive\<close> (\<^verbatim>\<open>libs/node/cia402_drive.cc\<close>): composing the controlword,
  the edge-triggered fault reset, waiting for an operation mode, and the walk that takes a drive to
  a requested state. The two polling loops are \<^theory_text>\<open>partial_function (option)\<close>s: a loop that never
  returns is \<open>None\<close>, and the theorems below show that a steady clock rules that out.
\<close>

unbundle bit_operations_syntax

section \<open>Commands and targets\<close>

datatype Cia402Command = CmdEnable | CmdDisable | CmdQuickStop | CmdFaultReset

definition parseCia402Command :: "string \<Rightarrow> Cia402Command option" where
  "parseCia402Command token =
     (if token = ''enable'' then Some CmdEnable
      else if token = ''disable'' then Some CmdDisable
      else if token = ''quickStop'' then Some CmdQuickStop
      else if token = ''faultReset'' then Some CmdFaultReset
      else None)"

datatype Cia402TargetKind = KindPosition | KindVelocity | KindTorque

definition parseCia402TargetKind :: "string \<Rightarrow> Cia402TargetKind option" where
  "parseCia402TargetKind token =
     (if token = ''position'' then Some KindPosition
      else if token = ''velocity'' then Some KindVelocity
      else if token = ''torque'' then Some KindTorque
      else None)"

primrec targetKind_toString :: "Cia402TargetKind \<Rightarrow> string" where
  "targetKind_toString KindPosition = ''position''"
| "targetKind_toString KindVelocity = ''velocity''"
| "targetKind_toString KindTorque = ''torque''"

definition targetKindForMode :: "OperationMode \<Rightarrow> Cia402TargetKind option" where
  "targetKindForMode m =
     (case m of
        kCyclicSyncPosition \<Rightarrow> Some KindPosition
      | kProfilePosition \<Rightarrow> Some KindPosition
      | kCyclicSyncVelocity \<Rightarrow> Some KindVelocity
      | kProfileVelocityMode \<Rightarrow> Some KindVelocity
      | kCyclicSyncTorque \<Rightarrow> Some KindTorque
      | kProfileTorque \<Rightarrow> Some KindTorque
      | kCyclicSyncTorqueCommutationAngle \<Rightarrow> Some KindTorque
      | _ \<Rightarrow> None)"

section \<open>Timing\<close>

definition ms :: nat where "ms = 1000000"

definition kPollStep :: nat where "kPollStep = 1 * ms"

definition kFaultResetGrace :: nat where "kFaultResetGrace = 200 * ms"

definition kEdgeSettle :: nat where "kEdgeSettle = 10 * ms"

text \<open>
  \<^verbatim>\<open>stoppedServiceHint\<close> returns one fixed text or nothing; the model keeps whether it does.
\<close>

definition stoppedServiceHint :: "bool \<Rightarrow> bool \<Rightarrow> bool" where
  "stoppedServiceHint commandIssued statuswordChanged \<longleftrightarrow> commandIssued \<and> \<not> statuswordChanged"

section \<open>Errors\<close>

datatype 'e drive_error =
    AccessError "'e access_error"
  | NotRequestable State
  | QuickStopOverrideNeeded State State
  | StillInFault "u16 option"
  | TransitionTimeout State nat State bool
  | ModeNotAdopted u8 u8 "u16 option"

section \<open>State and mode\<close>

definition drive_state :: "('w, 'e) device_access \<Rightarrow> ('w, 'e access_error, State) io" where
  "drive_state dev = io_map decodeState (statusword dev)"

definition operationMode :: "('w, 'e) device_access \<Rightarrow> ('w, 'e access_error, OperationMode) io" where
  "operationMode dev = io_map mode_of_raw (readValue_i8 dev kModeOfOperationDisplay 0)"

definition setOperationMode :: "('w, 'e) device_access \<Rightarrow> OperationMode \<Rightarrow> ('w, 'e access_error, unit) io" where
  "setOperationMode dev m = setOperationModeValue dev (raw_of_mode m)"

text \<open>The error code 0x603F is read to explain a failure; a read that fails is left out.\<close>

definition explain_error_code :: "('w, 'e) device_access \<Rightarrow> 'w \<Rightarrow> u16 option \<times> 'w" where
  "explain_error_code dev w =
     (case readValue_u16 dev kErrorCode 0 w of (r, w') \<Rightarrow> (ok_option r, w'))"

partial_function (option) await_mode ::
  "('w, 'e) device_access \<Rightarrow> u8 \<Rightarrow> nat \<Rightarrow> 'w \<Rightarrow> (('e drive_error + unit) \<times> 'w) option" where
  "await_mode dev m deadline w =
     (case operationModeValueDisplay dev w of
        (Inl e, w1) \<Rightarrow> Some (Inl (AccessError e), w1)
      | (Inr active, w1) \<Rightarrow>
          if m = 0 \<or> active = m then Some (Inr (), w1)
          else (case da_now dev w1 of
                  (t, w2) \<Rightarrow>
                    if t \<ge> deadline
                    then (case explain_error_code dev w2 of
                            (code, w3) \<Rightarrow> Some (Inl (ModeNotAdopted m active code), w3))
                    else await_mode dev m deadline (da_sleep_for dev kPollStep w2)))"

definition applyOperationMode ::
  "('w, 'e) device_access \<Rightarrow> u8 \<Rightarrow> nat \<Rightarrow> 'w \<Rightarrow> (('e drive_error + unit) \<times> 'w) option" where
  "applyOperationMode dev m timeout w =
     (case setOperationModeValue dev m w of
        (Inl e, w1) \<Rightarrow> Some (Inl (AccessError e), w1)
      | (Inr _, w1) \<Rightarrow>
          (case da_now dev w1 of (t, w2) \<Rightarrow> await_mode dev m (t + timeout) w2))"

record Cia402Status =
  cs_state :: State
  cs_statusword :: u16
  cs_controlword :: u16
  cs_modeOfOperationDisplay :: OperationMode
  cs_targetPosition :: "int option"
  cs_targetVelocity :: "int option"
  cs_targetTorque :: "int option"
  cs_actualPosition :: "int option"
  cs_actualVelocity :: "int option"
  cs_actualTorque :: "int option"

text \<open>The lambda \<^verbatim>\<open>optional\<close> of \<^verbatim>\<open>readStatus\<close>: a failed read is an absent value.\<close>

definition read_optional :: "('w, 'e, 'a::len word) io \<Rightarrow> 'w \<Rightarrow> int option \<times> 'w" where
  "read_optional m w = (case m w of (r, w') \<Rightarrow> (map_option sint (ok_option r), w'))"

definition readStatus :: "('w, 'e) device_access \<Rightarrow> ('w, 'e access_error, Cia402Status) io" where
  "readStatus dev =
     io_bind (statusword dev) (\<lambda>sw.
     io_bind (controlword dev) (\<lambda>cw.
     io_bind (operationMode dev) (\<lambda>m w.
       case read_optional (targetPosition dev) w of (tp, w1) \<Rightarrow>
       case read_optional (targetVelocity dev) w1 of (tv, w2) \<Rightarrow>
       case read_optional (targetTorque dev) w2 of (tt, w3) \<Rightarrow>
       case read_optional (positionActualValue dev) w3 of (ap, w4) \<Rightarrow>
       case read_optional (velocityActualValue dev) w4 of (av, w5) \<Rightarrow>
       case read_optional (torqueActualValue dev) w5 of (at, w6) \<Rightarrow>
         (Inr \<lparr>cs_state = decodeState sw, cs_statusword = sw, cs_controlword = cw,
               cs_modeOfOperationDisplay = m, cs_targetPosition = tp, cs_targetVelocity = tv,
               cs_targetTorque = tt, cs_actualPosition = ap, cs_actualVelocity = av,
               cs_actualTorque = at\<rparr>, w6))))"

section \<open>The controlword\<close>

text \<open>The read-modify-write of a command into the command bits of a controlword.\<close>

definition command_word :: "u16 \<Rightarrow> u16 \<Rightarrow> u16" where
  "command_word current command =
     (current AND NOT kCommandMask) OR (command AND kCommandMask)"

definition applyCommand :: "('w, 'e) device_access \<Rightarrow> Command \<Rightarrow> ('w, 'e access_error, unit) io" where
  "applyCommand dev command =
     io_bind (controlword dev) (\<lambda>current.
       setControlword dev (command_word current (command_bits command)))"

definition shutdown :: "('w, 'e) device_access \<Rightarrow> ('w, 'e access_error, unit) io" where
  "shutdown dev = applyCommand dev kCmdShutdown"

definition switchOn :: "('w, 'e) device_access \<Rightarrow> ('w, 'e access_error, unit) io" where
  "switchOn dev = applyCommand dev kCmdSwitchOn"

definition enableOperation :: "('w, 'e) device_access \<Rightarrow> ('w, 'e access_error, unit) io" where
  "enableOperation dev = applyCommand dev kCmdEnableOperation"

definition disableVoltage :: "('w, 'e) device_access \<Rightarrow> ('w, 'e access_error, unit) io" where
  "disableVoltage dev = applyCommand dev kCmdDisableVoltage"

definition quickStop :: "('w, 'e) device_access \<Rightarrow> ('w, 'e access_error, unit) io" where
  "quickStop dev = applyCommand dev kCmdQuickStop"

definition faultReset :: "('w, 'e) device_access \<Rightarrow> ('w, 'e access_error, unit) io" where
  "faultReset dev =
     io_bind (controlword dev) (\<lambda>current.
       if current AND command_bits kCmdFaultReset \<noteq> 0
       then io_bind (setControlword dev (current AND NOT (command_bits kCmdFaultReset))) (\<lambda>_ w.
              io_bind (controlword dev)
                (\<lambda>reread. setControlword dev (reread OR command_bits kCmdFaultReset))
                (da_sleep_for dev kEdgeSettle w))
       else setControlword dev (current OR command_bits kCmdFaultReset))"

definition disable :: "('w, 'e) device_access \<Rightarrow> ('w, 'e access_error, unit) io" where
  "disable dev = disableVoltage dev"

section \<open>The walk to a state\<close>

text \<open>The variables that live across iterations of the loop in \<^verbatim>\<open>transitionToState\<close>.\<close>

record walk =
  wk_faultResetAt :: "nat option"
  wk_quickStopIssued :: bool
  wk_firstStatusword :: "u16 option"
  wk_statuswordChanged :: bool
  wk_commandIssued :: bool

definition walk_start :: walk where
  "walk_start = \<lparr>wk_faultResetAt = None, wk_quickStopIssued = False, wk_firstStatusword = None,
                 wk_statuswordChanged = False, wk_commandIssued = False\<rparr>"

definition walk_observe :: "u16 \<Rightarrow> walk \<Rightarrow> walk" where
  "walk_observe sw wk =
     (case wk_firstStatusword wk of
        None \<Rightarrow> wk\<lparr>wk_firstStatusword := Some sw\<rparr>
      | Some f \<Rightarrow> if sw \<noteq> f then wk\<lparr>wk_statuswordChanged := True\<rparr> else wk)"

text \<open>
  The \<^verbatim>\<open>kCommand\<close> case of the loop body: either the walk ends with an error, or it goes on with the
  bookkeeping updated.
\<close>

definition walk_command ::
  "('w, 'e) device_access \<Rightarrow> State \<Rightarrow> Command \<Rightarrow> walk \<Rightarrow> ('w, 'e drive_error, walk) io" where
  "walk_command dev current command wk w =
     (if current = kFault
      then (case wk_faultResetAt wk of
              Some at \<Rightarrow>
                (case da_now dev w of
                   (t, w1) \<Rightarrow>
                     if t - at \<ge> kFaultResetGrace
                     then (case explain_error_code dev w1 of
                             (code, w2) \<Rightarrow> (Inl (StillInFault code), w2))
                     else (Inr wk, w1))
            | None \<Rightarrow>
                (case faultReset dev w of
                   (Inl e, w1) \<Rightarrow> (Inl (AccessError e), w1)
                 | (Inr _, w1) \<Rightarrow>
                     (case da_now dev w1 of
                        (t, w2) \<Rightarrow> (Inr (wk\<lparr>wk_faultResetAt := Some t\<rparr>), w2))))
      else (case applyCommand dev command w of
              (Inl e, w1) \<Rightarrow> (Inl (AccessError e), w1)
            | (Inr _, w1) \<Rightarrow>
                (Inr (if command = kCmdQuickStop
                      then wk\<lparr>wk_commandIssued := True, wk_quickStopIssued := True\<rparr>
                      else wk\<lparr>wk_commandIssued := True\<rparr>), w1)))"

text \<open>
  One pass of the loop up to the deadline check: \<open>Inl r\<close> leaves the function with \<open>r\<close>, \<open>Inr\<close> falls
  through with the state just observed.
\<close>

definition walk_body ::
  "('w, 'e) device_access \<Rightarrow> State \<Rightarrow> bool \<Rightarrow> bool \<Rightarrow> walk \<Rightarrow> 'w
     \<Rightarrow> (('e drive_error + unit) + (State \<times> walk)) \<times> 'w" where
  "walk_body dev target allow passesThrough wk w =
     (case statusword dev w of
        (Inl e, w1) \<Rightarrow> (Inl (Inl (AccessError e)), w1)
      | (Inr sw, w1) \<Rightarrow>
          (let wk1 = walk_observe sw wk; current = decodeState sw
           in if passesThrough \<and> current = kSwitchOnDisabled \<and> wk_quickStopIssued wk1
              then (Inl (Inr ()), w1)
              else (case nextFsaTransition current target allow of
                      kArrived \<Rightarrow> (Inl (Inr ()), w1)
                    | kUnreachable \<Rightarrow> (Inl (Inl (QuickStopOverrideNeeded current target)), w1)
                    | kWait \<Rightarrow> (Inr (current, wk1), w1)
                    | kCommand c \<Rightarrow>
                        (case walk_command dev current c wk1 w1 of
                           (Inl e, w2) \<Rightarrow> (Inl (Inl e), w2)
                         | (Inr wk2, w2) \<Rightarrow> (Inr (current, wk2), w2)))))"

partial_function (option) walk_loop ::
  "('w, 'e) device_access \<Rightarrow> State \<Rightarrow> nat \<Rightarrow> bool \<Rightarrow> bool \<Rightarrow> nat \<Rightarrow> walk \<Rightarrow> 'w
     \<Rightarrow> (('e drive_error + unit) \<times> 'w) option" where
  "walk_loop dev target timeout allow passesThrough deadline wk w =
     (case walk_body dev target allow passesThrough wk w of
        (Inl r, w1) \<Rightarrow> Some (r, w1)
      | (Inr (current, wk1), w1) \<Rightarrow>
          (case da_now dev w1 of
             (t, w2) \<Rightarrow>
               if t \<ge> deadline
               then Some (Inl (TransitionTimeout target timeout current
                                 (stoppedServiceHint (wk_commandIssued wk1) (wk_statuswordChanged wk1))),
                          w2)
               else walk_loop dev target timeout allow passesThrough deadline wk1
                      (da_sleep_for dev kPollStep w2)))"

definition quickStopPassesThrough :: "('w, 'e) device_access \<Rightarrow> State \<Rightarrow> 'w \<Rightarrow> bool \<times> 'w" where
  "quickStopPassesThrough dev target w =
     (if target = kQuickStopActive
      then (case readValue_i16 dev kQuickStopOptionCode 0 w of
              (Inl _, w1) \<Rightarrow> (\<not> quickStopHolds 0, w1)
            | (Inr code, w1) \<Rightarrow> (\<not> quickStopHolds code, w1))
      else (False, w))"

definition transitionToState ::
  "('w, 'e) device_access \<Rightarrow> State \<Rightarrow> nat \<Rightarrow> bool \<Rightarrow> 'w \<Rightarrow> (('e drive_error + unit) \<times> 'w) option" where
  "transitionToState dev target timeout allowQuickStopOverride w =
     (if \<not> isCommandableState target then Some (Inl (NotRequestable target), w)
      else (case quickStopPassesThrough dev target w of
              (passes, w1) \<Rightarrow>
                (case da_now dev w1 of
                   (t, w2) \<Rightarrow>
                     walk_loop dev target timeout allowQuickStopOverride passes (t + timeout)
                       walk_start w2)))"

definition enable :: "('w, 'e) device_access \<Rightarrow> nat \<Rightarrow> 'w \<Rightarrow> (('e drive_error + unit) \<times> 'w) option" where
  "enable dev timeout w = transitionToState dev kOperationEnabled timeout False w"

section \<open>Holding a setpoint\<close>

definition setTargetToActual ::
  "('w, 'e) device_access \<Rightarrow> Cia402TargetKind \<Rightarrow> ('w, 'e access_error, int) io" where
  "setTargetToActual dev kind =
     (case kind of
        KindPosition \<Rightarrow>
          io_bind (positionActualValue dev) (\<lambda>actual.
            io_bind (setTargetPosition dev actual) (\<lambda>_. io_return (sint actual)))
      | KindVelocity \<Rightarrow>
          io_bind (velocityActualValue dev) (\<lambda>actual.
            io_bind (setTargetVelocity dev actual) (\<lambda>_. io_return (sint actual)))
      | KindTorque \<Rightarrow>
          io_bind (torqueActualValue dev) (\<lambda>actual.
            io_bind (setTargetTorque dev actual) (\<lambda>_. io_return (sint actual))))"

section \<open>The loops return\<close>

text \<open>
  What the code relies on from \<^verbatim>\<open>std::chrono::steady_clock\<close> and \<^verbatim>\<open>sleep_for\<close>: there is a passage of
  time \<open>clk\<close> that no call moves backwards, a reading of the clock lies between the time before and
  the time after it, and a sleep lasts at least as long as asked.
\<close>

definition advances :: "('w \<Rightarrow> nat) \<Rightarrow> ('w \<Rightarrow> 'a \<times> 'w) \<Rightarrow> bool" where
  "advances clk m \<longleftrightarrow> (\<forall>w. clk w \<le> clk (snd (m w)))"

definition steady_clock :: "('w, 'e) device_access \<Rightarrow> ('w \<Rightarrow> nat) \<Rightarrow> bool" where
  "steady_clock dev clk \<longleftrightarrow>
     (\<forall>index subindex. advances clk (da_readParameter dev index subindex))
   \<and> (\<forall>index subindex v. advances clk (da_writeParameter dev index subindex v))
   \<and> (\<forall>w. clk w \<le> fst (da_now dev w) \<and> fst (da_now dev w) \<le> clk (snd (da_now dev w)))
   \<and> (\<forall>d w. clk w + d \<le> clk (da_sleep_for dev d w))"

lemma advances_bind:
  "advances clk m \<Longrightarrow> (\<And>a. advances clk (k a)) \<Longrightarrow> advances clk (io_bind m k)"
  unfolding advances_def io_bind_def
  by (auto split: prod.splits sum.splits) (metis order_trans snd_conv)+

lemma advances_snd: "(\<And>w. snd (m w) = snd (m' w)) \<Longrightarrow> advances clk m' \<Longrightarrow> advances clk m"
  by (simp add: advances_def)

lemma advances_readValue: "steady_clock dev clk \<Longrightarrow> advances clk (readValue t dev i s)"
  by (rule advances_snd [of _ "da_readParameter dev i s"]) (simp_all add: steady_clock_def)

lemma advances_io_map: "advances clk m \<Longrightarrow> advances clk (io_map f m)"
  by (rule advances_snd) simp_all

lemma advances_writeValue: "steady_clock dev clk \<Longrightarrow> advances clk (writeValue dev i s v)"
  by (rule advances_snd [of _ "da_writeParameter dev i s v"])
     (simp_all add: steady_clock_def writeValue_def)

lemmas advances_accessors =
  advances_io_map advances_readValue advances_writeValue

lemma advances_controlword:
  assumes "steady_clock dev clk"
  shows "advances clk (statusword dev)" "advances clk (controlword dev)"
    "advances clk (setControlword dev v)" "advances clk (operationModeValueDisplay dev)"
  using assms
  by (simp_all add: statusword_def controlword_def setControlword_def operationModeValueDisplay_def
      readValue_inst_defs advances_accessors)

lemma advances_applyCommand: "steady_clock dev clk \<Longrightarrow> advances clk (applyCommand dev c)"
  by (simp add: applyCommand_def advances_bind advances_controlword)

lemma advances_after_sleep:
  "steady_clock dev clk \<Longrightarrow> advances clk m \<Longrightarrow> advances clk (\<lambda>w. m (da_sleep_for dev d w))"
  unfolding advances_def steady_clock_def by (meson add_leD1 order_trans)

lemma advances_faultReset: "steady_clock dev clk \<Longrightarrow> advances clk (faultReset dev)"
  unfolding faultReset_def
  by (intro advances_bind) (auto simp: advances_controlword intro!: advances_bind advances_after_sleep)

lemma advances_explain: "steady_clock dev clk \<Longrightarrow> advances clk (explain_error_code dev)"
  by (rule advances_snd [of _ "readValue_u16 dev kErrorCode 0"])
     (simp_all add: explain_error_code_def readValue_inst_defs advances_accessors case_prod_beta)

lemma steady_now:
  assumes "steady_clock dev clk" and "da_now dev w = (t, w')"
  shows "clk w \<le> t" and "t \<le> clk w'"
  using assms by (auto simp: steady_clock_def dest: spec [of _ w])

lemma advances_now: "steady_clock dev clk \<Longrightarrow> advances clk (da_now dev)"
  unfolding advances_def steady_clock_def by (meson order_trans)

lemma advancesD: "advances clk m \<Longrightarrow> m w = (a, w') \<Longrightarrow> clk w \<le> clk w'"
  by (metis advances_def snd_conv)

lemma advances_walk_command:
  assumes "steady_clock dev clk"
  shows "advances clk (walk_command dev current c wk)"
  unfolding advances_def
proof
  fix w
  note facts = advancesD [OF advances_faultReset [OF assms]]
    advancesD [OF advances_applyCommand [OF assms]] advancesD [OF advances_explain [OF assms]]
    advancesD [OF advances_now [OF assms]]
  show "clk w \<le> clk (snd (walk_command dev current c wk w))"
    unfolding walk_command_def
    by (auto split: prod.splits sum.splits option.splits dest!: facts)
qed

lemma advances_walk_body:
  assumes "steady_clock dev clk"
  shows "advances clk (walk_body dev target allow passes wk)"
  unfolding advances_def
proof
  fix w
  note facts = advancesD [OF advances_controlword(1) [OF assms]]
    advancesD [OF advances_walk_command [OF assms]]
  show "clk w \<le> clk (snd (walk_body dev target allow passes wk w))"
    unfolding walk_body_def
    by (auto simp: Let_def split: prod.splits sum.splits FsaTransition.splits dest!: facts)
qed

lemma walk_loop_returns:
  assumes "steady_clock dev clk"
  shows "\<exists>r. walk_loop dev target timeout allow passes deadline wk w = Some r"
proof (induction "deadline - clk w" arbitrary: wk w rule: less_induct)
  case less
  obtain b w1 where b: "walk_body dev target allow passes wk w = (b, w1)" by fastforce
  show ?case
  proof (cases b)
    case (Inl r)
    with b show ?thesis by (simp add: walk_loop.simps)
  next
    case (Inr c)
    obtain current wk1 where c: "c = (current, wk1)" by fastforce
    obtain t w2 where t: "da_now dev w1 = (t, w2)" by fastforce
    have clocks: "clk w \<le> clk w1" "clk w1 \<le> t" "t \<le> clk w2"
      "clk w2 + kPollStep \<le> clk (da_sleep_for dev kPollStep w2)"
      using advancesD [OF advances_walk_body [OF assms] b] steady_now [OF assms t] assms
      by (auto simp: steady_clock_def)
    show ?thesis
    proof (cases "t \<ge> deadline")
      case True
      with b c t Inr show ?thesis by (simp add: walk_loop.simps)
    next
      case False
      then have "deadline - clk (da_sleep_for dev kPollStep w2) < deadline - clk w"
        using clocks by (simp add: kPollStep_def ms_def)
      from less.hyps [OF this] False b c t Inr show ?thesis
        by (subst walk_loop.simps) simp
    qed
  qed
qed

lemma await_mode_returns:
  assumes "steady_clock dev clk"
  shows "\<exists>r. await_mode dev m deadline w = Some r"
proof (induction "deadline - clk w" arbitrary: w rule: less_induct)
  case less
  obtain r w1 where r: "operationModeValueDisplay dev w = (r, w1)" by fastforce
  obtain t w2 where t: "da_now dev w1 = (t, w2)" by fastforce
  have clocks: "clk w \<le> clk w1" "clk w1 \<le> t" "t \<le> clk w2"
    "clk w2 + kPollStep \<le> clk (da_sleep_for dev kPollStep w2)"
    using advancesD [OF advances_controlword(4) [OF assms] r] steady_now [OF assms t] assms
    by (auto simp: steady_clock_def)
  show ?case
  proof (cases "t < deadline")
    case True
    then have "deadline - clk (da_sleep_for dev kPollStep w2) < deadline - clk w"
      using clocks by (simp add: kPollStep_def ms_def)
    from less.hyps [OF this] r t show ?thesis
      by (subst await_mode.simps) (auto split: sum.splits prod.splits)
  next
    case False
    with r t show ?thesis
      by (subst await_mode.simps) (auto split: sum.splits prod.splits)
  qed
qed

end
