(* ===== verification/Cia402_Walk.thy ===== *)
theory Cia402_Walk
  imports Cia402_Drive
begin

text \<open>
  What \<^verbatim>\<open>Cia402Drive::transitionToState\<close> and \<^verbatim>\<open>Cia402Drive::faultReset\<close> do to a drive: the writes of a walk,
  observed through a device that records them, and the arrival of the walk on a drive that follows
  the profile.
\<close>

unbundle bit_operations_syntax

section \<open>What a walk writes\<close>

text \<open>
  A device that records the calls made on it, newest first. Observing a client through it changes
  nothing for the client: the inner device answers every call.
\<close>

datatype device_event =
    EvRead u16 u8 "DeviceParameterValue option"
  | EvWrite u16 u8 DeviceParameterValue bool
  | EvObject u16
  | EvNow nat
  | EvSleep nat

definition traced :: "('w, 'e) device_access \<Rightarrow> ('w \<times> device_event list, 'e) device_access" where
  "traced dev =
     \<lparr>da_readParameter = (\<lambda>i s (w, log).
        case da_readParameter dev i s w of (r, w') \<Rightarrow> (r, (w', EvRead i s (ok_option r) # log))),
      da_writeParameter = (\<lambda>i s v (w, log).
        case da_writeParameter dev i s v w of (r, w') \<Rightarrow> (r, (w', EvWrite i s v (isOk r) # log))),
      da_readObject = (\<lambda>i (w, log).
        case da_readObject dev i w of (r, w') \<Rightarrow> (r, (w', EvObject i # log))),
      da_findParameter = (\<lambda>i s (w, log). da_findParameter dev i s w),
      da_now = (\<lambda>(w, log). case da_now dev w of (t, w') \<Rightarrow> (t, (w', EvNow t # log))),
      da_sleep_for = (\<lambda>d (w, log). (da_sleep_for dev d w, EvSleep d # log))\<rparr>"

definition u16_of :: "DeviceParameterValue \<Rightarrow> u16 option" where
  "u16_of v = map_option as_word16 (valueAs TUint16 v)"

text \<open>The latest 16-bit value read from subindex 0 of an object.\<close>

fun last_read :: "u16 \<Rightarrow> device_event list \<Rightarrow> u16 option" where
  "last_read i [] = None"
| "last_read i (EvRead j s (Some v) # log) =
     (if j = i \<and> s = 0 then u16_of v else last_read i log)"
| "last_read i (_ # log) = last_read i log"

text \<open>
  A write the state machine calls for: it goes to the controlword, and given the statusword and the
  controlword read last, it carries the command of the next-hop table in the command bits and
  leaves every other bit alone; in Fault it lowers or raises bit 7 only.
\<close>

definition write_ok :: "State \<Rightarrow> bool \<Rightarrow> u16 \<Rightarrow> u8 \<Rightarrow> DeviceParameterValue \<Rightarrow> device_event list \<Rightarrow> bool" where
  "write_ok target allow i s v log \<longleftrightarrow>
     i = kControlword \<and> s = 0 \<and>
     (case (last_read kControlword log, last_read kStatusword log) of
        (Some cur, Some sw) \<Rightarrow>
          (if decodeState sw = kFault
           then v = VUint16 (cur AND NOT (command_bits kCmdFaultReset))
                \<or> v = VUint16 (cur OR command_bits kCmdFaultReset)
           else (case nextFsaTransition (decodeState sw) target allow of
                   kCommand c \<Rightarrow> v = VUint16 (command_word cur (command_bits c))
                 | _ \<Rightarrow> False))
      | _ \<Rightarrow> False)"

fun writes_ok :: "State \<Rightarrow> bool \<Rightarrow> device_event list \<Rightarrow> bool" where
  "writes_ok target allow [] = True"
| "writes_ok target allow (e # log) =
     ((case e of EvWrite i s v _ \<Rightarrow> write_ok target allow i s v log | _ \<Rightarrow> True)
      \<and> writes_ok target allow log)"

lemma traced_simps [simp]:
  "da_now (traced dev) (w, log) = (case da_now dev w of (t, w') \<Rightarrow> (t, (w', EvNow t # log)))"
  "da_sleep_for (traced dev) d (w, log) = (da_sleep_for dev d w, EvSleep d # log)"
  by (simp_all add: traced_def)

lemma traced_readValue_u16:
  assumes "readValue_u16 (traced dev) i s (w, log) = (r, (w', log'))"
  shows "\<exists>raw. log' = EvRead i s raw # log \<and> (\<forall>x. r = Inr x \<longrightarrow> (\<exists>v. raw = Some v \<and> u16_of v = Some x))"
  using assms
  by (auto simp: readValue_u16_def readValue_def io_map_def io_bind_def lift_device_def traced_def
      u16_of_def split: prod.splits sum.splits option.splits)

lemma traced_writeValue:
  assumes "writeValue (traced dev) i s v (w, log) = (r, (w', log'))"
  shows "\<exists>ok. log' = EvWrite i s v ok # log"
  using assms
  by (auto simp: writeValue_def lift_device_def traced_def split: prod.splits sum.splits)

text \<open>
  The effect of the three accessors the walk uses, as facts about the log.
\<close>

lemma traced_statusword:
  assumes "statusword (traced dev) (w, log) = (r, (w', log'))"
  shows "\<exists>raw. log' = EvRead kStatusword 0 raw # log \<and> (\<forall>x. r = Inr x \<longrightarrow> last_read kStatusword log' = Some x)"
  using traced_readValue_u16 [OF assms [unfolded statusword_def]] by auto

lemma traced_controlword:
  assumes "controlword (traced dev) (w, log) = (r, (w', log'))"
  shows "\<exists>raw. log' = EvRead kControlword 0 raw # log \<and> (\<forall>x. r = Inr x \<longrightarrow> last_read kControlword log' = Some x)"
  using traced_readValue_u16 [OF assms [unfolded controlword_def]] by auto

lemma kControlword_neq_kStatusword [simp]: "kControlword \<noteq> kStatusword" "kStatusword \<noteq> kControlword"
  by (simp_all add: kControlword_def kStatusword_def)

lemma last_read_other [simp]:
  "j \<noteq> i \<Longrightarrow> last_read i (EvRead j s raw # log) = last_read i log"
  "last_read i (EvWrite j s v ok # log) = last_read i log"
  "last_read i (EvNow d # log) = last_read i log"
  "last_read i (EvSleep d # log) = last_read i log"
  by (cases raw) simp_all

lemma writes_ok_simps [simp]:
  "writes_ok target allow (EvRead i s raw # log) = writes_ok target allow log"
  "writes_ok target allow (EvNow d # log) = writes_ok target allow log"
  "writes_ok target allow (EvSleep d # log) = writes_ok target allow log"
  "writes_ok target allow (EvWrite i s v ok # log) =
     (write_ok target allow i s v log \<and> writes_ok target allow log)"
  by simp_all

text \<open>
  The two shapes of a fault reset that succeeds, as what it leaves on the log.
\<close>

definition reset_log :: "device_event list \<Rightarrow> device_event list \<Rightarrow> bool" where
  "reset_log log log' \<longleftrightarrow>
     (\<exists>cur v ok. u16_of v = Some cur \<and> cur AND command_bits kCmdFaultReset = 0
        \<and> log' = [EvWrite kControlword 0 (VUint16 (cur OR command_bits kCmdFaultReset)) ok,
                  EvRead kControlword 0 (Some v)] @ log)
   \<or> (\<exists>cur v ok re v' ok'. u16_of v = Some cur \<and> cur AND command_bits kCmdFaultReset \<noteq> 0
        \<and> u16_of v' = Some re
        \<and> log' = [EvWrite kControlword 0 (VUint16 (re OR command_bits kCmdFaultReset)) ok',
                  EvRead kControlword 0 (Some v'),
                  EvSleep kEdgeSettle,
                  EvWrite kControlword 0 (VUint16 (cur AND NOT (command_bits kCmdFaultReset))) ok,
                  EvRead kControlword 0 (Some v)] @ log)"

lemma traced_setControlword:
  assumes "setControlword (traced dev) x (w, log) = (r, (w', log'))"
  shows "\<exists>ok. log' = EvWrite kControlword 0 (VUint16 x) ok # log"
  using traced_writeValue assms unfolding setControlword_def by metis

lemma traced_controlword_Inr:
  assumes "controlword (traced dev) (w, log) = (Inr x, (w', log'))"
  shows "\<exists>v. log' = EvRead kControlword 0 (Some v) # log \<and> u16_of v = Some x"
  using traced_readValue_u16 [OF assms [unfolded controlword_def]] by auto

lemma faultReset_log:
  assumes "faultReset (traced dev) (w, log) = (Inr (), (w', log'))"
  shows "reset_log log log'"
proof -
  let ?F = "command_bits kCmdFaultReset" and ?d = "traced dev"
  obtain cur s1 where cw: "controlword ?d (w, log) = (Inr cur, s1)"
    and rest: "(if cur AND ?F \<noteq> 0
       then io_bind (setControlword ?d (cur AND NOT ?F)) (\<lambda>_ w.
              io_bind (controlword ?d) (\<lambda>reread. setControlword ?d (reread OR ?F))
                (da_sleep_for ?d kEdgeSettle w))
       else setControlword ?d (cur OR ?F)) s1 = (Inr (), (w', log'))"
    using assms unfolding faultReset_def by (rule io_bindE)
  obtain w1 log1 where s1: "s1 = (w1, log1)" by fastforce
  obtain v where v: "log1 = EvRead kControlword 0 (Some v) # log" "u16_of v = Some cur"
    using traced_controlword_Inr [OF cw [unfolded s1]] by blast
  show ?thesis
  proof (cases "cur AND ?F = 0")
    case True
    then have "setControlword ?d (cur OR ?F) (w1, log1) = (Inr (), (w', log'))"
      using rest s1 by simp
    from traced_setControlword [OF this]
    obtain ok where "log' = EvWrite kControlword 0 (VUint16 (cur OR ?F)) ok # log1" ..
    with True v show ?thesis
      unfolding reset_log_def
      by (intro disjI1 exI [of _ cur] exI [of _ v] exI [of _ ok]) (simp del: command_bits.simps)
  next
    case False
    then have "io_bind (setControlword ?d (cur AND NOT ?F)) (\<lambda>_ w.
        io_bind (controlword ?d) (\<lambda>reread. setControlword ?d (reread OR ?F))
          (da_sleep_for ?d kEdgeSettle w)) s1 = (Inr (), (w', log'))"
      using rest by simp
    then obtain u s2 where s2: "setControlword ?d (cur AND NOT ?F) s1 = (Inr u, s2)"
      and rest2: "io_bind (controlword ?d) (\<lambda>reread. setControlword ?d (reread OR ?F))
          (da_sleep_for ?d kEdgeSettle s2) = (Inr (), (w', log'))"
      by (rule io_bindE)
    obtain w2 log2 where s2': "s2 = (w2, log2)" by fastforce
    obtain ok where ok: "log2 = EvWrite kControlword 0 (VUint16 (cur AND NOT ?F)) ok # log1"
      using traced_setControlword [OF s2 [unfolded s1 s2']] ..
    obtain re s3 where s3: "controlword ?d (da_sleep_for ?d kEdgeSettle s2) = (Inr re, s3)"
      and last: "setControlword ?d (re OR ?F) s3 = (Inr (), (w', log'))"
      using rest2 by (rule io_bindE)
    obtain w3 log3 where s3': "s3 = (w3, log3)" by fastforce
    obtain v' where v': "log3 = EvRead kControlword 0 (Some v') # EvSleep kEdgeSettle # log2" "u16_of v' = Some re"
      using traced_controlword_Inr [OF s3 [unfolded s2' s3' traced_simps(2)]] by blast
    obtain ok' where "log' = EvWrite kControlword 0 (VUint16 (re OR ?F)) ok' # log3"
      using traced_setControlword [OF last [unfolded s3']] ..
    with False v ok v' show ?thesis
      unfolding reset_log_def
      by (intro disjI2 exI [of _ cur] exI [of _ v] exI [of _ ok] exI [of _ re] exI [of _ v'] exI [of _ ok'])
         (simp del: command_bits.simps)
  qed
qed

text \<open>Assertions about the log before and after a call on a recording device.\<close>

definition on_log ::
  "(device_event list \<Rightarrow> bool) \<Rightarrow> ('w \<times> device_event list, 'e, 'a) io
     \<Rightarrow> ('e + 'a \<Rightarrow> device_event list \<Rightarrow> bool) \<Rightarrow> bool" where
  "on_log P m Q \<longleftrightarrow>
     (\<forall>w log r w' log'. P log \<longrightarrow> m (w, log) = (r, (w', log')) \<longrightarrow> Q r log')"

lemma on_logD: "on_log P m Q \<Longrightarrow> P log \<Longrightarrow> m (w, log) = (r, (w', log')) \<Longrightarrow> Q r log'"
  unfolding on_log_def by blast

lemma on_log_bind:
  assumes "on_log P m (\<lambda>r l. case r of Inl e \<Rightarrow> Q (Inl e) l | Inr a \<Rightarrow> R a l)"
    and "\<And>a. on_log (R a) (k a) Q"
  shows "on_log P (io_bind m k) Q"
  unfolding on_log_def
proof (intro allI impI)
  fix w log r w' log'
  assume P: "P log" and eq: "io_bind m k (w, log) = (r, w', log')"
  obtain r1 w1 log1 where m: "m (w, log) = (r1, (w1, log1))" by (metis prod.collapse)
  have Q1: "case r1 of Inl e \<Rightarrow> Q (Inl e) log1 | Inr a \<Rightarrow> R a log1"
    using on_logD [OF assms(1) P m] .
  show "Q r log'"
  proof (cases r1)
    case (Inl e)
    with eq m Q1 show ?thesis by (simp add: io_bind_def)
  next
    case (Inr a)
    then have "k a (w1, log1) = (r, (w', log'))" "R a log1"
      using eq m Q1 by (simp_all add: io_bind_def)
    then show ?thesis using assms(2) by (auto dest: on_logD)
  qed
qed

text \<open>The walk's invariant: only called-for writes so far, and \<open>sw\<close> is the statusword read last.\<close>

definition walk_inv :: "State \<Rightarrow> bool \<Rightarrow> u16 \<Rightarrow> device_event list \<Rightarrow> bool" where
  "walk_inv target allow sw log \<longleftrightarrow>
     writes_ok target allow log \<and> last_read kStatusword log = Some sw"

lemma controlword_on_log:
  "on_log (walk_inv target allow sw) (controlword (traced dev))
     (\<lambda>r log. walk_inv target allow sw log \<and> (\<forall>x. r = Inr x \<longrightarrow> last_read kControlword log = Some x))"
  unfolding on_log_def walk_inv_def by (auto dest!: traced_controlword)

lemma setControlword_on_log:
  "on_log (\<lambda>log. walk_inv target allow sw log \<and> write_ok target allow kControlword 0 (VUint16 x) log)
     (setControlword (traced dev) x) (\<lambda>r. walk_inv target allow sw)"
  unfolding on_log_def walk_inv_def by (auto dest!: traced_setControlword)

lemma on_log_weaken:
  "on_log P m Q \<Longrightarrow> (\<And>l. P' l \<Longrightarrow> P l) \<Longrightarrow> (\<And>r l. Q r l \<Longrightarrow> Q' r l) \<Longrightarrow> on_log P' m Q'"
  unfolding on_log_def by meson

lemma applyCommand_on_log:
  assumes "decodeState sw \<noteq> kFault" and "nextFsaTransition (decodeState sw) target allow = kCommand c"
  shows "on_log (walk_inv target allow sw) (applyCommand (traced dev) c) (\<lambda>r. walk_inv target allow sw)"
  unfolding applyCommand_def
proof (rule on_log_bind)
  show "on_log (walk_inv target allow sw) (controlword (traced dev))
     (\<lambda>r l. case r of Inl e \<Rightarrow> walk_inv target allow sw l
              | Inr x \<Rightarrow> walk_inv target allow sw l \<and> last_read kControlword l = Some x)"
    by (rule on_log_weaken [OF controlword_on_log]) (auto split: sum.splits)
next
  fix x
  show "on_log (\<lambda>l. walk_inv target allow sw l \<and> last_read kControlword l = Some x)
     (setControlword (traced dev) (command_word x (command_bits c))) (\<lambda>r. walk_inv target allow sw)"
    by (rule on_log_weaken [OF setControlword_on_log])
       (use assms in \<open>auto simp: walk_inv_def write_ok_def\<close>)
qed

lemma reset_write_on_log:
  assumes "decodeState sw = kFault"
    and "y = x AND NOT (command_bits kCmdFaultReset) \<or> y = x OR command_bits kCmdFaultReset"
  shows "on_log (\<lambda>l. walk_inv target allow sw l \<and> last_read kControlword l = Some x)
           (setControlword (traced dev) y) (\<lambda>r. walk_inv target allow sw)"
  by (rule on_log_weaken [OF setControlword_on_log])
     (use assms in \<open>auto simp: walk_inv_def write_ok_def simp del: command_bits.simps\<close>)

lemma controlword_then_on_log:
  assumes "\<And>x. on_log (\<lambda>l. walk_inv target allow sw l \<and> last_read kControlword l = Some x) (k x)
                 (\<lambda>r. walk_inv target allow sw)"
  shows "on_log (walk_inv target allow sw) (io_bind (controlword (traced dev)) k) (\<lambda>r. walk_inv target allow sw)"
  by (rule on_log_bind [OF _ assms], rule on_log_weaken [OF controlword_on_log]) (auto split: sum.splits)

lemma on_log_after_sleep:
  assumes "on_log (walk_inv target allow sw) m Q"
  shows "on_log (walk_inv target allow sw) (\<lambda>w. m (da_sleep_for (traced dev) d w)) Q"
  unfolding on_log_def
proof (intro allI impI)
  fix w log r w' log'
  assume "walk_inv target allow sw log"
    and "m (da_sleep_for (traced dev) d (w, log)) = (r, w', log')"
  then have "walk_inv target allow sw (EvSleep d # log)"
    and "m (da_sleep_for dev d w, EvSleep d # log) = (r, w', log')"
    by (simp_all add: walk_inv_def)
  then show "Q r log'" by (rule on_logD [OF assms])
qed

lemma faultReset_on_log:
  assumes "decodeState sw = kFault"
  shows "on_log (walk_inv target allow sw) (faultReset (traced dev)) (\<lambda>r. walk_inv target allow sw)"
  unfolding faultReset_def
proof (rule controlword_then_on_log)
  fix x
  let ?F = "command_bits kCmdFaultReset"
  have again: "on_log (walk_inv target allow sw)
      (\<lambda>w. io_bind (controlword (traced dev)) (\<lambda>y. setControlword (traced dev) (y OR ?F))
             (da_sleep_for (traced dev) kEdgeSettle w)) (\<lambda>r. walk_inv target allow sw)"
    by (intro on_log_after_sleep controlword_then_on_log reset_write_on_log assms) simp
  show "on_log (\<lambda>l. walk_inv target allow sw l \<and> last_read kControlword l = Some x)
      (if x AND ?F \<noteq> 0
       then io_bind (setControlword (traced dev) (x AND NOT ?F)) (\<lambda>_ w.
              io_bind (controlword (traced dev)) (\<lambda>reread. setControlword (traced dev) (reread OR ?F))
                (da_sleep_for (traced dev) kEdgeSettle w))
       else setControlword (traced dev) (x OR ?F)) (\<lambda>r. walk_inv target allow sw)"
  proof (cases "x AND ?F = 0")
    case True
    with reset_write_on_log [OF assms, of "x OR ?F" x] show ?thesis by simp
  next
    case False
    have "on_log (\<lambda>l. walk_inv target allow sw l \<and> last_read kControlword l = Some x)
        (setControlword (traced dev) (x AND NOT ?F))
        (\<lambda>r l. case r of Inl e \<Rightarrow> walk_inv target allow sw l | Inr _ \<Rightarrow> walk_inv target allow sw l)"
      by (rule on_log_weaken [OF reset_write_on_log [OF assms]]) (auto split: sum.splits)
    from on_log_bind [OF this again] False show ?thesis by simp
  qed
qed

lemma explain_on_log:
  assumes "walk_inv target allow sw log"
    and "explain_error_code (traced dev) (w, log) = (code, (w', log'))"
  shows "writes_ok target allow log'"
  using assms
  by (auto simp: explain_error_code_def walk_inv_def split: prod.splits dest!: traced_readValue_u16)

lemma walk_command_on_log:
  assumes "nextFsaTransition (decodeState sw) target allow = kCommand c"
  shows "on_log (walk_inv target allow sw) (walk_command (traced dev) (decodeState sw) c wk)
           (\<lambda>r. writes_ok target allow)"
proof (cases "decodeState sw = kFault")
  case True
  note reset = on_logD [OF faultReset_on_log [OF True]]
  show ?thesis
    unfolding on_log_def walk_command_def
    using True
    by (auto split: prod.splits sum.splits option.splits if_splits
        simp: walk_inv_def dest!: reset [unfolded walk_inv_def, rotated] explain_on_log [unfolded walk_inv_def, rotated])
next
  case False
  show ?thesis
    unfolding on_log_def
  proof (intro allI impI)
    fix w log r w' log'
    assume inv: "walk_inv target allow sw log"
      and eq: "walk_command (traced dev) (decodeState sw) c wk (w, log) = (r, w', log')"
    obtain r1 w1 log1 where a: "applyCommand (traced dev) c (w, log) = (r1, (w1, log1))"
      by (metis prod.collapse)
    have "walk_inv target allow sw log1"
      by (rule on_logD [OF applyCommand_on_log [OF False assms] inv a])
    with False eq a show "writes_ok target allow log'"
      by (auto simp: walk_command_def walk_inv_def split: sum.splits)
  qed
qed

lemma writes_ok_mono: "writes_ok target allow (xs @ log) \<Longrightarrow> writes_ok target allow log"
  by (induction xs) auto

text \<open>What one pass of the loop leaves behind, and when it ends the walk with success.\<close>

lemma walk_body_on_log:
  assumes "walk_body (traced dev) target allow passes wk (w, log) = (b, (w', log'))"
    and "writes_ok target allow log"
  shows "writes_ok target allow log'"
    and "b = Inl (Inr ()) \<Longrightarrow> isCommandableState target \<Longrightarrow>
           (\<exists>sw. last_read kStatusword log' = Some sw
              \<and> (decodeState sw = target
                 \<or> (passes \<and> wk_quickStopIssued wk \<and> decodeState sw = kSwitchOnDisabled)))"
proof -
  obtain r w1 log1 where sw: "statusword (traced dev) (w, log) = (r, (w1, log1))"
    by (metis prod.collapse)
  obtain raw where log1: "log1 = EvRead kStatusword 0 raw # log"
    and lr: "\<forall>x. r = Inr x \<longrightarrow> last_read kStatusword log1 = Some x"
    using traced_statusword [OF sw] by blast
  have ok1: "writes_ok target allow log1" using assms(2) log1 by simp
  note command = on_logD [OF walk_command_on_log, unfolded walk_inv_def, rotated 2]
  have qs: "wk_quickStopIssued (walk_observe x wk) = wk_quickStopIssued wk" for x
    by (simp add: walk_observe_def split: option.splits)
  show "writes_ok target allow log'"
    using assms(1) sw ok1 lr
    by (auto simp: walk_body_def Let_def split: prod.splits sum.splits if_splits FsaTransition.splits
        dest!: command)
  show "b = Inl (Inr ()) \<Longrightarrow> isCommandableState target \<Longrightarrow>
           (\<exists>sw. last_read kStatusword log' = Some sw
              \<and> (decodeState sw = target
                 \<or> (passes \<and> wk_quickStopIssued wk \<and> decodeState sw = kSwitchOnDisabled)))"
    using assms(1) sw lr
    by (auto simp: walk_body_def Let_def qs nextFsaTransition_def
        split: prod.splits sum.splits if_splits FsaTransition.splits State.splits)
qed

text \<open>A quick stop was commanded somewhere on the log.\<close>

definition quick_stop_written :: "device_event list \<Rightarrow> bool" where
  "quick_stop_written log \<longleftrightarrow>
     (\<exists>cur ok. EvWrite kControlword 0 (VUint16 (command_word cur (command_bits kCmdQuickStop))) ok \<in> set log)"

lemma quick_stop_written_mono: "quick_stop_written log \<Longrightarrow> set log \<subseteq> set log' \<Longrightarrow> quick_stop_written log'"
  unfolding quick_stop_written_def by blast

lemma log_grows:
  "on_log (\<lambda>l. S \<subseteq> set l) (controlword (traced dev)) (\<lambda>r l. S \<subseteq> set l)"
  "on_log (\<lambda>l. S \<subseteq> set l) (setControlword (traced dev) x) (\<lambda>r l. S \<subseteq> set l)"
  "on_log (\<lambda>l. S \<subseteq> set l) (statusword (traced dev)) (\<lambda>r l. S \<subseteq> set l)"
  unfolding on_log_def
  by (auto dest!: traced_controlword traced_setControlword traced_statusword)

lemma log_grows_bind:
  assumes "on_log (\<lambda>l. S \<subseteq> set l) m (\<lambda>r l. S \<subseteq> set l)"
    and "\<And>a. on_log (\<lambda>l. S \<subseteq> set l) (k a) (\<lambda>r l. S \<subseteq> set l)"
  shows "on_log (\<lambda>l. S \<subseteq> set l) (io_bind m k) (\<lambda>r l. S \<subseteq> set l)"
  by (rule on_log_bind [OF _ assms(2)], rule on_log_weaken [OF assms(1)]) (auto split: sum.splits)

lemma log_grows_sleep:
  assumes "on_log (\<lambda>l. S \<subseteq> set l) m Q"
  shows "on_log (\<lambda>l. S \<subseteq> set l) (\<lambda>w. m (da_sleep_for (traced dev) d w)) Q"
  using assms unfolding on_log_def by (metis set_subset_Cons subset_trans traced_simps(2))

lemma log_grows_commands:
  "on_log (\<lambda>l. S \<subseteq> set l) (applyCommand (traced dev) c) (\<lambda>r l. S \<subseteq> set l)"
  "on_log (\<lambda>l. S \<subseteq> set l) (faultReset (traced dev)) (\<lambda>r l. S \<subseteq> set l)"
  unfolding applyCommand_def faultReset_def
  by (auto intro!: log_grows log_grows_bind log_grows_sleep)

lemma applyCommand_written:
  assumes "applyCommand (traced dev) c (w, log) = (Inr u, (w', log'))"
  shows "\<exists>cur ok. EvWrite kControlword 0 (VUint16 (command_word cur (command_bits c))) ok \<in> set log'"
proof -
  obtain cur s1 where "setControlword (traced dev) (command_word cur (command_bits c)) s1 = (Inr u, (w', log'))"
    using assms unfolding applyCommand_def by (rule io_bindE)
  then obtain ok where "log' = EvWrite kControlword 0 (VUint16 (command_word cur (command_bits c))) ok # snd s1"
    using traced_setControlword [of dev _ "fst s1" "snd s1"] by (metis prod.collapse)
  then show ?thesis by fastforce
qed

lemma walk_command_quick_stop:
  assumes "walk_command (traced dev) current c wk (w, log) = (Inr wk', (w', log'))"
    and "wk_quickStopIssued wk \<longrightarrow> quick_stop_written log"
  shows "wk_quickStopIssued wk' \<longrightarrow> quick_stop_written log'"
proof (cases "current = kFault")
  case True
  obtain r1 w1 log1 where f: "faultReset (traced dev) (w, log) = (r1, (w1, log1))"
    by (metis prod.collapse)
  have "set log \<subseteq> set log1"
    by (rule on_logD [OF log_grows_commands(2) _ f]) simp
  with True assms f show ?thesis
    by (auto simp: walk_command_def split: prod.splits sum.splits option.splits if_splits
        elim!: quick_stop_written_mono)
next
  case False
  obtain r1 w1 log1 where a: "applyCommand (traced dev) c (w, log) = (r1, (w1, log1))"
    by (metis prod.collapse)
  have "set log \<subseteq> set log1"
    by (rule on_logD [OF log_grows_commands(1) _ a]) simp
  moreover have "r1 = Inr u \<Longrightarrow> c = kCmdQuickStop \<Longrightarrow> quick_stop_written log1" for u
    using applyCommand_written [of dev c w log u w1 log1] a unfolding quick_stop_written_def by simp
  ultimately show ?thesis
    using False assms a quick_stop_written_mono
    by (auto simp: walk_command_def split: sum.splits if_splits)
qed

lemma walk_body_quick_stop:
  assumes "walk_body (traced dev) target allow passes wk (w, log) = (Inr (current, wk'), (w', log'))"
    and "wk_quickStopIssued wk \<longrightarrow> quick_stop_written log"
  shows "wk_quickStopIssued wk' \<longrightarrow> quick_stop_written log'"
proof -
  obtain r w1 log1 where sw: "statusword (traced dev) (w, log) = (r, (w1, log1))"
    by (metis prod.collapse)
  have "set log \<subseteq> set log1"
    by (rule on_logD [OF log_grows(3) _ sw]) simp
  then have q1: "wk_quickStopIssued (walk_observe x wk) \<longrightarrow> quick_stop_written log1" for x
    using assms(2) quick_stop_written_mono by (auto simp: walk_observe_def split: option.splits if_splits)
  show ?thesis
    using assms(1) sw q1 walk_command_quick_stop [of dev _ _ _ w1 log1]
    by (auto simp: walk_body_def Let_def split: prod.splits sum.splits if_splits FsaTransition.splits)
qed

text \<open>The end of a successful walk.\<close>

definition arrived :: "State \<Rightarrow> device_event list \<Rightarrow> bool" where
  "arrived target log \<longleftrightarrow>
     (\<exists>sw. last_read kStatusword log = Some sw
        \<and> (decodeState sw = target
           \<or> (target = kQuickStopActive \<and> decodeState sw = kSwitchOnDisabled \<and> quick_stop_written log)))"

lemma walk_body_quick_stop_end:
  assumes "walk_body (traced dev) target allow passes wk (w, log) = (Inl r, (w', log'))"
  shows "set log \<subseteq> set log' \<or> r \<noteq> Inr ()"
proof -
  obtain r1 w1 log1 where sw: "statusword (traced dev) (w, log) = (r1, (w1, log1))"
    by (metis prod.collapse)
  have "set log \<subseteq> set log1"
    by (rule on_logD [OF log_grows(3) _ sw]) simp
  with assms sw show ?thesis
    by (auto simp: walk_body_def Let_def split: prod.splits sum.splits if_splits FsaTransition.splits)
qed

lemma walk_pass_on_log:
  assumes "walk_body (traced dev) target allow passes wk (w, log) = (b, (w', log'))"
    and "writes_ok target allow log" and "wk_quickStopIssued wk \<longrightarrow> quick_stop_written log"
    and "isCommandableState target" and "passes \<longrightarrow> target = kQuickStopActive"
  shows "writes_ok target allow log'" and "b = Inl (Inr ()) \<Longrightarrow> arrived target log'"
    and "b = Inr (current, wk') \<Longrightarrow> wk_quickStopIssued wk' \<Longrightarrow> quick_stop_written log'"
proof -
  show "writes_ok target allow log'" by (rule walk_body_on_log(1) [OF assms(1,2)])
  show "arrived target log'" if "b = Inl (Inr ())"
    using walk_body_on_log(2) [OF assms(1,2) that assms(4)] assms(3,5)
      walk_body_quick_stop_end [OF assms(1) [unfolded that]] quick_stop_written_mono
    unfolding arrived_def by blast
  show "quick_stop_written log'" if "b = Inr (current, wk')" "wk_quickStopIssued wk'"
    using walk_body_quick_stop [OF assms(1) [unfolded that(1)] assms(3)] that(2) by simp
qed

text \<open>The invariant of the loop, for its induction rule; the last argument is what it returns.\<close>

definition walk_loop_inv where
  "walk_loop_inv dev target allow passes wk s y \<longleftrightarrow>
     (isCommandableState target \<longrightarrow> (passes \<longrightarrow> target = kQuickStopActive) \<longrightarrow>
      writes_ok target allow (snd s) \<longrightarrow> (wk_quickStopIssued wk \<longrightarrow> quick_stop_written (snd s)) \<longrightarrow>
      writes_ok target allow (snd (snd y)) \<and> (fst y = Inr () \<longrightarrow> arrived target (snd (snd y))))"

lemma walk_loop_on_log:
  assumes "walk_loop (traced dev) target timeout allow passes deadline wk s = Some y"
  shows "walk_loop_inv dev target allow passes wk s y"
proof -
  have "d = traced dev \<longrightarrow> walk_loop_inv dev target allow passes wk s y"
    if "walk_loop d target timeout allow passes deadline wk s = Some y" for d
    using that
  proof (rule walk_loop.raw_induct [where
        P = "\<lambda>d target tmo allow passes dl wk s y. d = traced dev \<longrightarrow> walk_loop_inv dev target allow passes wk s y",
        rotated], intro impI)
    fix loop d target tmo allow passes dl wk s y
    assume IH: "\<And>d target tmo allow passes dl wk s y.
        loop d target tmo allow passes dl wk s = Some y \<Longrightarrow>
        d = traced dev \<longrightarrow> walk_loop_inv dev target allow passes wk s y"
      and eq: "(case walk_body d target allow passes wk s of
        (Inl r, w1) \<Rightarrow> Some (r, w1)
      | (Inr (current, wk1), w1) \<Rightarrow>
          (case da_now d w1 of
             (t, w2) \<Rightarrow>
               if dl \<le> t
               then Some (Inl (TransitionTimeout target tmo current
                                 (stoppedServiceHint (wk_commandIssued wk1) (wk_statuswordChanged wk1))),
                          w2)
               else loop d target tmo allow passes dl wk1 (da_sleep_for d kPollStep w2))) = Some y"
      and d: "d = traced dev"
    obtain b w1 log1 where b: "walk_body (traced dev) target allow passes wk (fst s, snd s) = (b, (w1, log1))"
      by (metis prod.collapse)
    note pass = walk_pass_on_log [OF b]
    show "walk_loop_inv dev target allow passes wk s y"
    proof (cases b)
      case (Inl r)
      then have "y = (r, (w1, log1))" using eq b d by simp
      with pass(1,2) Inl show ?thesis by (auto simp: walk_loop_inv_def)
    next
      case (Inr c)
      obtain current wk1 where c: "c = (current, wk1)" by fastforce
      obtain t w2 where t: "da_now dev w1 = (t, w2)" by fastforce
      show ?thesis
      proof (cases "dl \<le> t")
        case True
        with eq b d Inr c t pass(1) show ?thesis by (auto simp: walk_loop_inv_def)
      next
        case False
        then have "loop (traced dev) target tmo allow passes dl wk1
                     (da_sleep_for dev kPollStep w2, EvSleep kPollStep # EvNow t # log1) = Some y"
          using eq b d Inr c t by simp
        from IH [OF this] pass(1,3) Inr c show ?thesis
          by (auto simp: walk_loop_inv_def quick_stop_written_def)
      qed
    qed
  qed
  with assms show ?thesis by blast
qed

lemma transition_start_log:
  assumes "quickStopPassesThrough (traced dev) target (w, log) = (passes, (w', log'))"
  shows "writes_ok t a log' = writes_ok t a log" and "passes \<longrightarrow> target = kQuickStopActive"
  using assms
  by (auto simp: quickStopPassesThrough_def readValue_i16_def readValue_def io_map_def io_bind_def
      lift_device_def traced_def split: if_splits prod.splits sum.splits option.splits)

lemma transition_on_log:
  assumes "transitionToState (traced dev) target timeout allow (w, []) = Some (r, (w', log))"
  shows "writes_ok target allow log \<and> (r = Inr () \<longrightarrow> arrived target log)"
proof (cases "isCommandableState target")
  case False
  with assms show ?thesis by (auto simp: transitionToState_def)
next
  case True
  obtain passes w1 log1 where p: "quickStopPassesThrough (traced dev) target (w, []) = (passes, (w1, log1))"
    by (metis prod.collapse)
  obtain t w2 where t: "da_now dev w1 = (t, w2)" by fastforce
  have "walk_loop (traced dev) target timeout allow passes (t + timeout) walk_start (w2, EvNow t # log1)
          = Some (r, (w', log))"
    using assms True p t by (simp add: transitionToState_def)
  from walk_loop_on_log [OF this] transition_start_log [OF p] True show ?thesis
    by (simp add: walk_loop_inv_def walk_start_def)
qed

section \<open>The walk arrives on a drive that follows the profile\<close>

text \<open>
  How the code expects a healthy drive to behave behind the device, with \<open>st\<close> the state of its state
  machine and \<open>cw\<close> the controlword it holds: reads succeed and disturb nothing, a controlword write is
  taken over, commands are answered as the profile says, and bit 7 resets a fault on its rising edge.
\<close>

definition answers_profile ::
  "('w, 'e) device_access \<Rightarrow> (State \<Rightarrow> Command \<Rightarrow> State) \<Rightarrow> ('w \<Rightarrow> State) \<Rightarrow> ('w \<Rightarrow> u16) \<Rightarrow> bool" where
  "answers_profile dev drive st cw \<longleftrightarrow>
     follows_profile drive
   \<and> (\<forall>w. \<exists>sw w'. statusword dev w = (Inr sw, w') \<and> decodeState sw = st w \<and> st w' = st w \<and> cw w' = cw w)
   \<and> (\<forall>w. \<exists>w'. controlword dev w = (Inr (cw w), w') \<and> st w' = st w \<and> cw w' = cw w)
   \<and> (\<forall>v w. \<exists>w'. setControlword dev v w = (Inr (), w') \<and> cw w' = v
        \<and> (st w \<noteq> kFault \<longrightarrow> (\<forall>c. v AND kCommandMask = command_bits c \<longrightarrow> st w' = drive (st w) c))
        \<and> (st w = kFault \<longrightarrow> v AND command_bits kCmdFaultReset = 0 \<longrightarrow> st w' = kFault)
        \<and> (st w = kFault \<longrightarrow> v AND command_bits kCmdFaultReset \<noteq> 0 \<longrightarrow>
             cw w AND command_bits kCmdFaultReset = 0 \<longrightarrow> st w' = kSwitchOnDisabled))
   \<and> (\<forall>w. st (snd (da_now dev w)) = st w \<and> cw (snd (da_now dev w)) = cw w)
   \<and> (\<forall>d w. st (da_sleep_for dev d w) = st w \<and> cw (da_sleep_for dev d w) = cw w)
   \<and> (\<forall>i w. i \<noteq> kControlword \<longrightarrow> st (snd (da_readParameter dev i 0 w)) = st w)"

text \<open>No call takes longer than \<open>\<delta>\<close>, and a sleep overshoots by at most that.\<close>

definition timely :: "('w, 'e) device_access \<Rightarrow> ('w \<Rightarrow> nat) \<Rightarrow> nat \<Rightarrow> bool" where
  "timely dev clk \<delta> \<longleftrightarrow>
     (\<forall>i s w. clk (snd (da_readParameter dev i s w)) \<le> clk w + \<delta>)
   \<and> (\<forall>i s v w. clk (snd (da_writeParameter dev i s v w)) \<le> clk w + \<delta>)
   \<and> (\<forall>w. clk (snd (da_now dev w)) \<le> clk w + \<delta>)
   \<and> (\<forall>d w. clk (da_sleep_for dev d w) \<le> clk w + d + \<delta>)"

lemma command_word_bits [simp]: "command_word cur (command_bits c) AND kCommandMask = command_bits c"
proof -
  have "command_bits c AND kCommandMask = command_bits c"
    by (cases c) (simp_all add: kCommandMask_def)
  then show ?thesis
    unfolding command_word_def by (metis (no_types, lifting) and.assoc and.left_neutral bit.conj_cancel_left bit.conj_disj_distrib2 and.commute or.left_neutral and_zero_eq)
qed

lemma timely_word_access:
  assumes "timely dev clk \<delta>"
  shows "statusword dev w = (r, w') \<Longrightarrow> clk w' \<le> clk w + \<delta>"
    and "controlword dev w = (r, w') \<Longrightarrow> clk w' \<le> clk w + \<delta>"
    and "setControlword dev v w = (r2, w') \<Longrightarrow> clk w' \<le> clk w + \<delta>"
  using assms
  by (auto simp: timely_def statusword_def controlword_def setControlword_def readValue_inst_defs
      writeValue_def dest!: arg_cong [where f = snd])

lemma applyCommand_answers:
  assumes "answers_profile dev drive st cw" and "timely dev clk \<delta>" and "st w \<noteq> kFault"
  shows "\<exists>w'. applyCommand dev c w = (Inr (), w') \<and> st w' = drive (st w) c \<and> clk w' \<le> clk w + 2 * \<delta>"
proof -
  obtain w1 where r: "controlword dev w = (Inr (cw w), w1)" and s1: "st w1 = st w"
    using assms(1) unfolding answers_profile_def by blast
  obtain w2 where s: "setControlword dev (command_word (cw w) (command_bits c)) w1 = (Inr (), w2)"
    and s2: "st w1 \<noteq> kFault \<longrightarrow> (\<forall>c'. command_word (cw w) (command_bits c) AND kCommandMask = command_bits c'
               \<longrightarrow> st w2 = drive (st w1) c')"
    using assms(1) unfolding answers_profile_def by blast
  have "st w2 = drive (st w) c" using s1 s2 assms(3) by simp
  moreover have "clk w2 \<le> clk w + 2 * \<delta>"
    using timely_word_access(2) [OF assms(2) r] timely_word_access(3) [OF assms(2) s] by simp
  ultimately show ?thesis using r s by (simp add: applyCommand_def io_bind_def)
qed

lemma reset_bit_simps:
  "(x AND NOT (command_bits kCmdFaultReset)) AND command_bits kCmdFaultReset = 0"
  "(x OR command_bits kCmdFaultReset) AND command_bits kCmdFaultReset = command_bits kCmdFaultReset"
  by (rule bit_word_eqI, auto simp add: bit_simps simp del: command_bits.simps)+

lemma profile_controlword:
  assumes "answers_profile dev drive st cw"
  obtains w' where "controlword dev w = (Inr (cw w), w')" "st w' = st w" "cw w' = cw w"
  using assms unfolding answers_profile_def by blast

lemma profile_statusword:
  assumes "answers_profile dev drive st cw"
  obtains sw w' where "statusword dev w = (Inr sw, w')" "decodeState sw = st w" "st w' = st w" "cw w' = cw w"
  using assms unfolding answers_profile_def by blast

lemma profile_lower:
  assumes "answers_profile dev drive st cw" and "st w = kFault" and "v AND command_bits kCmdFaultReset = 0"
  obtains w' where "setControlword dev v w = (Inr (), w')" "st w' = kFault" "cw w' = v"
  using assms unfolding answers_profile_def by blast

lemma profile_raise:
  assumes "answers_profile dev drive st cw" and "st w = kFault"
    and "cw w AND command_bits kCmdFaultReset = 0" and "v AND command_bits kCmdFaultReset \<noteq> 0"
  obtains w' where "setControlword dev v w = (Inr (), w')" "st w' = kSwitchOnDisabled"
  using assms unfolding answers_profile_def by blast

lemma faultReset_answers:
  assumes ans: "answers_profile dev drive st cw" and tim: "timely dev clk \<delta>" and fault: "st w = kFault"
  shows "\<exists>w'. faultReset dev w = (Inr (), w') \<and> st w' = kSwitchOnDisabled
            \<and> clk w' \<le> clk w + 5 * \<delta> + kEdgeSettle"
proof -
  let ?F = "command_bits kCmdFaultReset"
  have high: "(x OR ?F) AND ?F \<noteq> 0" for x unfolding reset_bit_simps by simp
  obtain w1 where r: "controlword dev w = (Inr (cw w), w1)" and s1: "st w1 = kFault" "cw w1 = cw w"
    using profile_controlword [OF ans] fault by metis
  show ?thesis
  proof (cases "cw w AND ?F = 0")
    case True
    obtain w2 where hi: "setControlword dev (cw w OR ?F) w1 = (Inr (), w2)" "st w2 = kSwitchOnDisabled"
      by (rule profile_raise [OF ans s1(1) _ high]) (use True s1 in auto)
    have "clk w2 \<le> clk w + 2 * \<delta>"
      using timely_word_access(2) [OF tim r] timely_word_access(3) [OF tim hi(1)] by linarith
    with True r hi show ?thesis by (simp add: faultReset_def io_bind_def)
  next
    case False
    obtain w2 where lo: "setControlword dev (cw w AND NOT ?F) w1 = (Inr (), w2)"
      and s2: "st w2 = kFault" "cw w2 = cw w AND NOT ?F"
      by (rule profile_lower [OF ans s1(1) reset_bit_simps(1)])
    let ?w3 = "da_sleep_for dev kEdgeSettle w2"
    have s3: "st ?w3 = kFault" "cw ?w3 = cw w AND NOT ?F"
      using ans s2 unfolding answers_profile_def by simp_all
    obtain w4 where rr: "controlword dev ?w3 = (Inr (cw ?w3), w4)"
      and s4: "st w4 = kFault" "cw w4 = cw w AND NOT ?F"
      using profile_controlword [OF ans] s3 by metis
    obtain w5 where hi: "setControlword dev (cw ?w3 OR ?F) w4 = (Inr (), w5)" "st w5 = kSwitchOnDisabled"
      by (rule profile_raise [OF ans s4(1) _ high]) (simp_all only: s4 reset_bit_simps)
    have "clk ?w3 \<le> clk w2 + kEdgeSettle + \<delta>" using tim by (simp add: timely_def)
    then have "clk w5 \<le> clk w + 5 * \<delta> + kEdgeSettle"
      using timely_word_access(2) [OF tim r] timely_word_access(3) [OF tim lo]
        timely_word_access(2) [OF tim rr] timely_word_access(3) [OF tim hi(1)] by linarith
    with False r lo rr hi show ?thesis
      by (simp add: faultReset_def io_bind_def del: command_bits.simps)
  qed
qed


lemma command_never_faults:
  assumes "follows_profile drive" and "nextFsaTransition from target allow = kCommand c"
  shows "drive from c \<noteq> kFault"
  using assms
  by (cases "from"; cases target; cases allow)
     (simp_all add: follows_profile_def nextFsaTransition_def split: if_splits)

lemma quick_stop_hop_arrives:
  assumes "follows_profile drive" and "nextFsaTransition from target allow = kCommand kCmdQuickStop"
  shows "drive from kCmdQuickStop = target"
  using assms
  by (cases "from"; cases target; cases allow)
     (simp_all add: follows_profile_def nextFsaTransition_def split: if_splits)

lemma profile_now:
  assumes "answers_profile dev drive st cw" and "da_now dev w = (t, w')"
  shows "st w' = st w"
  using assms unfolding answers_profile_def by (metis snd_conv)

lemma timely_now: "timely dev clk \<delta> \<Longrightarrow> da_now dev w = (t, w') \<Longrightarrow> clk w' \<le> clk w + \<delta>"
  unfolding timely_def by (metis snd_conv)

text \<open>One command of the walk, on a healthy drive.\<close>

lemma walk_command_answers:
  assumes ans: "answers_profile dev drive st cw" and tim: "timely dev clk \<delta>"
    and c: "nextFsaTransition (st w) target allow = kCommand c"
    and fr: "st w = kFault \<longrightarrow> wk_faultResetAt wk = None"
    and qs: "\<not> wk_quickStopIssued wk"
  shows "\<exists>wk' w'. walk_command dev (st w) c wk w = (Inr wk', w') \<and> st w' = drive (st w) c
            \<and> (wk_quickStopIssued wk' \<longrightarrow> drive (st w) c = target)
            \<and> clk w' \<le> clk w + 6 * \<delta> + kEdgeSettle"
proof (cases "st w = kFault")
  case True
  have prof: "follows_profile drive" using ans by (simp add: answers_profile_def)
  have "c = kCmdFaultReset"
    using c True by (cases "isCommandableState target") (auto simp: nextFsaTransition_def split: if_splits)
  then have d: "drive (st w) c = kSwitchOnDisabled" using True prof by (simp add: follows_profile_def)
  obtain w1 where f: "faultReset dev w = (Inr (), w1)" "st w1 = kSwitchOnDisabled"
    "clk w1 \<le> clk w + 5 * \<delta> + kEdgeSettle"
    using faultReset_answers [OF ans tim True] by blast
  obtain t w2 where n: "da_now dev w1 = (t, w2)" by fastforce
  have "st w2 = kSwitchOnDisabled" "clk w2 \<le> clk w + 6 * \<delta> + kEdgeSettle"
    using profile_now [OF ans n] timely_now [OF tim n] f by simp_all
  with True fr f n d qs show ?thesis by (simp add: walk_command_def)
next
  case False
  obtain w1 where a: "applyCommand dev c w = (Inr (), w1)" "st w1 = drive (st w) c" "clk w1 \<le> clk w + 2 * \<delta>"
    using applyCommand_answers [OF ans tim False] by blast
  have prof: "follows_profile drive" using ans by (simp add: answers_profile_def)
  show ?thesis
    using False a qs c quick_stop_hop_arrives [OF prof, of "st w" target allow]
    by (auto simp: walk_command_def)
qed

text \<open>The longest one pass of the loop takes: nine calls, the settling time and the poll step.\<close>

definition pass_time :: "nat \<Rightarrow> nat" where
  "pass_time \<delta> = 9 * \<delta> + kEdgeSettle + kPollStep"

lemma walk_body_answers:
  assumes ans: "answers_profile dev drive st cw" and tim: "timely dev clk \<delta>"
    and c: "nextFsaTransition (st w) target allow = kCommand c"
    and fr: "st w = kFault \<longrightarrow> wk_faultResetAt wk = None"
    and qs: "\<not> wk_quickStopIssued wk"
  shows "\<exists>wk' w'. walk_body dev target allow passes wk w = (Inr (st w, wk'), w') \<and> st w' = drive (st w) c
            \<and> (wk_quickStopIssued wk' \<longrightarrow> drive (st w) c = target)
            \<and> clk w' \<le> clk w + 7 * \<delta> + kEdgeSettle"
proof -
  obtain sw w1 where s: "statusword dev w = (Inr sw, w1)" "decodeState sw = st w" "st w1 = st w"
    using profile_statusword [OF ans] by metis
  let ?wk = "walk_observe sw wk"
  have obs: "wk_faultResetAt ?wk = wk_faultResetAt wk" "wk_quickStopIssued ?wk = wk_quickStopIssued wk"
    by (simp_all add: walk_observe_def split: option.splits)
  obtain wk' w2 where k: "walk_command dev (st w) c ?wk w1 = (Inr wk', w2)" "st w2 = drive (st w) c"
    "wk_quickStopIssued wk' \<longrightarrow> drive (st w) c = target" "clk w2 \<le> clk w1 + 6 * \<delta> + kEdgeSettle"
    using walk_command_answers [OF ans tim, of w1 target allow c ?wk] c fr qs obs s by auto
  have "clk w2 \<le> clk w + 7 * \<delta> + kEdgeSettle"
    using k(4) timely_word_access(1) [OF tim s(1)] by simp
  with s k qs obs c show ?thesis by (simp add: walk_body_def)
qed

lemma walk_loop_arrives:
  assumes ans: "answers_profile dev drive st cw" and tim: "timely dev clk \<delta>" and st: "steady_clock dev clk"
    and tg: "isCommandableState target"
  shows "\<lbrakk>fsa_can_move (st w) target allow; st w = kFault \<longrightarrow> wk_faultResetAt wk = None;
          wk_quickStopIssued wk \<longrightarrow> st w = target;
          clk w + fsa_distance (st w) target * pass_time \<delta> < deadline\<rbrakk>
         \<Longrightarrow> \<exists>w'. walk_loop dev target timeout allow passes deadline wk w = Some (Inr (), w') \<and> st w' = target"
proof (induction "fsa_distance (st w) target" arbitrary: w wk rule: less_induct)
  case less
  have prof: "follows_profile drive" using ans by (simp add: answers_profile_def)
  show ?case
  proof (cases "st w = target")
    case True
    obtain sw w1 where s: "statusword dev w = (Inr sw, w1)" "decodeState sw = st w" "st w1 = st w"
      using profile_statusword [OF ans] by metis
    with True tg show ?thesis
      by (subst walk_loop.simps) (simp add: walk_body_def nextFsaTransition_def Let_def)
  next
    case False
    then obtain c where c: "nextFsaTransition (st w) target allow = kCommand c"
      using can_move_next [OF tg less.prems(1)] by blast
    obtain wk' w1 where b: "walk_body dev target allow passes wk w = (Inr (st w, wk'), w1)"
      "st w1 = drive (st w) c" "wk_quickStopIssued wk' \<longrightarrow> drive (st w) c = target"
      "clk w1 \<le> clk w + 7 * \<delta> + kEdgeSettle"
      using walk_body_answers [OF ans tim c less.prems(2)] less.prems(3) False by blast
    obtain t w2 where t: "da_now dev w1 = (t, w2)" by fastforce
    let ?w3 = "da_sleep_for dev kPollStep w2"
    have "clk ?w3 \<le> clk w2 + kPollStep + \<delta>" using tim by (simp add: timely_def)
    then have late: "t \<le> clk w + pass_time \<delta>" "clk ?w3 \<le> clk w + pass_time \<delta>"
      using b(4) steady_now(2) [OF st t] timely_now [OF tim t] by (simp_all add: pass_time_def)
    have closer: "fsa_distance (st ?w3) target < fsa_distance (st w) target" "st ?w3 = drive (st w) c"
      using command_gets_closer [OF prof c] b(2) profile_now [OF ans t] ans by (simp_all add: answers_profile_def)
    then have "Suc (fsa_distance (st ?w3) target) * pass_time \<delta> \<le> fsa_distance (st w) target * pass_time \<delta>"
      by (intro mult_le_mono1) simp
    then have in_time: "clk ?w3 + fsa_distance (st ?w3) target * pass_time \<delta> < deadline" "t < deadline"
      using late less.prems(4) by simp_all
    have "\<exists>w'. walk_loop dev target timeout allow passes deadline wk' ?w3 = Some (Inr (), w') \<and> st w' = target"
      using less.hyps [OF closer(1) _ _ _ in_time(1)] closer(2) b(3)
        command_keeps_moving [OF prof c] command_never_faults [OF prof c] by simp
    with b(1) t in_time(2) show ?thesis by (subst walk_loop.simps) simp
  qed
qed


lemma passes_through_answers:
  assumes ans: "answers_profile dev drive st cw" and "timely dev clk \<delta>"
    and "quickStopPassesThrough dev target w = (passes, w')"
  shows "st w' = st w"
proof -
  have "kQuickStopOptionCode \<noteq> kControlword" by (simp add: kQuickStopOptionCode_def kControlword_def)
  then have "st (snd (readValue_i16 dev kQuickStopOptionCode 0 w)) = st w"
    using ans by (simp add: readValue_inst_defs answers_profile_def)
  with assms(3) show ?thesis
    by (auto simp: quickStopPassesThrough_def split: if_splits prod.splits sum.splits)
qed


section \<open>A simulated drive\<close>

text \<open>A drive for the examples: it answers at once and keeps time only while somebody sleeps.\<close>

record sim =
  sim_state :: State
  sim_cw :: u16
  sim_clock :: nat

primrec sim_statusword :: "State \<Rightarrow> u16" where
  "sim_statusword kNotReadyToSwitchOn = 0x00"
| "sim_statusword kSwitchOnDisabled = 0x40"
| "sim_statusword kReadyToSwitchOn = 0x21"
| "sim_statusword kSwitchedOn = 0x23"
| "sim_statusword kOperationEnabled = 0x27"
| "sim_statusword kQuickStopActive = 0x07"
| "sim_statusword kFaultReactionActive = 0x0F"
| "sim_statusword kFault = 0x08"

definition sim_answer :: "u16 \<Rightarrow> sim \<Rightarrow> State" where
  "sim_answer v w =
     (if sim_state w = kFault
      then (if v AND 0x80 \<noteq> 0 \<and> sim_cw w AND 0x80 = 0 then kSwitchOnDisabled else kFault)
      else case find (\<lambda>c. v AND kCommandMask = command_bits c)
             [kCmdShutdown, kCmdSwitchOn, kCmdEnableOperation, kCmdDisableVoltage, kCmdQuickStop, kCmdFaultReset] of
             Some c \<Rightarrow> profile_answers (sim_state w) c
           | None \<Rightarrow> sim_state w)"

definition sim_device :: "(sim, unit) device_access" where
  "sim_device =
     \<lparr>da_readParameter = (\<lambda>i s w.
        if i = kStatusword then (Inr (VUint16 (sim_statusword (sim_state w))), w)
        else if i = kControlword then (Inr (VUint16 (sim_cw w)), w)
        else if i = kModeOfOperationDisplay then (Inr (VInt8 8), w)
        else (Inl (), w)),
      da_writeParameter = (\<lambda>i s v w.
        case v of
          VUint16 x \<Rightarrow>
            if i = kControlword then (Inr (), w\<lparr>sim_state := sim_answer x w, sim_cw := x\<rparr>) else (Inl (), w)
        | _ \<Rightarrow> (Inr (), w)),
      da_readObject = (\<lambda>i w. (Inl (), w)),
      da_findParameter = (\<lambda>i s w. None),
      da_now = (\<lambda>w. (sim_clock w, w)),
      da_sleep_for = (\<lambda>d w. w\<lparr>sim_clock := sim_clock w + d\<rparr>)\<rparr>"

lemma sim_steady: "steady_clock sim_device sim_clock"
  by (auto simp: steady_clock_def advances_def sim_device_def split: DeviceParameterValue.splits)

lemma sim_timely: "timely sim_device sim_clock 0"
  by (auto simp: timely_def sim_device_def split: DeviceParameterValue.splits)

lemma command_bits_inject: "command_bits c = command_bits c' \<longleftrightarrow> c = c'"
  by (cases c; cases c') simp_all

lemma sim_answer_command:
  assumes "sim_state w \<noteq> kFault" and "v AND kCommandMask = command_bits c"
  shows "sim_answer v w = profile_answers (sim_state w) c"
  using assms by (cases c) (simp_all add: sim_answer_def)

lemma sim_decode: "decodeState (sim_statusword s) = s"
  by (cases s) (simp_all add: decodeState_def)

lemma sim_words:
  "statusword sim_device w = (Inr (sim_statusword (sim_state w)), w)"
  "controlword sim_device w = (Inr (sim_cw w), w)"
  "setControlword sim_device v w = (Inr (), w\<lparr>sim_state := sim_answer v w, sim_cw := v\<rparr>)"
  by (simp_all add: statusword_def controlword_def setControlword_def readValue_u16_def readValue_def
      writeValue_def io_map_def io_bind_def lift_device_def sim_device_def valueAs_def as_word16_def)

lemma sim_answers: "answers_profile sim_device profile_answers sim_state sim_cw"
  unfolding answers_profile_def sim_words
  by (auto simp: profile_answers_follows sim_decode sim_answer_command)
     (auto simp: sim_device_def sim_answer_def)


text \<open>
  C19: Asking a drive to reach a state, and asking it to adopt an operation mode, always return:
  on any device whose clock is steady and whose sleeps last, the two polling loops end with a result,
  whatever the drive reports and however calls fail.
\<close>

theorem drive_loops_return:
  assumes "steady_clock dev clk"
  shows "(\<exists>r w'. transitionToState dev target timeout allow w = Some (r, w'))
       \<and> (\<exists>r w'. applyOperationMode dev m timeout w = Some (r, w'))"
  using walk_loop_returns [OF assms] await_mode_returns [OF assms]
  by (auto simp: transitionToState_def applyOperationMode_def split: prod.splits sum.splits)

theorem drive_loops_return_witness:
  "(\<exists>r w'. transitionToState sim_device kSwitchedOn 5 True
             \<lparr>sim_state = kFaultReactionActive, sim_cw = 0, sim_clock = 7\<rparr> = Some (r, w'))
 \<and> (\<exists>r w'. applyOperationMode sim_device 9 5
             \<lparr>sim_state = kFaultReactionActive, sim_cw = 0, sim_clock = 7\<rparr> = Some (r, w'))"
  using drive_loops_return [OF sim_steady] .

text \<open>A short walk of the simulated drive, with its log.\<close>

lemma sim_traced:
  "statusword (traced sim_device) (w, log) =
     (Inr (sim_statusword (sim_state w)), (w, EvRead kStatusword 0 (Some (VUint16 (sim_statusword (sim_state w)))) # log))"
  "controlword (traced sim_device) (w, log) =
     (Inr (sim_cw w), (w, EvRead kControlword 0 (Some (VUint16 (sim_cw w))) # log))"
  "setControlword (traced sim_device) v (w, log) =
     (Inr (), (w\<lparr>sim_state := sim_answer v w, sim_cw := v\<rparr>, EvWrite kControlword 0 (VUint16 v) True # log))"
  by (simp_all add: statusword_def controlword_def setControlword_def readValue_u16_def readValue_def
      writeValue_def io_map_def io_bind_def lift_device_def traced_def sim_device_def valueAs_def as_word16_def)

lemma sim_time: "da_now sim_device w = (sim_clock w, w)" "da_sleep_for sim_device d w = w\<lparr>sim_clock := sim_clock w + d\<rparr>"
  by (simp_all add: sim_device_def)

definition sim_log :: "device_event list" where
  "sim_log =
     [EvRead kStatusword 0 (Some (VUint16 0x21)), EvSleep kPollStep, EvNow 0,
      EvWrite kControlword 0 (VUint16 0x0106) True, EvRead kControlword 0 (Some (VUint16 0x0100)),
      EvRead kStatusword 0 (Some (VUint16 0x40)), EvNow 0]"

lemma sim_walk:
  "transitionToState (traced sim_device) kReadyToSwitchOn 100 False
     (\<lparr>sim_state = kSwitchOnDisabled, sim_cw = 0x0100, sim_clock = 0\<rparr>, [])
   = Some (Inr (), (\<lparr>sim_state = kReadyToSwitchOn, sim_cw = 0x0106, sim_clock = kPollStep\<rparr>, sim_log))"
  by (simp add: transitionToState_def quickStopPassesThrough_def walk_loop.simps walk_body_def walk_command_def
      walk_start_def walk_observe_def applyCommand_def io_bind_def sim_traced sim_time sim_log_def Let_def
      decodeState_def nextFsaTransition_def command_word_def kCommandMask_def sim_answer_def profile_answers_def)

text \<open>
  C18: A walk writes nothing but the controlword, and only what the state machine calls for: each
  write carries, in the command bits, the command of the next-hop table for the statusword read just
  before, and every other bit of the controlword as it was read; in Fault it only moves bit 7.
\<close>

theorem transition_writes_called_for:
  assumes "transitionToState (traced dev) target timeout allow (w, []) = Some (r, (w', log))"
  shows "writes_ok target allow log"
  using transition_on_log [OF assms] by simp

theorem transition_writes_called_for_witness: "writes_ok kReadyToSwitchOn False sim_log"
  by (rule transition_writes_called_for [OF sim_walk])

text \<open>
  C8: Success means arrival: when the walk reports success, the statusword it read last decodes to
  the requested state, or a quick stop was requested, this walk commanded it, and the drive has
  already completed it into SwitchOnDisabled.
\<close>

theorem transition_success_arrived:
  assumes "transitionToState (traced dev) target timeout allow (w, []) = Some (Inr (), (w', log))"
  shows "\<exists>sw. last_read kStatusword log = Some sw
            \<and> (decodeState sw = target
               \<or> target = kQuickStopActive \<and> decodeState sw = kSwitchOnDisabled \<and> quick_stop_written log)"
  using transition_on_log [OF assms] by (simp add: arrived_def)

theorem transition_success_arrived_witness:
  "\<exists>sw. last_read kStatusword sim_log = Some sw
      \<and> (decodeState sw = kReadyToSwitchOn
         \<or> kReadyToSwitchOn = kQuickStopActive \<and> decodeState sw = kSwitchOnDisabled \<and> quick_stop_written sim_log)"
  by (rule transition_success_arrived [OF sim_walk])

text \<open>
  A fault reset that reports success put a rising edge of bit 7 on the controlword: either the
  bit was read low and is written high, or it was read high, and it is written low, left low for the
  settling time, re-read, and only then written high; no other bit is touched.
\<close>

theorem faultReset_rising_edge:
  assumes "faultReset (traced dev) (w, log) = (Inr (), (w', log'))"
  shows "reset_log log log'"
  using assms by (rule faultReset_log)

lemma sim_reset:
  "faultReset (traced sim_device) (\<lparr>sim_state = kFault, sim_cw = 0x0080, sim_clock = 0\<rparr>, [])
   = (Inr (), (\<lparr>sim_state = kSwitchOnDisabled, sim_cw = 0x0080, sim_clock = kEdgeSettle\<rparr>,
       [EvWrite kControlword 0 (VUint16 0x0080) True, EvRead kControlword 0 (Some (VUint16 0x0000)),
        EvSleep kEdgeSettle, EvWrite kControlword 0 (VUint16 0x0000) True,
        EvRead kControlword 0 (Some (VUint16 0x0080))]))"
  by (simp add: faultReset_def io_bind_def sim_traced sim_time sim_answer_def)

theorem faultReset_rising_edge_witness:
  "reset_log []
     [EvWrite kControlword 0 (VUint16 0x0080) True, EvRead kControlword 0 (Some (VUint16 0x0000)),
      EvSleep kEdgeSettle, EvWrite kControlword 0 (VUint16 0x0000) True,
      EvRead kControlword 0 (Some (VUint16 0x0080))]"
  by (rule faultReset_rising_edge [OF sim_reset])

end
