(* ===== verification/Process_Image.thy ===== *)
theory Process_Image
  imports Device_Parameter
begin

text \<open>
  PDO mappings and the whole-bus process image: \<^verbatim>\<open>libs/node/pdo_mapping.h\<close>,
  \<^verbatim>\<open>libs/node/process_image.h\<close>, \<^verbatim>\<open>libs/node/process_image.cc\<close> and the layout structures of
  \<^verbatim>\<open>libs/comm/fieldbus_driver.h\<close>. Bit offsets are 32-bit words as in the code and wrap where it
  wraps. A \<^verbatim>\<open>const DeviceParameter*\<close> is an address, and \<open>None\<close> the null pointer.
\<close>

unbundle bit_operations_syntax

section \<open>Mappings and layouts\<close>

record PdoMappingEntry =
  pme_index :: u16
  pme_subindex :: u8
  pme_bitLength :: u8
  pme_bitOffset :: u32

definition packMappingEntry :: "PdoMappingEntry \<Rightarrow> u32" where
  "packMappingEntry e =
     push_bit 16 (ucast (pme_index e)) OR push_bit 8 (ucast (pme_subindex e)) OR ucast (pme_bitLength e)"

definition unpackMappingEntry :: "u32 \<Rightarrow> PdoMappingEntry" where
  "unpackMappingEntry packed =
     \<lparr>pme_index = ucast (drop_bit 16 packed), pme_subindex = ucast (drop_bit 8 packed AND 0xFF),
      pme_bitLength = ucast (packed AND 0xFF), pme_bitOffset = 0\<rparr>"

record FlatPdoMapping =
  fpm_outputs :: "PdoMappingEntry list"
  fpm_inputs :: "PdoMappingEntry list"
  fpm_outputBits :: u32
  fpm_inputBits :: u32

record PdoMappingObject =
  pmo_pdoIndex :: u16
  pmo_entries :: "PdoMappingEntry list"

record PdoMapping =
  pm_outputs :: "PdoMappingObject list"
  pm_inputs :: "PdoMappingObject list"

record SlaveIo =
  sio_slavePosition :: u16
  sio_outputOffset :: u32
  sio_outputBytes :: u32
  sio_inputOffset :: u32
  sio_inputBytes :: u32

record PdoLayout =
  pl_outputBytes :: u32
  pl_inputBytes :: u32
  pl_slaves :: "SlaveIo list"
  pl_expectedWkc :: int

definition kMaxProcessImageBytes :: nat where
  "kMaxProcessImageBytes = 32768"

definition kSynapticonVendorId :: u32 where
  "kSynapticonVendorId = 0x000022D2"

definition kSensodriveVendorId :: u32 where
  "kSensodriveVendorId = 0x0000063A"

definition isSomanetDevice :: "u32 \<Rightarrow> bool" where
  "isSomanetDevice vendorId \<longleftrightarrow> vendorId = kSynapticonVendorId \<or> vendorId = kSensodriveVendorId"

section \<open>The process image\<close>

record ProcessImageEntry =
  pie_slavePosition :: u16
  pie_index :: u16
  pie_subindex :: u8
  pie_bitLength :: u16
  pie_bitOffset :: u32
  pie_parameter :: "nat option"

record ProcessImage =
  pi_outputs :: "ProcessImageEntry list"
  pi_inputs :: "ProcessImageEntry list"
  pi_outputBytes :: u32
  pi_inputBytes :: u32
  pi_expectedWkc :: int

record Location =
  loc_bitOffset :: u32
  loc_bitLength :: u16
  loc_isOutput :: bool
  loc_entryIndex :: nat

text \<open>What \<^verbatim>\<open>buildProcessImage\<close> asks of a device.\<close>

record image_device =
  idev_slavePosition :: u16
  idev_vendorId :: u32
  idev_flatPdoMapping :: FlatPdoMapping
  idev_findParameter :: "u16 \<Rightarrow> u8 \<Rightarrow> nat option"

definition kSomanetPaddingIndices :: "u16 list" where
  "kSomanetPaddingIndices = [0x2001, 0x2007]"

definition isPadding :: "image_device \<Rightarrow> PdoMappingEntry \<Rightarrow> bool" where
  "isPadding device entry \<longleftrightarrow>
     pme_index entry = 0
   \<or> (isSomanetDevice (idev_vendorId device) \<and> pme_index entry \<in> set kSomanetPaddingIndices)"

datatype image_error =
    WindowTooSmall u16 u32 u32
  | ImageTooLarge u32 u32
  | NoWindow u16

definition image_entry :: "image_device \<Rightarrow> u32 \<Rightarrow> PdoMappingEntry \<Rightarrow> ProcessImageEntry" where
  "image_entry device windowOffsetBits e =
     \<lparr>pie_slavePosition = idev_slavePosition device, pie_index = pme_index e,
      pie_subindex = pme_subindex e, pie_bitLength = ucast (pme_bitLength e),
      pie_bitOffset = windowOffsetBits + pme_bitOffset e,
      pie_parameter = idev_findParameter device (pme_index e) (pme_subindex e)\<rparr>"

text \<open>
  The entries of one direction, appended to \<open>out\<close>, with the number of entries skipped under the
  SOMANET padding rule; the sizes are 32-bit products.
\<close>

fun append_loop ::
  "image_device \<Rightarrow> u32 \<Rightarrow> PdoMappingEntry list \<Rightarrow> ProcessImageEntry list \<Rightarrow> u32
     \<Rightarrow> ProcessImageEntry list \<times> u32" where
  "append_loop device off [] out padding = (out, padding)"
| "append_loop device off (e # es) out padding =
     (if isPadding device e
      then append_loop device off es out (if pme_index e \<noteq> 0 then padding + 1 else padding)
      else append_loop device off es (out @ [image_entry device off e]) padding)"

definition appendEntries ::
  "ProcessImageEntry list \<Rightarrow> image_device \<Rightarrow> PdoMappingEntry list \<Rightarrow> u32 \<Rightarrow> u32 \<Rightarrow> u32
     \<Rightarrow> image_error + (ProcessImageEntry list \<times> u32)" where
  "appendEntries out device entries mappedBits windowOffsetBytes windowBytes =
     (if mappedBits > windowBytes * 8
      then Inl (WindowTooSmall (idev_slavePosition device) mappedBits windowBytes)
      else Inr (append_loop device (windowOffsetBytes * 8) entries out 0))"

text \<open>\<^verbatim>\<open>emplace\<close> keeps the first window of a position.\<close>

definition find_window :: "SlaveIo list \<Rightarrow> u16 \<Rightarrow> SlaveIo option" where
  "find_window slaves position = find (\<lambda>s. sio_slavePosition s = position) slaves"

definition build_device ::
  "PdoLayout \<Rightarrow> image_device \<Rightarrow> ProcessImage \<Rightarrow> image_error + ProcessImage" where
  "build_device layout device img =
     (let mappings = idev_flatPdoMapping device
      in if fpm_outputs mappings = [] \<and> fpm_inputs mappings = [] then Inr img
         else case find_window (pl_slaves layout) (idev_slavePosition device) of
           None \<Rightarrow> Inl (NoWindow (idev_slavePosition device))
         | Some io \<Rightarrow>
             (case appendEntries (pi_outputs img) device (fpm_outputs mappings) (fpm_outputBits mappings)
                     (sio_outputOffset io) (sio_outputBytes io) of
                Inl e \<Rightarrow> Inl e
              | Inr (outs, _) \<Rightarrow>
                  (case appendEntries (pi_inputs img) device (fpm_inputs mappings) (fpm_inputBits mappings)
                          (sio_inputOffset io) (sio_inputBytes io) of
                     Inl e \<Rightarrow> Inl e
                   | Inr (ins, _) \<Rightarrow> Inr (img\<lparr>pi_outputs := outs, pi_inputs := ins\<rparr>))))"

fun build_devices ::
  "PdoLayout \<Rightarrow> image_device list \<Rightarrow> ProcessImage \<Rightarrow> image_error + ProcessImage" where
  "build_devices layout [] img = Inr img"
| "build_devices layout (d # ds) img =
     (case build_device layout d img of
        Inl e \<Rightarrow> Inl e
      | Inr img' \<Rightarrow> build_devices layout ds img')"

definition buildProcessImage :: "PdoLayout \<Rightarrow> image_device list \<Rightarrow> image_error + ProcessImage" where
  "buildProcessImage layout devices =
     (if unat (pl_outputBytes layout) + unat (pl_inputBytes layout) > kMaxProcessImageBytes
      then Inl (ImageTooLarge (pl_outputBytes layout) (pl_inputBytes layout))
      else build_devices layout devices
             \<lparr>pi_outputs = [], pi_inputs = [], pi_outputBytes = pl_outputBytes layout,
              pi_inputBytes = pl_inputBytes layout, pi_expectedWkc = pl_expectedWkc layout\<rparr>)"

definition entry_matches :: "u16 \<Rightarrow> u16 \<Rightarrow> u8 \<Rightarrow> ProcessImageEntry \<Rightarrow> bool" where
  "entry_matches position index subindex e \<longleftrightarrow>
     pie_slavePosition e = position \<and> pie_index e = index \<and> pie_subindex e = subindex"

fun find_index :: "('a \<Rightarrow> bool) \<Rightarrow> 'a list \<Rightarrow> nat option" where
  "find_index P [] = None"
| "find_index P (x # xs) = (if P x then Some 0 else map_option Suc (find_index P xs))"

definition location_of :: "ProcessImageEntry list \<Rightarrow> bool \<Rightarrow> nat \<Rightarrow> Location" where
  "location_of es isOutput i =
     \<lparr>loc_bitOffset = pie_bitOffset (es ! i), loc_bitLength = pie_bitLength (es ! i),
      loc_isOutput = isOutput, loc_entryIndex = i\<rparr>"

definition image_find :: "ProcessImage \<Rightarrow> u16 \<Rightarrow> u16 \<Rightarrow> u8 \<Rightarrow> Location option" where
  "image_find img position index subindex =
     (case find_index (entry_matches position index subindex) (pi_outputs img) of
        Some i \<Rightarrow> Some (location_of (pi_outputs img) True i)
      | None \<Rightarrow>
          map_option (location_of (pi_inputs img) False)
            (find_index (entry_matches position index subindex) (pi_inputs img)))"

section \<open>Moving bits\<close>

text \<open>
  \<^verbatim>\<open>extractBits(src, bitOffset, bitLength, out)\<close> with \<open>n\<close> the size of the span \<^verbatim>\<open>out\<close>, whose former
  contents it overwrites. The bit loop leaves at the first bit outside the source or the value.
\<close>

fun extract_loop :: "bytes \<Rightarrow> u32 \<Rightarrow> nat \<Rightarrow> nat \<Rightarrow> nat \<Rightarrow> bytes \<Rightarrow> bytes" where
  "extract_loop src bitOffset valueBytes i 0 out = out"
| "extract_loop src bitOffset valueBytes i (Suc left) out =
     (let srcBit = (unat bitOffset + i) mod 2 ^ 32; srcByte = srcBit div 8
      in if srcByte \<ge> length src \<or> i div 8 \<ge> valueBytes then out
         else let b = drop_bit (srcBit mod 8) (src ! srcByte) AND 1
              in extract_loop src bitOffset valueBytes (Suc i) left
                   (out[i div 8 := out ! (i div 8) OR push_bit (i mod 8) b]))"

definition extractBits_into :: "bytes \<Rightarrow> u32 \<Rightarrow> u16 \<Rightarrow> nat \<Rightarrow> bytes" where
  "extractBits_into src bitOffset bitLength n =
     (let out = replicate n 0;
          valueBytes = min n ((unat bitLength + 7) div 8)
      in if unat bitOffset mod 8 = 0 \<and> unat bitLength mod 8 = 0
         then let byteOffset = unat bitOffset div 8
              in fold (\<lambda>i out. out[i := src ! (byteOffset + i)])
                   [0..<min valueBytes (length src - byteOffset)] out
         else extract_loop src bitOffset valueBytes 0 (unat bitLength) out)"

definition extractBits :: "bytes \<Rightarrow> u32 \<Rightarrow> u16 \<Rightarrow> bytes" where
  "extractBits src bitOffset bitLength =
     extractBits_into src bitOffset bitLength ((unat bitLength + 7) div 8)"

fun insert_loop :: "bytes \<Rightarrow> u32 \<Rightarrow> nat \<Rightarrow> nat \<Rightarrow> bytes \<Rightarrow> bytes" where
  "insert_loop value bitOffset i 0 dst = dst"
| "insert_loop value bitOffset i (Suc left) dst =
     (let dstBit = (unat bitOffset + i) mod 2 ^ 32; dstByte = dstBit div 8
      in if dstByte \<ge> length dst then dst
         else let b = (if i div 8 < length value then drop_bit (i mod 8) (value ! (i div 8)) AND 1 else 0);
                  mask = push_bit (dstBit mod 8) 1
              in insert_loop value bitOffset (Suc i) left
                   (dst[dstByte := (dst ! dstByte AND NOT mask) OR (if b \<noteq> 0 then mask else 0)]))"

definition insertBits :: "bytes \<Rightarrow> u32 \<Rightarrow> u16 \<Rightarrow> bytes \<Rightarrow> bytes" where
  "insertBits dst bitOffset bitLength value =
     (if unat bitOffset mod 8 = 0 \<and> unat bitLength mod 8 = 0
      then let byteOffset = unat bitOffset div 8; n = unat bitLength div 8
           in fold (\<lambda>i dst. dst[byteOffset + i := (if i < length value then value ! i else 0)])
                [0..<min n (length dst - byteOffset)] dst
      else insert_loop value bitOffset 0 (unat bitLength) dst)"

section \<open>Bits of the results\<close>

lemma bit_byte_index: "bit (x :: u8) n \<Longrightarrow> n < 8"
  using bit_imp_le_length by fastforce

lemma buf_bit_or_at:
  assumes "i div 8 < length out" and "b = 0 \<or> b = 1"
  shows "buf_bit (out[i div 8 := out ! (i div 8) OR push_bit (i mod 8) b]) k
           \<longleftrightarrow> buf_bit out k \<or> (k = i \<and> b = 1)"
proof (cases "k div 8 = i div 8")
  case True
  then have "k = i \<longleftrightarrow> k mod 8 = i mod 8" by (metis div_mult_mod_eq)
  with True assms show ?thesis
    by (auto simp: buf_bit_def bit_simps)
next
  case False
  then show ?thesis by (auto simp: buf_bit_def nth_list_update)
qed

lemma buf_bit_set_at:
  assumes "j div 8 < length dst"
  shows "buf_bit (dst[j div 8 := (dst ! (j div 8) AND NOT (push_bit (j mod 8) 1))
                                  OR (if c then push_bit (j mod 8) 1 else 0)]) k
           \<longleftrightarrow> (if k = j then c else buf_bit dst k)"
proof (cases "k div 8 = j div 8")
  case True
  then have "k = j \<longleftrightarrow> k mod 8 = j mod 8" by (metis div_mult_mod_eq)
  with True assms show ?thesis
    by (auto simp: buf_bit_def bit_simps)
next
  case False
  then show ?thesis by (auto simp: buf_bit_def nth_list_update)
qed

lemma low_bit: "drop_bit n (x :: u8) AND 1 = (if bit x n then 1 else 0)"
  by (simp add: and_one_eq bit_iff_odd_drop_bit mod_2_eq_odd)

lemma length_extract_loop [simp]: "length (extract_loop src off vb i left out) = length out"
  by (induction src off vb i left out rule: extract_loop.induct) (simp_all add: Let_def)

lemma length_insert_loop [simp]: "length (insert_loop val off i left dst) = length dst"
  by (induction val off i left dst rule: insert_loop.induct) (simp_all add: Let_def)

lemma buf_bit_extract_loop:
  assumes "vb \<le> length out" and "unat off + i + left \<le> 2 ^ 32"
  shows "buf_bit (extract_loop src off vb i left out) k \<longleftrightarrow>
           buf_bit out k \<or> (i \<le> k \<and> k < i + left \<and> k div 8 < vb \<and> buf_bit src (unat off + k))"
  using assms
proof (induction left arbitrary: i out)
  case (Suc left)
  let ?sb = "unat off + i"
  have wrap: "?sb mod 2 ^ 32 = ?sb" using Suc.prems by simp
  show ?case
  proof (cases "?sb div 8 \<ge> length src \<or> i div 8 \<ge> vb")
    case True
    have "\<not> (k div 8 < vb \<and> buf_bit src (unat off + k))" if "i \<le> k"
      using True that div_le_mono [of i k 8] div_le_mono [of ?sb "unat off + k" 8]
      by (auto simp: buf_bit_def)
    with True wrap show ?thesis by (auto simp: Let_def)
  next
    case False
    let ?b = "drop_bit (?sb mod 8) (src ! (?sb div 8)) AND 1"
    have b: "?b = 1 \<longleftrightarrow> buf_bit src ?sb" "?b = 0 \<or> ?b = 1"
      using False by (auto simp: low_bit buf_bit_def)
    let ?out = "out[i div 8 := out ! (i div 8) OR push_bit (i mod 8) ?b]"
    have step: "extract_loop src off vb i (Suc left) out = extract_loop src off vb (Suc i) left ?out"
      using False wrap by (simp add: Let_def)
    have "buf_bit (extract_loop src off vb (Suc i) left ?out) k \<longleftrightarrow>
        buf_bit ?out k \<or> (Suc i \<le> k \<and> k < Suc i + left \<and> k div 8 < vb \<and> buf_bit src (unat off + k))"
      using Suc.prems by (intro Suc.IH) simp_all
    moreover have "buf_bit ?out k \<longleftrightarrow> buf_bit out k \<or> (k = i \<and> buf_bit src ?sb)"
      using buf_bit_or_at [of i out ?b k] b False Suc.prems(1) by simp
    ultimately show ?thesis
      unfolding step using False by (auto simp: Suc_le_eq dest: le_neq_implies_less)
  qed
qed auto

lemma buf_bit_insert_loop:
  assumes "unat off + i + left \<le> 2 ^ 32"
  shows "buf_bit (insert_loop val off i left dst) k \<longleftrightarrow>
           (if unat off + i \<le> k \<and> k < unat off + i + left \<and> k div 8 < length dst
            then buf_bit val (k - unat off) else buf_bit dst k)"
  using assms
proof (induction left arbitrary: i dst)
  case (Suc left)
  let ?db = "unat off + i"
  have wrap: "?db mod 2 ^ 32 = ?db" using Suc.prems by simp
  show ?case
  proof (cases "?db div 8 \<ge> length dst")
    case True
    then have "\<not> (?db \<le> k \<and> k div 8 < length dst)"
      using div_le_mono [of ?db k 8] by auto
    with True wrap show ?thesis by (auto simp: Let_def)
  next
    case False
    let ?b = "if i div 8 < length val then drop_bit (i mod 8) (val ! (i div 8)) AND 1 else 0"
    let ?m = "push_bit (?db mod 8) 1"
    let ?dst = "dst[?db div 8 := (dst ! (?db div 8) AND NOT ?m) OR (if ?b \<noteq> 0 then ?m else 0)]"
    have b: "?b \<noteq> 0 \<longleftrightarrow> buf_bit val i"
      by (auto simp: low_bit buf_bit_def)
    have step: "insert_loop val off i (Suc left) dst = insert_loop val off (Suc i) left ?dst"
      using False wrap by (simp add: Let_def)
    have "buf_bit (insert_loop val off (Suc i) left ?dst) k \<longleftrightarrow>
        (if unat off + Suc i \<le> k \<and> k < unat off + Suc i + left \<and> k div 8 < length ?dst
         then buf_bit val (k - unat off) else buf_bit ?dst k)"
      using Suc.prems by (intro Suc.IH) simp_all
    moreover have "buf_bit ?dst k \<longleftrightarrow> (if k = ?db then buf_bit val i else buf_bit dst k)"
      using buf_bit_set_at [of ?db dst "?b \<noteq> 0" k] b False by simp
    ultimately show ?thesis
      unfolding step using False by (auto simp: Suc_le_eq)
  qed
qed auto

text \<open>The byte loops, as one shifted copy.\<close>

lemma copy_loop:
  assumes "\<And>i. i < n \<Longrightarrow> off + i < length dst"
  shows "fold (\<lambda>i dst. dst[off + i := f i]) [0..<n] dst =
           map (\<lambda>j. if off \<le> j \<and> j < off + n then f (j - off) else dst ! j) [0..<length dst]"
  using assms
proof (induction n)
  case 0
  show ?case by (auto intro!: nth_equalityI)
next
  case (Suc n)
  then have "fold (\<lambda>i dst. dst[off + i := f i]) [0..<n] dst =
      map (\<lambda>j. if off \<le> j \<and> j < off + n then f (j - off) else dst ! j) [0..<length dst]"
    by simp
  then show ?case
    using Suc.prems by (auto intro!: nth_equalityI simp: nth_list_update)
qed

lemma length_extractBits_into [simp]: "length (extractBits_into src off len n) = n"
proof -
  have "length (fold (\<lambda>i out. out[i := g i]) xs out) = length out" for g :: "nat \<Rightarrow> u8" and xs out
    by (induction xs arbitrary: out) simp_all
  then show ?thesis by (simp add: extractBits_into_def Let_def)
qed

lemma length_insertBits [simp]: "length (insertBits dst off len val) = length dst"
proof -
  have "length (fold (\<lambda>i d. d[h i := g i]) xs d) = length d" for g :: "nat \<Rightarrow> u8" and h xs d
    by (induction xs arbitrary: d) simp_all
  then show ?thesis by (simp add: insertBits_def Let_def)
qed

lemma buf_bit_map_upt:
  "buf_bit (map f [0..<n]) k \<longleftrightarrow> k div 8 < n \<and> bit (f (k div 8)) (k mod 8)"
  by (cases "k div 8 < n") (simp_all add: buf_bit_def)

lemma buf_bit_replicate_0 [simp]: "\<not> buf_bit (replicate n 0) k"
  by (simp add: buf_bit_def)

lemma buf_bit_extractBits_into:
  assumes "unat off + unat len \<le> 2 ^ 32"
  shows "buf_bit (extractBits_into src off len n) k \<longleftrightarrow>
           k < unat len \<and> k < 8 * n \<and> buf_bit src (unat off + k)"
proof (cases "unat off mod 8 = 0 \<and> unat len mod 8 = 0")
  case True
  then obtain bo m where o: "unat off = 8 * bo" and l: "unat len = 8 * m"
    by (metis dvd_def mod_0_imp_dvd)
  let ?c = "min (min n m) (length src - bo)"
  have vb: "(8 * m + 7) div 8 = m" by simp
  have "extractBits_into src off len n =
      map (\<lambda>j. if j < ?c then src ! (bo + j) else 0) [0..<n]"
    unfolding extractBits_into_def Let_def o l vb
    using copy_loop [of ?c 0 "replicate n 0" "\<lambda>i. src ! (bo + i)"]
    by (auto intro!: map_cong)
  then have "buf_bit (extractBits_into src off len n) k \<longleftrightarrow>
      k div 8 < n \<and> k div 8 < m \<and> bo + k div 8 < length src \<and> bit (src ! (bo + k div 8)) (k mod 8)"
    by (auto simp: buf_bit_map_upt)
  moreover have "k < 8 * m \<longleftrightarrow> k div 8 < m" "k < 8 * n \<longleftrightarrow> k div 8 < n" by auto
  ultimately show ?thesis
    by (auto simp: o l buf_bit_def)
next
  case False
  let ?vb = "min n ((unat len + 7) div 8)"
  have "k < unat len \<Longrightarrow> k div 8 < ?vb \<longleftrightarrow> k < 8 * n" by auto
  moreover have "buf_bit (extract_loop src off ?vb 0 (unat len) (replicate n 0)) k \<longleftrightarrow>
      k < unat len \<and> k div 8 < ?vb \<and> buf_bit src (unat off + k)"
    using buf_bit_extract_loop [of ?vb "replicate n 0" off 0 "unat len" src k] assms by simp
  ultimately show ?thesis
    unfolding extractBits_into_def Let_def if_not_P [OF False] by blast
qed

lemma buf_bit_insertBits:
  assumes "unat off + unat len \<le> 2 ^ 32"
  shows "buf_bit (insertBits dst off len val) k \<longleftrightarrow>
           (if unat off \<le> k \<and> k < unat off + unat len \<and> k < 8 * length dst
            then buf_bit val (k - unat off) else buf_bit dst k)"
proof (cases "unat off mod 8 = 0 \<and> unat len mod 8 = 0")
  case True
  then obtain bo m where o: "unat off = 8 * bo" and l: "unat len = 8 * m"
    by (metis dvd_def mod_0_imp_dvd)
  let ?f = "\<lambda>i. if i < length val then val ! i else 0"
  have "insertBits dst off len val =
      map (\<lambda>j. if bo \<le> j \<and> j < bo + m then ?f (j - bo) else dst ! j) [0..<length dst]"
    unfolding insertBits_def Let_def o l by (subst copy_loop) (auto intro!: map_cong)
  then have "buf_bit (insertBits dst off len val) k \<longleftrightarrow> k div 8 < length dst \<and>
      bit (if bo \<le> k div 8 \<and> k div 8 < bo + m then ?f (k div 8 - bo) else dst ! (k div 8)) (k mod 8)"
    by (simp only: buf_bit_map_upt)
  moreover have "8 * bo \<le> k \<longleftrightarrow> bo \<le> k div 8" "k < 8 * bo + 8 * m \<longleftrightarrow> k div 8 < bo + m"
    "k < 8 * length dst \<longleftrightarrow> k div 8 < length dst" by auto
  moreover have "(k - 8 * bo) div 8 = k div 8 - bo" "(k - 8 * bo) mod 8 = k mod 8" if "8 * bo \<le> k"
    using le_Suc_ex [OF that] by auto
  ultimately show ?thesis
    by (simp add: o l buf_bit_def)
next
  case False
  have "k < 8 * length dst \<longleftrightarrow> k div 8 < length dst" by auto
  then show ?thesis
    unfolding insertBits_def if_not_P [OF False]
    using buf_bit_insert_loop [of off 0 "unat len" val dst k] assms by simp
qed

section \<open>What the image contains\<close>

text \<open>
  The abstract image: each device with a mapping contributes, in bus order, its entries that are
  not padding, moved to the start of its window.
\<close>

definition has_mapping :: "image_device \<Rightarrow> bool" where
  "has_mapping d \<longleftrightarrow> fpm_outputs (idev_flatPdoMapping d) \<noteq> [] \<or> fpm_inputs (idev_flatPdoMapping d) \<noteq> []"

definition bound_entries :: "image_device \<Rightarrow> u32 \<Rightarrow> PdoMappingEntry list \<Rightarrow> ProcessImageEntry list" where
  "bound_entries d off es = map (image_entry d (off * 8)) (filter (\<lambda>e. \<not> isPadding d e) es)"

definition device_outputs :: "PdoLayout \<Rightarrow> image_device \<Rightarrow> ProcessImageEntry list" where
  "device_outputs layout d =
     (case find_window (pl_slaves layout) (idev_slavePosition d) of
        None \<Rightarrow> []
      | Some io \<Rightarrow> bound_entries d (sio_outputOffset io) (fpm_outputs (idev_flatPdoMapping d)))"

definition device_inputs :: "PdoLayout \<Rightarrow> image_device \<Rightarrow> ProcessImageEntry list" where
  "device_inputs layout d =
     (case find_window (pl_slaves layout) (idev_slavePosition d) of
        None \<Rightarrow> []
      | Some io \<Rightarrow> bound_entries d (sio_inputOffset io) (fpm_inputs (idev_flatPdoMapping d)))"

definition device_fits :: "PdoLayout \<Rightarrow> image_device \<Rightarrow> bool" where
  "device_fits layout d \<longleftrightarrow>
     (if has_mapping d
      then case find_window (pl_slaves layout) (idev_slavePosition d) of
             None \<Rightarrow> False
           | Some io \<Rightarrow>
               fpm_outputBits (idev_flatPdoMapping d) \<le> sio_outputBytes io * 8
             \<and> fpm_inputBits (idev_flatPdoMapping d) \<le> sio_inputBytes io * 8
      else True)"

lemma append_loop_eq:
  "append_loop d off es out p =
     (out @ map (image_entry d off) (filter (\<lambda>e. \<not> isPadding d e) es),
      p + of_nat (length (filter (\<lambda>e. isPadding d e \<and> pme_index e \<noteq> 0) es)))"
  by (induction es arbitrary: out p) auto

lemma appendEntries_Inr:
  "appendEntries out d es bits off bytes = Inr r \<longleftrightarrow>
     bits \<le> bytes * 8 \<and> r = append_loop d (off * 8) es out 0"
  by (auto simp: appendEntries_def)

lemma build_device_eq:
  "build_device layout d img = Inr img' \<longleftrightarrow>
     device_fits layout d
   \<and> img' = img\<lparr>pi_outputs := pi_outputs img @ device_outputs layout d,
                pi_inputs := pi_inputs img @ device_inputs layout d\<rparr>"
  by (auto simp: build_device_def device_fits_def has_mapping_def device_outputs_def
      device_inputs_def bound_entries_def appendEntries_def append_loop_eq Let_def
      split: option.splits)

lemma build_devices_eq:
  "build_devices layout ds img = Inr img' \<longleftrightarrow>
     list_all (device_fits layout) ds
   \<and> img' = img\<lparr>pi_outputs := pi_outputs img @ concat (map (device_outputs layout) ds),
                pi_inputs := pi_inputs img @ concat (map (device_inputs layout) ds)\<rparr>"
proof (induction ds arbitrary: img)
  case (Cons d ds)
  show ?case
  proof (cases "build_device layout d img")
    case (Inl e)
    then have "\<not> device_fits layout d" using build_device_eq [of layout d img] by auto
    with Inl show ?thesis by simp
  next
    case (Inr img1)
    with build_device_eq [of layout d img img1] show ?thesis by (simp add: Cons.IH)
  qed
qed auto

lemma buildProcessImage_eq:
  "buildProcessImage layout devices = Inr img \<longleftrightarrow>
     unat (pl_outputBytes layout) + unat (pl_inputBytes layout) \<le> kMaxProcessImageBytes
   \<and> list_all (device_fits layout) devices
   \<and> img = \<lparr>pi_outputs = concat (map (device_outputs layout) devices),
            pi_inputs = concat (map (device_inputs layout) devices),
            pi_outputBytes = pl_outputBytes layout, pi_inputBytes = pl_inputBytes layout,
            pi_expectedWkc = pl_expectedWkc layout\<rparr>"
  by (auto simp: buildProcessImage_def build_devices_eq)

subsection \<open>Fields of the image\<close>

text \<open>The bits an entry occupies, and the two promises the exchange rests on.\<close>

definition entry_start :: "ProcessImageEntry \<Rightarrow> nat" where
  "entry_start e = unat (pie_bitOffset e)"

definition entry_end :: "ProcessImageEntry \<Rightarrow> nat" where
  "entry_end e = unat (pie_bitOffset e) + unat (pie_bitLength e)"

definition entries_apart :: "ProcessImageEntry \<Rightarrow> ProcessImageEntry \<Rightarrow> bool" where
  "entries_apart a b \<longleftrightarrow> entry_end a \<le> entry_start b \<or> entry_end b \<le> entry_start a"

definition image_fields_ok :: "nat \<Rightarrow> ProcessImageEntry list \<Rightarrow> bool" where
  "image_fields_ok bytes es \<longleftrightarrow>
     list_all (\<lambda>e. entry_end e \<le> 8 * bytes) es \<and> sorted_wrt entries_apart es"

text \<open>
  What the driver and the mapping reader hand over: windows inside the image of their direction and
  apart from each other, and entries laid one after the other from bit 0 of the window.
\<close>

definition windows_apart :: "SlaveIo \<Rightarrow> SlaveIo \<Rightarrow> bool" where
  "windows_apart a b \<longleftrightarrow>
     (unat (sio_outputOffset a) + unat (sio_outputBytes a) \<le> unat (sio_outputOffset b)
      \<or> unat (sio_outputOffset b) + unat (sio_outputBytes b) \<le> unat (sio_outputOffset a))
   \<and> (unat (sio_inputOffset a) + unat (sio_inputBytes a) \<le> unat (sio_inputOffset b)
      \<or> unat (sio_inputOffset b) + unat (sio_inputBytes b) \<le> unat (sio_inputOffset a))"

definition layout_ok :: "PdoLayout \<Rightarrow> bool" where
  "layout_ok layout \<longleftrightarrow>
     list_all (\<lambda>s. unat (sio_outputOffset s) + unat (sio_outputBytes s) \<le> unat (pl_outputBytes layout)
                 \<and> unat (sio_inputOffset s) + unat (sio_inputBytes s) \<le> unat (pl_inputBytes layout))
       (pl_slaves layout)
   \<and> sorted_wrt windows_apart (pl_slaves layout)"

fun running_offsets :: "nat \<Rightarrow> PdoMappingEntry list \<Rightarrow> nat option" where
  "running_offsets n [] = Some n"
| "running_offsets n (e # es) =
     (if unat (pme_bitOffset e) = n then running_offsets (n + unat (pme_bitLength e)) es else None)"

definition mapping_ok :: "FlatPdoMapping \<Rightarrow> bool" where
  "mapping_ok m \<longleftrightarrow>
     running_offsets 0 (fpm_outputs m) = Some (unat (fpm_outputBits m))
   \<and> running_offsets 0 (fpm_inputs m) = Some (unat (fpm_inputBits m))"

lemma unat_u8_u16 [simp]: "unat (ucast (x :: u8) :: u16) = unat x"
  by transfer simp

lemma running_offsets_le: "running_offsets n es = Some m \<Longrightarrow> n \<le> m"
  by (induction es arbitrary: n) (fastforce split: if_splits)+

lemma running_offsets_bounds:
  "running_offsets n es = Some m \<Longrightarrow> e \<in> set es \<Longrightarrow>
     n \<le> unat (pme_bitOffset e) \<and> unat (pme_bitOffset e) + unat (pme_bitLength e) \<le> m"
proof (induction es arbitrary: n)
  case (Cons a es)
  then show ?case using running_offsets_le by (fastforce split: if_splits)
qed simp

lemma running_offsets_sorted:
  "running_offsets n es = Some m \<Longrightarrow>
     sorted_wrt (\<lambda>a b. unat (pme_bitOffset a) + unat (pme_bitLength a) \<le> unat (pme_bitOffset b)) es"
proof (induction es arbitrary: n)
  case (Cons a es)
  then have "running_offsets (n + unat (pme_bitLength a)) es = Some m" "unat (pme_bitOffset a) = n"
    by (simp_all split: if_splits)
  then show ?case using Cons.IH running_offsets_bounds by fastforce
qed simp

lemma entries_apart_sym: "entries_apart a b = entries_apart b a"
  by (auto simp: entries_apart_def)

lemma window_bits:
  fixes off bytes bits :: u32
  assumes "unat off + unat bytes \<le> kMaxProcessImageBytes"
  shows "unat (off * 8) = 8 * unat off" and "unat (bytes * 8) = 8 * unat bytes"
  using assms unfolding kMaxProcessImageBytes_def
  by (simp_all add: unat_mult_lem [THEN iffD1] mult.commute)

lemma bound_entry_position:
  fixes off bytes bits :: u32
  assumes "unat off + unat bytes \<le> kMaxProcessImageBytes"
    and "bits \<le> bytes * 8" and "running_offsets 0 es = Some (unat bits)" and "e \<in> set es"
  shows "entry_start (image_entry d (off * 8) e) = 8 * unat off + unat (pme_bitOffset e)"
    and "entry_end (image_entry d (off * 8) e) =
           8 * unat off + unat (pme_bitOffset e) + unat (pme_bitLength e)"
    and "entry_end (image_entry d (off * 8) e) \<le> 8 * (unat off + unat bytes)"
proof -
  note w = window_bits [OF assms(1)]
  have b: "unat (pme_bitOffset e) + unat (pme_bitLength e) \<le> unat bits"
    using running_offsets_bounds [OF assms(3,4)] by simp
  have "unat bits \<le> 8 * unat bytes" using assms(2) w(2) by (simp add: word_le_nat_alt)
  moreover have "unat (off * 8 + pme_bitOffset e) = 8 * unat off + unat (pme_bitOffset e)"
    using calculation b w(1) assms(1) unfolding kMaxProcessImageBytes_def
    by (simp add: unat_add_lem [THEN iffD1])
  moreover have "unat (ucast (pme_bitLength e) :: u16) = unat (pme_bitLength e)"
    by simp
  ultimately show "entry_start (image_entry d (off * 8) e) = 8 * unat off + unat (pme_bitOffset e)"
    and "entry_end (image_entry d (off * 8) e) =
           8 * unat off + unat (pme_bitOffset e) + unat (pme_bitLength e)"
    and "entry_end (image_entry d (off * 8) e) \<le> 8 * (unat off + unat bytes)"
    using b by (simp_all add: entry_start_def entry_end_def image_entry_def)
qed

lemma bound_entries_ok:
  fixes off bytes bits :: u32
  assumes "unat off + unat bytes \<le> kMaxProcessImageBytes"
    and "bits \<le> bytes * 8" and "running_offsets 0 es = Some (unat bits)"
  shows "\<forall>e\<in>set (bound_entries d off es). 8 * unat off \<le> entry_start e \<and> entry_end e \<le> 8 * (unat off + unat bytes)"
    and "sorted_wrt entries_apart (bound_entries d off es)"
proof -
  note pos = bound_entry_position [OF assms]
  show "\<forall>e\<in>set (bound_entries d off es). 8 * unat off \<le> entry_start e \<and> entry_end e \<le> 8 * (unat off + unat bytes)"
    using pos(1,3) by (auto simp: bound_entries_def)
  have "sorted_wrt (\<lambda>a b. unat (pme_bitOffset a) + unat (pme_bitLength a) \<le> unat (pme_bitOffset b))
          (filter (\<lambda>e. \<not> isPadding d e) es)"
    by (rule sorted_wrt_filter [OF running_offsets_sorted [OF assms(3)]])
  then show "sorted_wrt entries_apart (bound_entries d off es)"
    unfolding bound_entries_def sorted_wrt_map
    by (rule sorted_wrt_mono_rel [rotated]) (simp add: entries_apart_def pos(1,2))
qed

lemma sorted_wrt_concat_map:
  assumes "\<And>d. d \<in> set ds \<Longrightarrow> sorted_wrt R (f d)"
    and "\<And>d d' a b. d \<in> set ds \<Longrightarrow> d' \<in> set ds \<Longrightarrow> key d \<noteq> key d' \<Longrightarrow> a \<in> set (f d) \<Longrightarrow> b \<in> set (f d') \<Longrightarrow> R a b"
    and "distinct (map key ds)"
  shows "sorted_wrt R (concat (map f ds))"
  using assms
proof (induction ds)
  case (Cons d ds)
  have "R a b" if "a \<in> set (f d)" "d' \<in> set ds" "b \<in> set (f d')" for a b d'
    using Cons.prems(2) [of d d' a b] Cons.prems(3) that by auto
  moreover have "sorted_wrt R (concat (map f ds))"
    by (rule Cons.IH) (use Cons.prems in \<open>auto intro: Cons.prems(2)\<close>)
  ultimately show ?case using Cons.prems(1) [of d] by (auto simp: sorted_wrt_append)
qed simp

lemma find_window_Some:
  assumes "find_window slaves p = Some s"
  shows "s \<in> set slaves \<and> sio_slavePosition s = p"
  using assms by (auto simp: find_window_def find_Some_iff)

lemma windows_apart_of:
  assumes "sorted_wrt windows_apart slaves" "s \<in> set slaves" "s' \<in> set slaves" "s \<noteq> s'"
  shows "windows_apart s s'"
  using assms by (induction slaves) (auto simp: windows_apart_def)


text \<open>One direction of the bus, with the window of a device given by \<open>off\<close> and \<open>bytes\<close>.\<close>

lemma direction_fields_ok:
  fixes off bytes bits :: "image_device \<Rightarrow> u32"
  assumes fits: "\<And>d. d \<in> set ds \<Longrightarrow> unat (off d) + unat (bytes d) \<le> tot"
    and tot: "tot \<le> kMaxProcessImageBytes"
    and bits: "\<And>d. d \<in> set ds \<Longrightarrow> bits d \<le> bytes d * 8 \<and> running_offsets 0 (es d) = Some (unat (bits d))"
    and apart: "\<And>d d'. d \<in> set ds \<Longrightarrow> d' \<in> set ds \<Longrightarrow> idev_slavePosition d \<noteq> idev_slavePosition d' \<Longrightarrow>
      unat (off d) + unat (bytes d) \<le> unat (off d') \<or> unat (off d') + unat (bytes d') \<le> unat (off d)"
    and pos: "distinct (map idev_slavePosition ds)"
  shows "image_fields_ok tot (concat (map (\<lambda>d. bound_entries d (off d) (es d)) ds))"
proof -
  have win: "unat (off d) + unat (bytes d) \<le> kMaxProcessImageBytes" if "d \<in> set ds" for d
    using fits [OF that] tot by simp
  have inside: "8 * unat (off d) \<le> entry_start e \<and> entry_end e \<le> 8 * (unat (off d) + unat (bytes d))"
    if "d \<in> set ds" "e \<in> set (bound_entries d (off d) (es d))" for d e
    using bound_entries_ok(1) [OF win [OF that(1)]] bits [OF that(1)] that(2) by blast
  have "sorted_wrt entries_apart (concat (map (\<lambda>d. bound_entries d (off d) (es d)) ds))"
  proof (rule sorted_wrt_concat_map [where key = idev_slavePosition, OF _ _ pos])
    fix d d' a b
    assume "d \<in> set ds" "d' \<in> set ds" "idev_slavePosition d \<noteq> idev_slavePosition d'"
      "a \<in> set (bound_entries d (off d) (es d))" "b \<in> set (bound_entries d' (off d') (es d'))"
    then show "entries_apart a b"
      using apart [of d d'] inside [of d a] inside [of d' b] by (auto simp: entries_apart_def)
  qed (use bound_entries_ok(2) win bits in blast)
  moreover have "entry_end e \<le> 8 * tot" if "d \<in> set ds" "e \<in> set (bound_entries d (off d) (es d))" for d e
    using inside [OF that] fits [OF that(1)] by auto
  ultimately show ?thesis by (auto simp: image_fields_ok_def list_all_iff)
qed


definition window_field :: "(SlaveIo \<Rightarrow> u32) \<Rightarrow> PdoLayout \<Rightarrow> image_device \<Rightarrow> u32" where
  "window_field g layout d =
     (case find_window (pl_slaves layout) (idev_slavePosition d) of None \<Rightarrow> 0 | Some io \<Rightarrow> g io)"

lemma window_field_inside:
  assumes "layout_ok layout"
  shows "unat (window_field sio_outputOffset layout d) + unat (window_field sio_outputBytes layout d)
           \<le> unat (pl_outputBytes layout)"
    and "unat (window_field sio_inputOffset layout d) + unat (window_field sio_inputBytes layout d)
           \<le> unat (pl_inputBytes layout)"
  using assms find_window_Some [of "pl_slaves layout" "idev_slavePosition d"]
  by (auto simp: window_field_def layout_ok_def list_all_iff split: option.splits)

lemma window_fields_apart:
  assumes "layout_ok layout" and "idev_slavePosition d \<noteq> idev_slavePosition d'"
  shows "unat (window_field sio_outputOffset layout d) + unat (window_field sio_outputBytes layout d)
           \<le> unat (window_field sio_outputOffset layout d')
       \<or> unat (window_field sio_outputOffset layout d') + unat (window_field sio_outputBytes layout d')
           \<le> unat (window_field sio_outputOffset layout d)"
    and "unat (window_field sio_inputOffset layout d) + unat (window_field sio_inputBytes layout d)
           \<le> unat (window_field sio_inputOffset layout d')
       \<or> unat (window_field sio_inputOffset layout d') + unat (window_field sio_inputBytes layout d')
           \<le> unat (window_field sio_inputOffset layout d)"
proof -
  have "windows_apart io io'"
    if "find_window (pl_slaves layout) (idev_slavePosition d) = Some io"
      "find_window (pl_slaves layout) (idev_slavePosition d') = Some io'" for io io'
    using assms find_window_Some [OF that(1)] find_window_Some [OF that(2)]
    by (intro windows_apart_of [of "pl_slaves layout"]) (auto simp: layout_ok_def)
  then show "unat (window_field sio_outputOffset layout d) + unat (window_field sio_outputBytes layout d)
           \<le> unat (window_field sio_outputOffset layout d')
       \<or> unat (window_field sio_outputOffset layout d') + unat (window_field sio_outputBytes layout d')
           \<le> unat (window_field sio_outputOffset layout d)"
    and "unat (window_field sio_inputOffset layout d) + unat (window_field sio_inputBytes layout d)
           \<le> unat (window_field sio_inputOffset layout d')
       \<or> unat (window_field sio_inputOffset layout d') + unat (window_field sio_inputBytes layout d')
           \<le> unat (window_field sio_inputOffset layout d)"
    by (auto simp: window_field_def windows_apart_def split: option.splits)
qed

text \<open>A device that fits and has no window maps nothing.\<close>

lemma device_fits_fields:
  assumes "device_fits layout d" and "mapping_ok (idev_flatPdoMapping d)"
  shows "fpm_outputBits (idev_flatPdoMapping d) \<le> window_field sio_outputBytes layout d * 8
       \<and> running_offsets 0 (fpm_outputs (idev_flatPdoMapping d)) = Some (unat (fpm_outputBits (idev_flatPdoMapping d)))"
    and "fpm_inputBits (idev_flatPdoMapping d) \<le> window_field sio_inputBytes layout d * 8
       \<and> running_offsets 0 (fpm_inputs (idev_flatPdoMapping d)) = Some (unat (fpm_inputBits (idev_flatPdoMapping d)))"
    and "device_outputs layout d =
           bound_entries d (window_field sio_outputOffset layout d) (fpm_outputs (idev_flatPdoMapping d))"
    and "device_inputs layout d =
           bound_entries d (window_field sio_inputOffset layout d) (fpm_inputs (idev_flatPdoMapping d))"
  using assms
  by (auto simp: device_fits_def has_mapping_def mapping_ok_def window_field_def device_outputs_def
      device_inputs_def bound_entries_def unat_eq_0 split: option.splits if_splits)

lemma buildProcessImage_fields_ok:
  assumes lay: "layout_ok layout" and pos: "distinct (map idev_slavePosition devices)"
    and maps: "list_all (\<lambda>d. mapping_ok (idev_flatPdoMapping d)) devices"
    and img: "buildProcessImage layout devices = Inr img"
  shows "image_fields_ok (unat (pi_outputBytes img)) (pi_outputs img)"
    and "image_fields_ok (unat (pi_inputBytes img)) (pi_inputs img)"
proof -
  have tot: "unat (pl_outputBytes layout) + unat (pl_inputBytes layout) \<le> kMaxProcessImageBytes"
    and eq: "pi_outputs img = concat (map (device_outputs layout) devices)"
    "pi_inputs img = concat (map (device_inputs layout) devices)"
    "pi_outputBytes img = pl_outputBytes layout" "pi_inputBytes img = pl_inputBytes layout"
    using img by (auto simp: buildProcessImage_eq)
  have "device_fits layout d \<and> mapping_ok (idev_flatPdoMapping d)" if "d \<in> set devices" for d
    using img maps that by (auto simp: buildProcessImage_eq list_all_iff)
  then have fits: "device_fits layout d" "mapping_ok (idev_flatPdoMapping d)" if "d \<in> set devices" for d
    using that by auto
  note f = device_fits_fields [OF fits]
  have "image_fields_ok (unat (pl_outputBytes layout))
      (concat (map (\<lambda>d. bound_entries d (window_field sio_outputOffset layout d) (fpm_outputs (idev_flatPdoMapping d))) devices))"
    using tot by (intro direction_fields_ok [OF window_field_inside(1) [OF lay] _ f(1) window_fields_apart(1) [OF lay] pos]) auto
  then show "image_fields_ok (unat (pi_outputBytes img)) (pi_outputs img)"
    using f(3) by (simp add: eq cong: map_cong)
  have "image_fields_ok (unat (pl_inputBytes layout))
      (concat (map (\<lambda>d. bound_entries d (window_field sio_inputOffset layout d) (fpm_inputs (idev_flatPdoMapping d))) devices))"
    using tot by (intro direction_fields_ok [OF window_field_inside(2) [OF lay] _ f(2) window_fields_apart(2) [OF lay] pos]) auto
  then show "image_fields_ok (unat (pi_inputBytes img)) (pi_inputs img)"
    using f(4) by (simp add: eq cong: map_cong)
qed

section \<open>Properties\<close>

text \<open>
  C20: A value inserted into a field of the image is what extracting that field returns, cut to the
  field's width and zero-extended where the value is shorter; every field apart from it reads the
  same before and after.
\<close>

theorem insertBits_extractBits:
  assumes "unat off + unat len \<le> 8 * length dst" and "8 * length dst \<le> 2 ^ 32"
    and "unat off' + unat len' \<le> unat off \<or> unat off + unat len \<le> unat off'"
    and "unat off' + unat len' \<le> 2 ^ 32"
  shows "extractBits (insertBits dst off len val) off len = extractBits val 0 len
       \<and> extractBits (insertBits dst off len val) off' len' = extractBits dst off' len'"
  using assms
  by (auto simp: extractBits_def intro!: bytes_eq_by_bits)
    (auto simp: buf_bit_extractBits_into buf_bit_insertBits)

lemma extract_loop_numeral:
  "extract_loop src bitOffset valueBytes i (numeral l) out =
     (let srcBit = (unat bitOffset + i) mod 2 ^ 32; srcByte = srcBit div 8
      in if srcByte \<ge> length src \<or> i div 8 \<ge> valueBytes then out
         else let b = drop_bit (srcBit mod 8) (src ! srcByte) AND 1
              in extract_loop src bitOffset valueBytes (i + 1) (pred_numeral l)
                   (out[i div 8 := out ! (i div 8) OR push_bit (i mod 8) b]))"
  unfolding numeral_eq_Suc [of l] by (simp add: Let_def)

lemma replicate_2 [simp]: "replicate 2 x = [x, x]"
  by (simp add: numeral_2_eq_2)

lemma example_fields:
  "extractBits [0x15] 0 5 = [0x15]" "extractBits [0xFF, 0x00, 0xFF] 11 13 = [0xE0, 0x1F]"
  by (simp_all add: extractBits_def extractBits_into_def extract_loop_numeral Let_def)

theorem insertBits_extractBits_witness:
  "extractBits (insertBits [0xFF, 0x00, 0xFF] 6 5 [0x15]) 6 5 = [0x15]
   \<and> extractBits (insertBits [0xFF, 0x00, 0xFF] 6 5 [0x15]) 11 13 = [0xE0, 0x1F]"
  using insertBits_extractBits [of 6 5 "[0xFF, 0x00, 0xFF]" 11 13 "[0x15]"]
  by (simp add: example_fields)


text \<open>A bus of two drives, the second a SOMANET device whose mapping pads with \<open>0x2001\<close>.\<close>

definition example_layout :: PdoLayout where
  "example_layout =
     \<lparr>pl_outputBytes = 5, pl_inputBytes = 4,
      pl_slaves = [\<lparr>sio_slavePosition = 1, sio_outputOffset = 0, sio_outputBytes = 2,
                    sio_inputOffset = 0, sio_inputBytes = 2\<rparr>,
                   \<lparr>sio_slavePosition = 2, sio_outputOffset = 2, sio_outputBytes = 3,
                    sio_inputOffset = 2, sio_inputBytes = 2\<rparr>],
      pl_expectedWkc = 6\<rparr>"

definition mapping_entry :: "u16 \<Rightarrow> u8 \<Rightarrow> u8 \<Rightarrow> u32 \<Rightarrow> PdoMappingEntry" where
  "mapping_entry i s l b = \<lparr>pme_index = i, pme_subindex = s, pme_bitLength = l, pme_bitOffset = b\<rparr>"

definition example_devices :: "image_device list" where
  "example_devices =
     [\<lparr>idev_slavePosition = 1, idev_vendorId = 0x1,
       idev_flatPdoMapping = \<lparr>fpm_outputs = [mapping_entry 0x6040 0 16 0],
         fpm_inputs = [mapping_entry 0x6041 0 16 0], fpm_outputBits = 16, fpm_inputBits = 16\<rparr>,
       idev_findParameter = (\<lambda>i s. Some (unat i))\<rparr>,
      \<lparr>idev_slavePosition = 2, idev_vendorId = kSynapticonVendorId,
       idev_flatPdoMapping = \<lparr>fpm_outputs = [mapping_entry 0x6040 0 16 0, mapping_entry 0x2001 0 3 16],
         fpm_inputs = [mapping_entry 0x6041 0 16 0], fpm_outputBits = 19, fpm_inputBits = 16\<rparr>,
       idev_findParameter = (\<lambda>i s. None)\<rparr>]"

definition example_image :: ProcessImage where
  "example_image =
     \<lparr>pi_outputs = [\<lparr>pie_slavePosition = 1, pie_index = 0x6040, pie_subindex = 0, pie_bitLength = 16,
                     pie_bitOffset = 0, pie_parameter = Some 0x6040\<rparr>,
                    \<lparr>pie_slavePosition = 2, pie_index = 0x6040, pie_subindex = 0, pie_bitLength = 16,
                     pie_bitOffset = 16, pie_parameter = None\<rparr>],
      pi_inputs = [\<lparr>pie_slavePosition = 1, pie_index = 0x6041, pie_subindex = 0, pie_bitLength = 16,
                     pie_bitOffset = 0, pie_parameter = Some 0x6041\<rparr>,
                    \<lparr>pie_slavePosition = 2, pie_index = 0x6041, pie_subindex = 0, pie_bitLength = 16,
                     pie_bitOffset = 16, pie_parameter = None\<rparr>],
      pi_outputBytes = 5, pi_inputBytes = 4, pi_expectedWkc = 6\<rparr>"

lemmas example_bus = example_layout_def example_devices_def example_image_def mapping_entry_def

lemma example_image_built: "buildProcessImage example_layout example_devices = Inr example_image"
  by (simp add: example_bus buildProcessImage_def build_device_def appendEntries_def find_window_def
      isPadding_def isSomanetDevice_def kSynapticonVendorId_def kSensodriveVendorId_def
      kSomanetPaddingIndices_def kMaxProcessImageBytes_def image_entry_def)

lemma example_layout_ok: "layout_ok example_layout"
  by (simp add: layout_ok_def example_bus windows_apart_def)

lemma example_devices_ok:
  "distinct (map idev_slavePosition example_devices)"
  "list_all (\<lambda>d. mapping_ok (idev_flatPdoMapping d)) example_devices"
  by (simp_all add: example_bus mapping_ok_def)


lemma low_byte_mask: "(0xFF :: u32) = mask 8"
  by (simp add: mask_eq_exp_minus_1)

text \<open>
  Packing an entry into its 32-bit mapping word and unpacking it returns the entry with the
  derived bit offset cleared, and every 32-bit word is the packing of what it unpacks to.
\<close>

theorem mapping_word_round_trip:
  "unpackMappingEntry (packMappingEntry e) = e\<lparr>pme_bitOffset := 0\<rparr>
   \<and> packMappingEntry (unpackMappingEntry w) = w"
proof
  have "ucast (drop_bit 16 (packMappingEntry e)) = pme_index e"
    "ucast (drop_bit 8 (packMappingEntry e) AND 0xFF) = pme_subindex e"
    "ucast (packMappingEntry e AND 0xFF) = pme_bitLength e"
    by (rule bit_word_eqI; auto simp: packMappingEntry_def bit_simps low_byte_mask dest: bit_imp_le_length)+
  then show "unpackMappingEntry (packMappingEntry e) = e\<lparr>pme_bitOffset := 0\<rparr>"
    by (simp add: unpackMappingEntry_def)
next
  show "packMappingEntry (unpackMappingEntry w) = w"
  proof (rule bit_word_eqI)
    fix n :: nat
    consider "n < 8" | "8 \<le> n" "n < 16" | "16 \<le> n" by linarith
    then show "bit (packMappingEntry (unpackMappingEntry w)) n = bit w n" if "n < LENGTH(32)"
      by cases (use that in \<open>auto simp: packMappingEntry_def unpackMappingEntry_def bit_simps low_byte_mask\<close>)
  qed
qed

lemma find_index_None: "find_index P xs = None \<longleftrightarrow> (\<forall>x\<in>set xs. \<not> P x)"
  by (induction xs) auto

lemma find_index_Some:
  "find_index P xs = Some i \<Longrightarrow> i < length xs \<and> P (xs ! i) \<and> (\<forall>j<i. \<not> P (xs ! j))"
proof (induction xs arbitrary: i)
  case (Cons x xs)
  then show ?case by (auto simp: less_Suc_eq_0_disj split: if_splits)
qed simp

lemma image_find_None:
  "image_find img p i s = None \<longleftrightarrow>
     (\<forall>e\<in>set (pi_outputs img) \<union> set (pi_inputs img). \<not> entry_matches p i s e)"
proof (cases "find_index (entry_matches p i s) (pi_outputs img)")
  case None
  then have "\<forall>e\<in>set (pi_outputs img). \<not> entry_matches p i s e" by (simp add: find_index_None)
  with None show ?thesis
    by (auto simp: image_find_def find_index_None [of _ "pi_inputs img"])
next
  case (Some k)
  with find_index_Some [OF Some] show ?thesis by (auto simp: image_find_def intro!: bexI [OF _ nth_mem])
qed

lemma bound_entries_not_padding:
  "e \<in> set (bound_entries d off es) \<Longrightarrow>
     pie_index e \<noteq> 0 \<and> pie_slavePosition e = idev_slavePosition d
   \<and> \<not> (isSomanetDevice (idev_vendorId d) \<and> pie_index e \<in> set kSomanetPaddingIndices)"
  by (auto simp: bound_entries_def image_entry_def isPadding_def)

lemma image_entries_not_padding:
  assumes "buildProcessImage layout devices = Inr img" and "distinct (map idev_slavePosition devices)"
    and "d \<in> set devices" and "e \<in> set (pi_outputs img) \<union> set (pi_inputs img)"
    and "pie_slavePosition e = idev_slavePosition d"
  shows "pie_index e \<noteq> 0 \<and> \<not> (isSomanetDevice (idev_vendorId d) \<and> pie_index e \<in> set kSomanetPaddingIndices)"
proof -
  obtain d' where d': "d' \<in> set devices" "e \<in> set (device_outputs layout d') \<union> set (device_inputs layout d')"
    using assms(1,4) by (auto simp: buildProcessImage_eq)
  then have nopad: "pie_index e \<noteq> 0 \<and> pie_slavePosition e = idev_slavePosition d'
      \<and> \<not> (isSomanetDevice (idev_vendorId d') \<and> pie_index e \<in> set kSomanetPaddingIndices)"
    by (auto simp: device_outputs_def device_inputs_def dest!: bound_entries_not_padding split: option.splits)
  moreover have "d' = d"
    using assms(2,3,5) d'(1) nopad by (auto simp: distinct_map dest: inj_onD)
  ultimately show ?thesis by simp
qed

text \<open>
  Looking an object up in a built image finds it exactly when some device entry that is not
  padding names it: a mapped object resolves to an entry with its address and to the bits of that
  entry, outputs first, and a padding index of a SOMANET device resolves to nothing.
\<close>

theorem image_find_resolves:
  assumes "buildProcessImage layout devices = Inr img" and "distinct (map idev_slavePosition devices)"
    and "d \<in> set devices"
  shows "(case image_find img (idev_slavePosition d) i s of
            None \<Rightarrow> isPadding d (mapping_entry i s l b)
                  \<or> list_all (\<lambda>e. (pme_index e, pme_subindex e) \<noteq> (i, s))
                      (fpm_outputs (idev_flatPdoMapping d) @ fpm_inputs (idev_flatPdoMapping d))
          | Some loc \<Rightarrow>
              \<not> isPadding d (mapping_entry i s l b)
            \<and> (let es = (if loc_isOutput loc then pi_outputs img else pi_inputs img); k = loc_entryIndex loc
               in k < length es \<and> entry_matches (idev_slavePosition d) i s (es ! k)
                  \<and> loc_bitOffset loc = pie_bitOffset (es ! k) \<and> loc_bitLength loc = pie_bitLength (es ! k)))"
proof (cases "image_find img (idev_slavePosition d) i s")
  case None
  have "isPadding d (mapping_entry i s l b)"
    if e: "e \<in> set (fpm_outputs (idev_flatPdoMapping d) @ fpm_inputs (idev_flatPdoMapping d))"
      "pme_index e = i" "pme_subindex e = s" for e
  proof (rule ccontr)
    assume np: "\<not> isPadding d (mapping_entry i s l b)"
    then have np': "\<not> isPadding d e" using e by (simp add: isPadding_def mapping_entry_def)
    have "device_fits layout d" "has_mapping d"
      using assms(1,3) e by (auto simp: buildProcessImage_eq list_all_iff has_mapping_def)
    then obtain off where "image_entry d off e \<in> set (device_outputs layout d) \<union> set (device_inputs layout d)"
      using e np' by (auto simp: device_fits_def device_outputs_def device_inputs_def bound_entries_def split: option.splits)
    then have "image_entry d off e \<in> set (pi_outputs img) \<union> set (pi_inputs img)"
      using assms(1,3) by (auto simp: buildProcessImage_eq)
    then have "\<not> entry_matches (idev_slavePosition d) i s (image_entry d off e)"
      using None unfolding image_find_None by blast
    then show False using e by (simp add: entry_matches_def image_entry_def)
  qed
  with None show ?thesis by (auto simp: list_all_iff)
next
  case (Some loc)
  let ?es = "if loc_isOutput loc then pi_outputs img else pi_inputs img"
  have loc: "loc_entryIndex loc < length ?es" "entry_matches (idev_slavePosition d) i s (?es ! loc_entryIndex loc)"
    "loc_bitOffset loc = pie_bitOffset (?es ! loc_entryIndex loc)"
    "loc_bitLength loc = pie_bitLength (?es ! loc_entryIndex loc)"
    using Some by (auto simp: image_find_def location_of_def dest: find_index_Some split: option.splits)
  then have "?es ! loc_entryIndex loc \<in> set (pi_outputs img) \<union> set (pi_inputs img)"
    by (auto split: if_splits)
  from image_entries_not_padding [OF assms this] loc(2)
  have "\<not> isPadding d (mapping_entry i s l b)"
    by (auto simp: entry_matches_def isPadding_def mapping_entry_def)
  with Some loc show ?thesis by simp
qed

theorem image_find_resolves_witness:
  "image_find example_image 2 0x2001 0 = None
   \<and> isPadding (example_devices ! 1) (mapping_entry 0x2001 0 3 16)"
  using image_find_resolves [OF example_image_built example_devices_ok(1), of "example_devices ! 1" "0x2001" 0 3 16]
  by (simp add: example_bus image_find_def entry_matches_def isPadding_def isSomanetDevice_def kSynapticonVendorId_def kSomanetPaddingIndices_def)

lemma unat_u16_u32 [simp]: "unat (ucast (x :: u16) :: u32) = unat x"
  by transfer simp

text \<open>The bytes \<^verbatim>\<open>processDataLayout\<close> of the SOEM driver reserves for a direction of \<open>bits\<close> mapped bits.\<close>

definition soem_window_bytes :: "u16 \<Rightarrow> u32" where
  "soem_window_bytes bits = (if bits > 7 then (ucast bits + 7) div 8 else 0)"

text \<open>
  C21: With the windows the SOEM driver reports, a device that maps one to seven output bits makes
  \<^verbatim>\<open>buildProcessImage\<close> fail for the whole bus: its window has no bytes, so its mapping never fits.
\<close>

theorem sub_byte_mapping_refused:
  assumes "d \<in> set devices" and "find_window (pl_slaves layout) (idev_slavePosition d) = Some io"
    and "fpm_outputs (idev_flatPdoMapping d) \<noteq> []"
    and "fpm_outputBits (idev_flatPdoMapping d) = ucast bits" and "0 < bits" and "bits < 8"
    and "sio_outputBytes io = soem_window_bytes bits"
  shows "\<not> isOk (buildProcessImage layout devices)"
proof -
  have "\<not> bits > 7" using assms(6) by (simp add: word_less_nat_alt)
  then have "sio_outputBytes io * 8 = 0" using assms(7) by (simp add: soem_window_bytes_def)
  moreover have "(ucast bits :: u32) \<noteq> 0"
    using assms(5) unat_u16_u32 [of bits] by (metis unsigned_0 unsigned_eq_0_iff word_less_def less_irrefl)
  ultimately have "\<not> device_fits layout d"
    using assms(2,3,4) by (simp add: device_fits_def has_mapping_def)
  then have "buildProcessImage layout devices \<noteq> Inr img" for img
    using assms(1) by (auto simp: buildProcessImage_eq list_all_iff)
  then show ?thesis by (cases "buildProcessImage layout devices") auto
qed

definition single_output_device :: image_device where
  "single_output_device =
     \<lparr>idev_slavePosition = 3, idev_vendorId = 1,
      idev_flatPdoMapping = \<lparr>fpm_outputs = [mapping_entry 0x60FE 1 1 0], fpm_inputs = [],
                            fpm_outputBits = 1, fpm_inputBits = 0\<rparr>,
      idev_findParameter = (\<lambda>i s. None)\<rparr>"

definition single_output_window :: SlaveIo where
  "single_output_window = \<lparr>sio_slavePosition = 3, sio_outputOffset = 0,
     sio_outputBytes = soem_window_bytes 1, sio_inputOffset = 0, sio_inputBytes = 0\<rparr>"

theorem sub_byte_mapping_refused_witness:
  "\<not> isOk (buildProcessImage (example_layout\<lparr>pl_slaves := pl_slaves example_layout @ [single_output_window]\<rparr>)
            (example_devices @ [single_output_device]))"
  by (rule sub_byte_mapping_refused [of single_output_device _ _ single_output_window 1])
    (simp_all add: single_output_device_def single_output_window_def example_layout_def find_window_def)

end
