(* ===== verification/Byte_Codec.thy ===== *)
theory Byte_Codec
  imports MM_Prelude
begin

text \<open>
  What \<^verbatim>\<open>memcpy\<close> and the shift-and-mask readers and writers of the wire formats do: little- and
  big-endian integers of any width as byte lists, slices of a buffer, and stores into one. The
  native representation that \<^verbatim>\<open>memcpy\<close> of an integer moves is little-endian, as on every target the
  build supports.
\<close>

unbundle bit_operations_syntax

section \<open>Integers as bytes\<close>

definition le_bytes :: "nat \<Rightarrow> 'a :: len word \<Rightarrow> bytes" where
  "le_bytes n w = map (\<lambda>i. ucast (drop_bit (8 * i) w)) [0..<n]"

definition le_word :: "bytes \<Rightarrow> 'a :: len word" where
  "le_word bs = foldr (\<lambda>b w. ucast b OR push_bit 8 w) bs 0"

definition be_bytes :: "nat \<Rightarrow> 'a :: len word \<Rightarrow> bytes" where
  "be_bytes n w = rev (le_bytes n w)"

definition be_word :: "bytes \<Rightarrow> 'a :: len word" where
  "be_word bs = le_word (rev bs)"

lemma length_le_bytes [simp]: "length (le_bytes n w) = n"
  by (simp add: le_bytes_def)

lemma length_be_bytes [simp]: "length (be_bytes n w) = n"
  by (simp add: be_bytes_def)

lemma buf_bit_Cons:
  "buf_bit (b # bs) k \<longleftrightarrow> (if k < 8 then bit b k else buf_bit bs (k - 8))"
proof (cases "k < 8")
  case True
  then show ?thesis by (simp add: buf_bit_def)
next
  case False
  then obtain j where "k = 8 + j" by (metis le_add_diff_inverse not_less)
  moreover have "(8 + j) div 8 = Suc (j div 8)" by simp
  ultimately show ?thesis by (simp only: buf_bit_def) simp
qed

lemma bit_le_word [byte_bits]:
  "bit (le_word bs :: 'a :: len word) k \<longleftrightarrow> k < LENGTH('a) \<and> buf_bit bs k"
proof (induction bs arbitrary: k)
  case Nil
  show ?case by (simp add: le_word_def)
next
  case (Cons b bs)
  have "le_word (b # bs) = ucast b OR push_bit 8 (le_word bs :: 'a word)"
    by (simp add: le_word_def)
  then show ?case
    by (auto simp: Cons.IH bit_simps buf_bit_Cons dest: bit_imp_le_length)
qed

lemma buf_bit_le_bytes [byte_bits]:
  "buf_bit (le_bytes n w) k \<longleftrightarrow> k < 8 * n \<and> bit w k"
proof (cases "k div 8 < n")
  case True
  then have "buf_bit (le_bytes n w) k \<longleftrightarrow> bit w (8 * (k div 8) + k mod 8)"
    by (simp add: buf_bit_def le_bytes_def bit_simps)
  with True show ?thesis by (simp only: mult_div_mod_eq) auto
next
  case False
  then show ?thesis by (auto simp: buf_bit_def)
qed

lemma le_word_le_bytes: "le_word (le_bytes n w) = (take_bit (8 * n) w :: 'a :: len word)"
  by (rule bit_word_eqI) (auto simp: byte_bits bit_simps)

lemma le_word_le_bytes_full [simp]:
  "LENGTH('a) \<le> 8 * n \<Longrightarrow> le_word (le_bytes n w) = (w :: 'a :: len word)"
  by (rule bit_word_eqI) (auto simp: byte_bits)

lemma le_bytes_le_word [simp]:
  "8 * length bs \<le> LENGTH('a) \<Longrightarrow> n = length bs \<Longrightarrow> le_bytes n (le_word bs :: 'a :: len word) = bs"
  by (rule bytes_eq_by_bits) (auto simp: byte_bits)

lemma be_word_be_bytes_full [simp]:
  "LENGTH('a) \<le> 8 * n \<Longrightarrow> be_word (be_bytes n w) = (w :: 'a :: len word)"
  by (simp add: be_word_def be_bytes_def)

lemma be_bytes_be_word [simp]:
  "8 * length bs \<le> LENGTH('a) \<Longrightarrow> n = length bs \<Longrightarrow> be_bytes n (be_word bs :: 'a :: len word) = bs"
  by (simp add: be_word_def be_bytes_def)

section \<open>Slices and stores\<close>

definition subspan :: "'a list \<Rightarrow> nat \<Rightarrow> nat \<Rightarrow> 'a list" where
  "subspan xs off n = take n (drop off xs)"

lemma subspan_eq_map: "off + n \<le> length xs \<Longrightarrow> subspan xs off n = map ((!) xs) [off..<off + n]"
  by (rule nth_equalityI) (auto simp: subspan_def)

lemma length_subspan [simp]: "length (subspan xs off n) = min n (length xs - off)"
  by (simp add: subspan_def)

lemma subspan_append_left: "off + n \<le> length xs \<Longrightarrow> subspan (xs @ ys) off n = subspan xs off n"
  by (simp add: subspan_def)

lemma subspan_append_right: "length xs \<le> off \<Longrightarrow> subspan (xs @ ys) off n = subspan ys (off - length xs) n"
  by (simp add: subspan_def)

text \<open>A run of byte stores: address and byte, in the order they are made.\<close>

definition store_bytes :: "nat \<Rightarrow> bytes \<Rightarrow> (nat \<times> u8) list" where
  "store_bytes off bs = zip [off..<off + length bs] bs"

definition apply_stores :: "(nat \<times> u8) list \<Rightarrow> bytes \<Rightarrow> bytes" where
  "apply_stores ss buf = fold (\<lambda>(a, b) buf. buf[a := b]) ss buf"

lemma apply_stores_simps [simp]:
  "apply_stores [] buf = buf"
  "apply_stores ((a, b) # ss) buf = apply_stores ss (buf[a := b])"
  "apply_stores (ss @ ts) buf = apply_stores ts (apply_stores ss buf)"
  by (simp_all add: apply_stores_def)

lemma length_apply_stores [simp]: "length (apply_stores ss buf) = length buf"
  by (induction ss arbitrary: buf) auto

lemma apply_stores_frame:
  "(\<And>a b. (a, b) \<in> set ss \<Longrightarrow> a \<noteq> j) \<Longrightarrow> apply_stores ss buf ! j = buf ! j"
proof (induction ss arbitrary: buf)
  case (Cons s ss)
  obtain a b where s: "s = (a, b)" by (cases s)
  have "a \<noteq> j" using Cons.prems [of a b] by (simp add: s)
  moreover have "apply_stores ss (buf[a := b]) ! j = buf[a := b] ! j"
    using Cons.prems by (intro Cons.IH) auto
  ultimately show ?case by (simp add: s)
qed simp

lemma store_bytes_Cons: "store_bytes off (b # bs) = (off, b) # store_bytes (Suc off) bs"
  by (simp add: store_bytes_def upt_conv_Cons del: upt_Suc)

lemma store_bytes_range: "(a, b) \<in> set (store_bytes off bs) \<Longrightarrow> off \<le> a \<and> a < off + length bs"
  by (auto simp: store_bytes_def dest: set_zip_leftD)

lemma apply_store_bytes_nth:
  "off \<le> j \<Longrightarrow> j < off + length bs \<Longrightarrow> j < length buf \<Longrightarrow>
     apply_stores (store_bytes off bs) buf ! j = bs ! (j - off)"
proof (induction bs arbitrary: off buf)
  case (Cons b bs)
  show ?case
  proof (cases "j = off")
    case True
    have "apply_stores (store_bytes (Suc off) bs) (buf[off := b]) ! off = buf[off := b] ! off"
      by (rule apply_stores_frame) (auto dest: store_bytes_range)
    with True Cons.prems show ?thesis by (simp add: store_bytes_Cons)
  next
    case False
    with Cons.prems Cons.IH [of "Suc off" "buf[off := b]"] show ?thesis
      by (simp add: store_bytes_Cons nth_Cons')
  qed
qed simp

lemma subspan_stored [simp]:
  "off + length bs \<le> length buf \<Longrightarrow> n = length bs \<Longrightarrow>
     subspan (apply_stores (store_bytes off bs) buf) off n = bs"
  by (rule nth_equalityI) (auto simp: subspan_def apply_store_bytes_nth)

lemma subspan_frame:
  assumes "\<And>a b. (a, b) \<in> set ss \<Longrightarrow> a < off \<or> off + n \<le> a"
  shows "subspan (apply_stores ss buf) off n = subspan buf off n"
proof (rule nth_equalityI)
  fix i assume "i < length (subspan (apply_stores ss buf) off n)"
  then have i: "i < n" "off + i < length buf" by auto
  have "apply_stores ss buf ! (off + i) = buf ! (off + i)"
    using assms i(1) by (intro apply_stores_frame) fastforce
  with i show "subspan (apply_stores ss buf) off n ! i = subspan buf off n ! i" by (simp add: subspan_def)
qed simp

end
