(* ===== verification/Step_System.thy ===== *)
theory Step_System
  imports Main
begin

text \<open>
  The interface between a model with interleaved threads and the theorems about its runs: a step
  relation, an invariant that every step keeps, and a bound that a run reaches only from states
  within it. A component proves the step law once, by an interpretation on its own relation, and gets
  the invariant for every reachable state.
\<close>

locale step_system =
  fixes step :: "'s \<Rightarrow> 's \<Rightarrow> bool" and inv :: "'s \<Rightarrow> bool" and within :: "'s \<Rightarrow> bool"
  assumes step_inv: "step s s' \<Longrightarrow> inv s \<Longrightarrow> within s' \<Longrightarrow> inv s'"
    and step_within: "step s s' \<Longrightarrow> within s' \<Longrightarrow> within s"
begin

lemma reachable_inv:
  assumes "step\<^sup>*\<^sup>* s s'" and "inv s" and "within s'"
  shows "inv s'"
  using assms(1,3)
proof (induction rule: rtranclp_induct)
  case base
  show ?case by (rule assms(2))
next
  case (step u v)
  then show ?case using step_within step_inv by blast
qed

lemma reachable_within: "step\<^sup>*\<^sup>* s s' \<Longrightarrow> within s' \<Longrightarrow> within s"
  by (induction rule: rtranclp_induct) (auto dest: step_within)

end

end
