(* ===== verification/Process_Data_Ring.thy ===== *)
theory Process_Data_Ring
  imports Byte_Codec Step_System
begin

text \<open>
  The flight-data recorder of \<^verbatim>\<open>libs/node/process_data_ring.h\<close> and
  \<^verbatim>\<open>libs/node/process_data_ring.cc\<close>: a byte buffer of \<open>capacity\<close> slots, a sequence word per slot
  and the producer's next sequence number, all at the widths of the code. The operations are first
  the functions of the class, then an interleaving of one producer and one reader in which every
  byte moved and every sequence word touched is a step of its own. Interleavings are sequentially
  consistent. Pinning the storage (\<^verbatim>\<open>mlock\<close>) has no effect on what is recorded and is left out.
\<close>

unbundle bit_operations_syntax

section \<open>The class\<close>

record Record =
  rec_seq :: u64
  rec_timestampNs :: u64
  rec_wkc :: u32
  rec_inputs :: bytes
  rec_outputs :: bytes

definition kHeaderBytes :: nat where
  "kHeaderBytes = 20"

definition kInvalidSeq :: u64 where
  "kInvalidSeq = - 1"

record ProcessDataRing =
  rb_buffer :: bytes
  rb_seqWords :: "u64 list"
  rb_stride :: nat
  rb_capacity :: nat
  rb_inputCap :: u32
  rb_outputCap :: u32
  rb_head :: u64

definition ring_clear :: "ProcessDataRing \<Rightarrow> ProcessDataRing" where
  "ring_clear r =
     r\<lparr>rb_buffer := [], rb_seqWords := [], rb_stride := 0, rb_capacity := 0, rb_inputCap := 0,
       rb_outputCap := 0, rb_head := 0\<rparr>"

definition ring_allocate :: "u32 \<Rightarrow> u32 \<Rightarrow> nat \<Rightarrow> ProcessDataRing \<Rightarrow> ProcessDataRing" where
  "ring_allocate inputCap outputCap capacityCycles r =
     (let r = ring_clear r
      in if capacityCycles = 0 then r
         else let stride = kHeaderBytes + unat inputCap + unat outputCap
              in r\<lparr>rb_inputCap := inputCap, rb_outputCap := outputCap, rb_capacity := capacityCycles,
                   rb_stride := stride, rb_buffer := replicate (capacityCycles * stride) 0,
                   rb_seqWords := replicate capacityCycles kInvalidSeq, rb_head := 0\<rparr>)"

definition ring_allocated :: "ProcessDataRing \<Rightarrow> bool" where
  "ring_allocated r \<longleftrightarrow> rb_capacity r \<noteq> 0"

definition ring_slot :: "ProcessDataRing \<Rightarrow> u64 \<Rightarrow> nat" where
  "ring_slot r seq = unat seq mod rb_capacity r"

definition ring_base :: "ProcessDataRing \<Rightarrow> u64 \<Rightarrow> nat" where
  "ring_base r seq = ring_slot r seq * rb_stride r"

definition stored_size :: "bytes \<Rightarrow> u32 \<Rightarrow> u32" where
  "stored_size bs cap = min (of_nat (length bs)) cap"

text \<open>The six copies of \<^verbatim>\<open>write\<close>, byte by byte, into the record at \<open>rec\<close>.\<close>

definition payload_stores ::
  "ProcessDataRing \<Rightarrow> nat \<Rightarrow> u64 \<Rightarrow> u32 \<Rightarrow> bytes \<Rightarrow> bytes \<Rightarrow> (nat \<times> u8) list" where
  "payload_stores r rec timestampNs wkc inputs outputs =
     (let ib = stored_size inputs (rb_inputCap r); ob = stored_size outputs (rb_outputCap r)
      in store_bytes rec (le_bytes 8 timestampNs)
       @ store_bytes (rec + 8) (le_bytes 4 wkc)
       @ store_bytes (rec + 12) (le_bytes 4 ib)
       @ store_bytes (rec + 16) (le_bytes 4 ob)
       @ store_bytes (rec + kHeaderBytes) (take (unat ib) inputs)
       @ store_bytes (rec + kHeaderBytes + unat (rb_inputCap r)) (take (unat ob) outputs))"

definition ring_write :: "u64 \<Rightarrow> u32 \<Rightarrow> bytes \<Rightarrow> bytes \<Rightarrow> ProcessDataRing \<Rightarrow> ProcessDataRing" where
  "ring_write timestampNs wkc inputs outputs r =
     (if rb_capacity r = 0 then r
      else let seq = rb_head r; slot = ring_slot r seq;
               r = r\<lparr>rb_seqWords := (rb_seqWords r)[slot := kInvalidSeq]\<rparr>;
               r = r\<lparr>rb_buffer := apply_stores
                      (payload_stores r (ring_base r seq) timestampNs wkc inputs outputs) (rb_buffer r)\<rparr>;
               r = r\<lparr>rb_seqWords := (rb_seqWords r)[slot := seq]\<rparr>
           in r\<lparr>rb_head := seq + 1\<rparr>)"

definition oldestValidSeq :: "ProcessDataRing \<Rightarrow> nat" where
  "oldestValidSeq r = (if unat (rb_head r) > rb_capacity r then unat (rb_head r) - rb_capacity r else 0)"

text \<open>The copies of \<^verbatim>\<open>readRecord\<close>, with the sizes clamped to the capacities.\<close>

definition read_slot :: "ProcessDataRing \<Rightarrow> u64 \<Rightarrow> Record" where
  "read_slot r seq =
     (let rec = ring_base r seq; buf = rb_buffer r;
          ib = min (le_word (subspan buf (rec + 12) 4)) (rb_inputCap r);
          ob = min (le_word (subspan buf (rec + 16) 4)) (rb_outputCap r)
      in \<lparr>rec_seq = seq, rec_timestampNs = le_word (subspan buf rec 8), rec_wkc = le_word (subspan buf (rec + 8) 4),
          rec_inputs = subspan buf (rec + kHeaderBytes) (unat ib),
          rec_outputs = subspan buf (rec + kHeaderBytes + unat (rb_inputCap r)) (unat ob)\<rparr>)"

definition readRecord :: "u64 \<Rightarrow> ProcessDataRing \<Rightarrow> Record option" where
  "readRecord seq r =
     (if rb_capacity r = 0 then None
      else let slot = ring_slot r seq
           in if rb_seqWords r ! slot \<noteq> seq then None
              else let out = read_slot r seq
                   in if rb_seqWords r ! slot = seq then Some out else None)"

section \<open>What a slot holds\<close>

text \<open>The record a call of \<^verbatim>\<open>write\<close> leaves behind.\<close>

definition recorded :: "ProcessDataRing \<Rightarrow> u64 \<Rightarrow> u64 \<Rightarrow> u32 \<Rightarrow> bytes \<Rightarrow> bytes \<Rightarrow> Record" where
  "recorded r seq timestampNs wkc inputs outputs =
     \<lparr>rec_seq = seq, rec_timestampNs = timestampNs, rec_wkc = wkc,
      rec_inputs = take (unat (stored_size inputs (rb_inputCap r))) inputs,
      rec_outputs = take (unat (stored_size outputs (rb_outputCap r))) outputs\<rparr>"

definition ring_wf :: "ProcessDataRing \<Rightarrow> bool" where
  "ring_wf r \<longleftrightarrow>
     rb_capacity r \<noteq> 0
   \<and> rb_stride r = kHeaderBytes + unat (rb_inputCap r) + unat (rb_outputCap r)
   \<and> length (rb_buffer r) = rb_capacity r * rb_stride r
   \<and> length (rb_seqWords r) = rb_capacity r"

lemma ring_slot_less: "ring_wf r \<Longrightarrow> ring_slot r seq < rb_capacity r"
  by (simp add: ring_wf_def ring_slot_def)

lemma slot_in_buffer:
  assumes "ring_wf r"
  shows "ring_base r seq + rb_stride r \<le> length (rb_buffer r)"
proof -
  have "(ring_slot r seq + 1) * rb_stride r \<le> rb_capacity r * rb_stride r"
    using ring_slot_less [OF assms, of seq] by (intro mult_right_mono) auto
  then show ?thesis using assms by (simp add: ring_wf_def ring_base_def)
qed

lemma slots_apart:
  assumes "ring_slot r s < ring_slot r s'"
  shows "ring_base r s + rb_stride r \<le> ring_base r s'"
proof -
  have "(ring_slot r s + 1) * rb_stride r \<le> ring_slot r s' * rb_stride r"
    using assms by (intro mult_right_mono) auto
  then show ?thesis by (simp add: ring_base_def)
qed

lemma unat_stored_size: "unat (stored_size bs cap) \<le> length bs \<and> unat (stored_size bs cap) \<le> unat cap"
proof -
  have "unat (of_nat (length bs) :: u32) \<le> length bs"
    by (simp add: unsigned_of_nat take_bit_nat_eq_self_iff take_bit_nat_less_eq_self)
  then show ?thesis by (auto simp: stored_size_def min_def word_le_nat_alt)
qed

lemma payload_stores_range:
  assumes "(a, b) \<in> set (payload_stores r rec ts wkc ins outs)"
    and "rb_stride r = kHeaderBytes + unat (rb_inputCap r) + unat (rb_outputCap r)"
  shows "rec \<le> a \<and> a < rec + rb_stride r"
  using assms unat_stored_size [of ins "rb_inputCap r"] unat_stored_size [of outs "rb_outputCap r"]
  by (fastforce simp: payload_stores_def Let_def kHeaderBytes_def dest!: store_bytes_range)

lemma subspan_stored_past:
  assumes "off + n \<le> off' \<or> off' + length bs \<le> off"
  shows "subspan (apply_stores (store_bytes off' bs) buf) off n = subspan buf off n"
  using assms by (intro subspan_frame) (auto dest: store_bytes_range)

lemma read_back_payload:
  assumes "ring_wf r"
  shows "read_slot (r\<lparr>rb_buffer := apply_stores (payload_stores r (ring_base r seq) ts wkc ins outs) (rb_buffer r)\<rparr>) seq
           = recorded r seq ts wkc ins outs"
proof -
  have b: "ring_base (r\<lparr>rb_buffer := x\<rparr>) seq = ring_base r seq" for x
    by (simp add: ring_base_def ring_slot_def)
  have st: "ring_base r seq + (kHeaderBytes + unat (rb_inputCap r) + unat (rb_outputCap r)) \<le> length (rb_buffer r)"
    using slot_in_buffer [OF assms, of seq] assms by (simp add: ring_wf_def)
  note sz = unat_stored_size [of ins "rb_inputCap r"] unat_stored_size [of outs "rb_outputCap r"]
  have "min (stored_size ins (rb_inputCap r)) (rb_inputCap r) = stored_size ins (rb_inputCap r)"
    "min (stored_size outs (rb_outputCap r)) (rb_outputCap r) = stored_size outs (rb_outputCap r)"
    by (simp_all add: stored_size_def)
  with st sz show ?thesis
    by (simp add: read_slot_def b payload_stores_def recorded_def Let_def subspan_stored_past kHeaderBytes_def)
qed

lemma read_slot_frame:
  assumes "ring_wf r" and "\<And>a b. (a, b) \<in> set ss \<Longrightarrow> ring_base r s' \<le> a \<and> a < ring_base r s' + rb_stride r"
    and "ring_slot r s \<noteq> ring_slot r s'"
  shows "read_slot (r\<lparr>rb_buffer := apply_stores ss (rb_buffer r)\<rparr>) s = read_slot r s"
proof -
  have apart: "a < ring_base r s \<or> ring_base r s + rb_stride r \<le> a" if "(a, b) \<in> set ss" for a b
    using assms(2) [OF that] assms(3) slots_apart [of r s s'] slots_apart [of r s' s] by fastforce
  have st: "rb_stride r = kHeaderBytes + unat (rb_inputCap r) + unat (rb_outputCap r)"
    using assms(1) by (simp add: ring_wf_def)
  have fr: "subspan (apply_stores ss (rb_buffer r)) (ring_base r s + k) n = subspan (rb_buffer r) (ring_base r s + k) n"
    if "k + n \<le> rb_stride r" for k n
    using that apart by (intro subspan_frame) fastforce
  have le: "unat (min x (rb_inputCap r)) \<le> unat (rb_inputCap r)" "unat (min x (rb_outputCap r)) \<le> unat (rb_outputCap r)" for x
    by (simp_all add: min_def word_le_nat_alt)
  have ins: "subspan (apply_stores ss (rb_buffer r)) (ring_base r s + 20) (unat (min x (rb_inputCap r))) =
      subspan (rb_buffer r) (ring_base r s + 20) (unat (min x (rb_inputCap r)))" for x
    using le(1) [of x] by (intro fr) (simp add: st kHeaderBytes_def)
  have outs: "subspan (apply_stores ss (rb_buffer r)) (ring_base r s + (20 + unat (rb_inputCap r))) (unat (min x (rb_outputCap r))) =
      subspan (rb_buffer r) (ring_base r s + (20 + unat (rb_inputCap r))) (unat (min x (rb_outputCap r)))" for x
    using le(2) [of x] by (intro fr) (simp add: st kHeaderBytes_def)
  have b: "ring_base (r\<lparr>rb_buffer := x\<rparr>) s = ring_base r s" for x
    by (simp add: ring_base_def ring_slot_def)
  show ?thesis
    using fr [of 0 8] fr [of 8 4] fr [of 12 4] fr [of 16 4] ins outs
    by (simp add: read_slot_def b Let_def st kHeaderBytes_def add.assoc)
qed

section \<open>The producer alone\<close>

type_synonym write_call = "u64 \<times> u32 \<times> bytes \<times> bytes"

fun ring_writes :: "write_call list \<Rightarrow> ProcessDataRing \<Rightarrow> ProcessDataRing" where
  "ring_writes [] r = r"
| "ring_writes ((ts, wkc, ins, outs) # cs) r = ring_writes cs (ring_write ts wkc ins outs r)"

definition ring_holds :: "ProcessDataRing \<Rightarrow> Record list \<Rightarrow> bool" where
  "ring_holds r log \<longleftrightarrow>
     ring_wf r \<and> rb_head r = of_nat (length log)
   \<and> (\<forall>s<length log. length log \<le> s + rb_capacity r \<longrightarrow>
        rb_seqWords r ! (s mod rb_capacity r) = of_nat s \<and> read_slot r (of_nat s) = log ! s)
   \<and> (\<forall>slot<rb_capacity r. length log \<le> slot \<longrightarrow> rb_seqWords r ! slot = kInvalidSeq)"

lemma newest_in_slot:
  assumes "slot < cap" and "slot < n"
  shows "\<exists>s<n. n \<le> s + cap \<and> s mod cap = (slot :: nat)"
proof -
  let ?m = "(n - 1 - slot) mod cap" and ?q = "(n - 1 - slot) div cap"
  have m: "?m < cap" "?m \<le> n - 1 - slot" using assms by simp_all
  have "n - 1 - ?m = slot + cap * ?q"
    using assms mult_div_mod_eq [of cap "n - 1 - slot"] m(2) by linarith
  then have "(n - 1 - ?m) mod cap = slot" using assms by simp
  moreover have "n - 1 - ?m < n" "n \<le> n - 1 - ?m + cap" using assms m by linarith+
  ultimately show ?thesis by blast
qed

lemma window_residues:
  assumes "s < n" and "n < s + cap"
  shows "s mod cap \<noteq> n mod (cap :: nat)"
proof
  assume "s mod cap = n mod cap"
  then have "cap dvd n - s" using assms mod_eq_dvd_iff_nat [of s n cap] by simp
  then show False using assms by (auto dest!: dvd_imp_le)
qed

lemma ring_geometry [simp]:
  "ring_slot (r\<lparr>rb_seqWords := w\<rparr>) s = ring_slot r s"
  "ring_slot (r\<lparr>rb_buffer := b\<rparr>) s = ring_slot r s"
  "ring_slot (r\<lparr>rb_head := h\<rparr>) s = ring_slot r s"
  "ring_base (r\<lparr>rb_seqWords := w\<rparr>) s = ring_base r s"
  "ring_base (r\<lparr>rb_buffer := b\<rparr>) s = ring_base r s"
  "ring_base (r\<lparr>rb_head := h\<rparr>) s = ring_base r s"
  "read_slot (r\<lparr>rb_seqWords := w\<rparr>) s = read_slot r s"
  "read_slot (r\<lparr>rb_head := h\<rparr>) s = read_slot r s"
  "payload_stores (r\<lparr>rb_seqWords := w\<rparr>) a ts wkc ins outs = payload_stores r a ts wkc ins outs"
  by (simp_all add: ring_slot_def ring_base_def read_slot_def payload_stores_def)

lemma ring_write_eq:
  "rb_capacity r \<noteq> 0 \<Longrightarrow> ring_write ts wkc ins outs r =
     r\<lparr>rb_buffer := apply_stores (payload_stores r (ring_base r (rb_head r)) ts wkc ins outs) (rb_buffer r),
       rb_seqWords := (rb_seqWords r)[ring_slot r (rb_head r) := rb_head r],
       rb_head := rb_head r + 1\<rparr>"
  by (simp add: ring_write_def Let_def)

lemma ring_write_geometry [simp]:
  "rb_capacity (ring_write ts wkc ins outs r) = rb_capacity r"
  "rb_inputCap (ring_write ts wkc ins outs r) = rb_inputCap r"
  "rb_outputCap (ring_write ts wkc ins outs r) = rb_outputCap r"
  by (simp_all add: ring_write_def Let_def)

lemma read_slot_ring_write:
  assumes "ring_wf r"
  shows "read_slot (ring_write ts wkc ins outs r) s =
    (if ring_slot r s = ring_slot r (rb_head r)
     then (recorded r (rb_head r) ts wkc ins outs)\<lparr>rec_seq := s\<rparr> else read_slot r s)"
proof -
  let ?ss = "payload_stores r (ring_base r (rb_head r)) ts wkc ins outs"
  let ?r = "r\<lparr>rb_buffer := apply_stores ?ss (rb_buffer r)\<rparr>"
  have cap: "rb_capacity r \<noteq> 0" using assms by (simp add: ring_wf_def)
  have "read_slot (r\<lparr>rb_buffer := b, rb_seqWords := w, rb_head := h\<rparr>) s = read_slot (r\<lparr>rb_buffer := b\<rparr>) s" for b w h
    by (simp add: read_slot_def ring_base_def ring_slot_def)
  then have w: "read_slot (ring_write ts wkc ins outs r) s = read_slot ?r s"
    by (simp only: ring_write_eq [OF cap])
  show ?thesis
  proof (cases "ring_slot r s = ring_slot r (rb_head r)")
    case True
    then have "read_slot ?r s = (read_slot ?r (rb_head r))\<lparr>rec_seq := s\<rparr>"
      by (simp add: read_slot_def ring_base_def ring_slot_def Let_def)
    then show ?thesis using w True by (simp add: read_back_payload [OF assms])
  next
    case False
    have "read_slot ?r s = read_slot r s"
      using assms False by (intro read_slot_frame) (auto dest!: payload_stores_range simp: ring_wf_def)
    then show ?thesis using w False by simp
  qed
qed

lemma recorded_seq: "(recorded r q ts wkc ins outs)\<lparr>rec_seq := s\<rparr> = recorded r s ts wkc ins outs"
  by (simp add: recorded_def)

lemma unat_seq: "s < 2 ^ 64 \<Longrightarrow> unat (of_nat s :: u64) = s"
  by (simp add: unsigned_of_nat take_bit_nat_eq_self)

lemma ring_holds_write:
  assumes h: "ring_holds r log" and n: "length log < 2 ^ 64 - 1"
  shows "ring_holds (ring_write ts wkc ins outs r)
           (log @ [recorded r (of_nat (length log)) ts wkc ins outs])"
proof -
  let ?n = "length log" and ?cap = "rb_capacity r" and ?r = "ring_write ts wkc ins outs r"
  let ?log = "log @ [recorded r (of_nat ?n) ts wkc ins outs]"
  have wf: "ring_wf r" and hd: "rb_head r = of_nat ?n" and cap: "?cap \<noteq> 0"
    using h by (auto simp: ring_holds_def ring_wf_def)
  have words: "rb_seqWords ?r = (rb_seqWords r)[?n mod ?cap := of_nat ?n]"
    using cap n by (simp add: ring_write_eq hd ring_slot_def unat_seq)
  have len: "length (rb_seqWords r) = ?cap" using wf by (simp add: ring_wf_def)
  have "rb_seqWords ?r ! (s mod ?cap) = of_nat s \<and> read_slot ?r (of_nat s) = ?log ! s"
    if s: "s < Suc ?n" "Suc ?n \<le> s + ?cap" for s
  proof (cases "s = ?n")
    case True
    then show ?thesis
      using cap len by (simp add: words read_slot_ring_write [OF wf] hd recorded_seq)
  next
    case False
    with s have "s mod ?cap \<noteq> ?n mod ?cap" by (intro window_residues) auto
    moreover have "ring_slot r (of_nat s) = s mod ?cap" "ring_slot r (rb_head r) = ?n mod ?cap"
      using s n hd by (simp_all add: ring_slot_def unat_seq)
    ultimately show ?thesis
      using False s h by (simp add: words read_slot_ring_write [OF wf] nth_append ring_holds_def)
  qed
  moreover have "rb_seqWords ?r ! slot = kInvalidSeq" if "slot < ?cap" "Suc ?n \<le> slot" for slot
    using that h by (simp add: words ring_holds_def)
  moreover have "ring_wf ?r" using wf cap by (simp add: ring_wf_def ring_write_eq)
  moreover have "rb_head ?r = of_nat (Suc ?n)" using cap by (simp add: ring_write_eq hd)
  ultimately show ?thesis by (simp add: ring_holds_def)
qed

lemma ring_holds_allocate: "cap \<noteq> 0 \<Longrightarrow> ring_holds (ring_allocate ic oc cap r) []"
  by (simp add: ring_holds_def ring_wf_def ring_allocate_def ring_clear_def Let_def)

lemma readRecord_holds:
  assumes h: "ring_holds r log" and n: "length log < 2 ^ 64" and seq: "seq \<noteq> kInvalidSeq"
  shows "readRecord seq r =
    (if unat seq < length log \<and> length log \<le> unat seq + rb_capacity r then Some (log ! unat seq) else None)"
proof -
  let ?n = "length log" and ?cap = "rb_capacity r" and ?slot = "unat seq mod rb_capacity r"
  have cap: "?cap \<noteq> 0" using h by (simp add: ring_holds_def ring_wf_def)
  have read: "readRecord seq r = (if rb_seqWords r ! ?slot = seq then Some (read_slot r seq) else None)"
    using cap by (simp add: readRecord_def ring_slot_def Let_def)
  show ?thesis
  proof (cases "?n \<le> ?slot")
    case True
    then have "rb_seqWords r ! ?slot = kInvalidSeq" using h cap by (simp add: ring_holds_def)
    moreover have "\<not> unat seq < ?n" using True mod_less_eq_dividend [of "unat seq" ?cap] by linarith
    ultimately show ?thesis using read seq by simp
  next
    case False
    then obtain s where s: "s < ?n" "?n \<le> s + ?cap" "s mod ?cap = ?slot"
      using newest_in_slot [of ?slot ?cap ?n] cap by auto
    then have w: "rb_seqWords r ! ?slot = of_nat s" "read_slot r (of_nat s) = log ! s"
      using h by (auto simp: ring_holds_def)
    show ?thesis
    proof (cases "unat seq = s")
      case True
      then have "seq = of_nat s" by auto
      with w have "readRecord seq r = Some (log ! s)" unfolding read by (simp only: simp_thms if_True)
      with s True show ?thesis by simp
    next
      case False
      have "rb_seqWords r ! ?slot \<noteq> seq"
      proof
        assume "rb_seqWords r ! ?slot = seq"
        then have "unat seq = unat (of_nat s :: u64)" using w(1) by simp
        with unat_seq [of s] s(1) n False show False by linarith
      qed
      moreover have "\<not> (unat seq < ?n \<and> ?n \<le> unat seq + ?cap)"
        using False s window_residues [of "unat seq" s ?cap] window_residues [of s "unat seq" ?cap]
        by linarith
      ultimately show ?thesis unfolding read by (simp only: if_False)
    qed
  qed
qed


section \<open>The producer and a reader, interleaved\<close>

text \<open>
  \<open>W_Copy\<close> holds the stores \<^verbatim>\<open>write\<close> has still to make, \<open>R_Header\<close> and \<open>R_Payload\<close> the bytes
  \<^verbatim>\<open>readRecord\<close> has copied so far. A reader asks for any sequence number but the reserved one. The
  log is the history of the calls of \<^verbatim>\<open>write\<close>: entry \<open>s\<close> is the record of the call that took sequence
  number \<open>s\<close>.
\<close>

datatype producer =
    W_Idle
  | W_Copy u64 "(nat \<times> u8) list"
  | W_Head u64

datatype reader =
    R_Idle
  | R_Header u64 bytes
  | R_Payload u64 bytes bytes
  | R_Done u64 "Record option"

record ring_system =
  sys_ring :: ProcessDataRing
  sys_producer :: producer
  sys_reader :: reader
  sys_log :: "Record list"

definition header_ib :: "ProcessDataRing \<Rightarrow> bytes \<Rightarrow> nat" where
  "header_ib r h = unat (min (le_word (subspan h 12 4)) (rb_inputCap r))"

definition header_ob :: "ProcessDataRing \<Rightarrow> bytes \<Rightarrow> nat" where
  "header_ob r h = unat (min (le_word (subspan h 16 4)) (rb_outputCap r))"

definition payload_addresses :: "ProcessDataRing \<Rightarrow> u64 \<Rightarrow> bytes \<Rightarrow> nat list" where
  "payload_addresses r seq h =
     (let rec = ring_base r seq
      in [rec + kHeaderBytes..<rec + kHeaderBytes + header_ib r h]
       @ [rec + kHeaderBytes + unat (rb_inputCap r)
          ..<rec + kHeaderBytes + unat (rb_inputCap r) + header_ob r h])"

definition copied_record :: "ProcessDataRing \<Rightarrow> u64 \<Rightarrow> bytes \<Rightarrow> bytes \<Rightarrow> Record" where
  "copied_record r seq h body =
     \<lparr>rec_seq = seq, rec_timestampNs = le_word (subspan h 0 8), rec_wkc = le_word (subspan h 8 4),
      rec_inputs = take (header_ib r h) body, rec_outputs = drop (header_ib r h) body\<rparr>"

inductive ring_step :: "ring_system \<Rightarrow> ring_system \<Rightarrow> bool" where
  w_begin: "sys_producer s = W_Idle \<Longrightarrow> rb_capacity (sys_ring s) \<noteq> 0 \<Longrightarrow>
    seq = rb_head (sys_ring s) \<Longrightarrow>
    ring_step s (s\<lparr>
      sys_ring := (sys_ring s)\<lparr>rb_seqWords := (rb_seqWords (sys_ring s))[ring_slot (sys_ring s) seq := kInvalidSeq]\<rparr>,
      sys_producer := W_Copy seq (payload_stores (sys_ring s) (ring_base (sys_ring s) seq) ts wkc ins outs),
      sys_log := sys_log s @ [recorded (sys_ring s) seq ts wkc ins outs]\<rparr>)"
| w_store: "sys_producer s = W_Copy seq ((a, b) # ss) \<Longrightarrow>
    ring_step s (s\<lparr>
      sys_ring := (sys_ring s)\<lparr>rb_buffer := (rb_buffer (sys_ring s))[a := b]\<rparr>,
      sys_producer := W_Copy seq ss\<rparr>)"
| w_publish: "sys_producer s = W_Copy seq [] \<Longrightarrow>
    ring_step s (s\<lparr>
      sys_ring := (sys_ring s)\<lparr>rb_seqWords := (rb_seqWords (sys_ring s))[ring_slot (sys_ring s) seq := seq]\<rparr>,
      sys_producer := W_Head seq\<rparr>)"
| w_head: "sys_producer s = W_Head seq \<Longrightarrow>
    ring_step s (s\<lparr>sys_ring := (sys_ring s)\<lparr>rb_head := seq + 1\<rparr>, sys_producer := W_Idle\<rparr>)"
| r_refuse: "sys_reader s = R_Idle \<or> sys_reader s = R_Done q res \<Longrightarrow> seq \<noteq> kInvalidSeq \<Longrightarrow>
    rb_capacity (sys_ring s) = 0 \<or> rb_seqWords (sys_ring s) ! ring_slot (sys_ring s) seq \<noteq> seq \<Longrightarrow>
    ring_step s (s\<lparr>sys_reader := R_Done seq None\<rparr>)"
| r_begin: "sys_reader s = R_Idle \<or> sys_reader s = R_Done q res \<Longrightarrow> seq \<noteq> kInvalidSeq \<Longrightarrow>
    rb_capacity (sys_ring s) \<noteq> 0 \<Longrightarrow> rb_seqWords (sys_ring s) ! ring_slot (sys_ring s) seq = seq \<Longrightarrow>
    ring_step s (s\<lparr>sys_reader := R_Header seq []\<rparr>)"
| r_header: "sys_reader s = R_Header seq h \<Longrightarrow> length h < kHeaderBytes \<Longrightarrow>
    ring_step s (s\<lparr>sys_reader :=
      R_Header seq (h @ [rb_buffer (sys_ring s) ! (ring_base (sys_ring s) seq + length h)])\<rparr>)"
| r_sizes: "sys_reader s = R_Header seq h \<Longrightarrow> length h = kHeaderBytes \<Longrightarrow>
    ring_step s (s\<lparr>sys_reader := R_Payload seq h []\<rparr>)"
| r_payload: "sys_reader s = R_Payload seq h body \<Longrightarrow>
    length body < length (payload_addresses (sys_ring s) seq h) \<Longrightarrow>
    ring_step s (s\<lparr>sys_reader := R_Payload seq h
      (body @ [rb_buffer (sys_ring s) ! (payload_addresses (sys_ring s) seq h ! length body)])\<rparr>)"
| r_check: "sys_reader s = R_Payload seq h body \<Longrightarrow>
    length body = length (payload_addresses (sys_ring s) seq h) \<Longrightarrow>
    ring_step s (s\<lparr>sys_reader := R_Done seq
      (if rb_seqWords (sys_ring s) ! ring_slot (sys_ring s) seq = seq
       then Some (copied_record (sys_ring s) seq h body) else None)\<rparr>)"

inductive_cases ring_stepE: "ring_step s s'"

text \<open>What holds of the producer's side.\<close>

fun producer_ok :: "ProcessDataRing \<Rightarrow> Record list \<Rightarrow> producer \<Rightarrow> bool" where
  "producer_ok r log W_Idle \<longleftrightarrow> unat (rb_head r) = length log"
| "producer_ok r log (W_Copy seq ss) \<longleftrightarrow>
     seq = rb_head r \<and> Suc (unat seq) = length log
   \<and> rb_seqWords r ! ring_slot r seq = kInvalidSeq
   \<and> (\<forall>(a, b)\<in>set ss. ring_base r seq \<le> a \<and> a < ring_base r seq + rb_stride r)
   \<and> read_slot (r\<lparr>rb_buffer := apply_stores ss (rb_buffer r)\<rparr>) seq = log ! unat seq"
| "producer_ok r log (W_Head seq) \<longleftrightarrow> seq = rb_head r \<and> Suc (unat seq) = length log"

text \<open>The sequence numbers whose records are complete.\<close>

fun published :: "Record list \<Rightarrow> producer \<Rightarrow> nat" where
  "published log (W_Copy seq ss) = length log - 1"
| "published log p = length log"

definition words_ok :: "ProcessDataRing \<Rightarrow> Record list \<Rightarrow> producer \<Rightarrow> bool" where
  "words_ok r log p \<longleftrightarrow>
     (\<forall>slot<rb_capacity r. \<forall>seq. rb_seqWords r ! slot = seq \<longrightarrow> seq \<noteq> kInvalidSeq \<longrightarrow>
        unat seq < published log p \<and> ring_slot r seq = slot \<and> read_slot r seq = log ! unat seq)"

text \<open>
  What a reader has copied agrees with the slot for as long as the slot's sequence word still names
  the record asked for.
\<close>

fun reader_ok :: "ProcessDataRing \<Rightarrow> Record list \<Rightarrow> producer \<Rightarrow> reader \<Rightarrow> bool" where
  "reader_ok r log p R_Idle \<longleftrightarrow> True"
| "reader_ok r log p (R_Header seq h) \<longleftrightarrow>
     seq \<noteq> kInvalidSeq \<and> unat seq < published log p \<and> length h \<le> kHeaderBytes
   \<and> (rb_seqWords r ! ring_slot r seq = seq \<longrightarrow> subspan (rb_buffer r) (ring_base r seq) (length h) = h)"
| "reader_ok r log p (R_Payload seq h body) \<longleftrightarrow>
     seq \<noteq> kInvalidSeq \<and> unat seq < published log p \<and> length body \<le> length (payload_addresses r seq h)
   \<and> (rb_seqWords r ! ring_slot r seq = seq \<longrightarrow>
        subspan (rb_buffer r) (ring_base r seq) kHeaderBytes = h
      \<and> map ((!) (rb_buffer r)) (take (length body) (payload_addresses r seq h)) = body)"
| "reader_ok r log p (R_Done seq res) \<longleftrightarrow>
     (\<forall>rec. res = Some rec \<longrightarrow> unat seq < published log p \<and> rec = log ! unat seq)"

definition ring_inv :: "ring_system \<Rightarrow> bool" where
  "ring_inv s \<longleftrightarrow>
     ring_wf (sys_ring s) \<and> producer_ok (sys_ring s) (sys_log s) (sys_producer s)
   \<and> words_ok (sys_ring s) (sys_log s) (sys_producer s)
   \<and> reader_ok (sys_ring s) (sys_log s) (sys_producer s) (sys_reader s)"


lemma payload_addresses_in_slot:
  assumes "ring_wf r" and "a \<in> set (payload_addresses r seq h)"
  shows "ring_base r seq \<le> a \<and> a < ring_base r seq + rb_stride r"
proof -
  have "header_ib r h \<le> unat (rb_inputCap r)" "header_ob r h \<le> unat (rb_outputCap r)"
    by (simp_all add: header_ib_def header_ob_def min_def word_le_nat_alt)
  then show ?thesis
    using assms by (auto simp: payload_addresses_def Let_def ring_wf_def)
qed

lemma copied_record_eq:
  assumes wf: "ring_wf r" and h': "subspan (rb_buffer r) (ring_base r seq) kHeaderBytes = h"
    and body': "map ((!) (rb_buffer r)) (payload_addresses r seq h) = body"
  shows "copied_record r seq h body = read_slot r seq"
proof -
  let ?rec = "ring_base r seq" and ?buf = "rb_buffer r"
  note h = h' [symmetric] and body = body' [symmetric]
  have len: "?rec + (kHeaderBytes + unat (rb_inputCap r) + unat (rb_outputCap r)) \<le> length ?buf"
    using slot_in_buffer [OF wf, of seq] wf by (simp add: ring_wf_def)
  have sub: "subspan h k n = subspan ?buf (?rec + k) n" if "k + n \<le> kHeaderBytes" for k n
    using that by (simp add: h subspan_def drop_take min_def add.commute)
  have le: "header_ib r h \<le> unat (rb_inputCap r)" "header_ob r h \<le> unat (rb_outputCap r)"
    by (simp_all add: header_ib_def header_ob_def min_def word_le_nat_alt)
  have "take (header_ib r h) body = subspan ?buf (?rec + kHeaderBytes) (header_ib r h)"
    "drop (header_ib r h) body = subspan ?buf (?rec + kHeaderBytes + unat (rb_inputCap r)) (header_ob r h)"
    using le len by (simp_all add: body payload_addresses_def Let_def subspan_eq_map)
  moreover have "header_ib r h = unat (min (le_word (subspan ?buf (?rec + 12) 4)) (rb_inputCap r))"
    "header_ob r h = unat (min (le_word (subspan ?buf (?rec + 16) 4)) (rb_outputCap r))"
    by (simp_all add: header_ib_def header_ob_def sub kHeaderBytes_def)
  ultimately show ?thesis
    by (simp add: copied_record_def read_slot_def Let_def sub kHeaderBytes_def)
qed

lemma reader_ok_mono:
  assumes ok: "reader_ok r log p rd" and wf: "ring_wf r"
    and geo: "rb_capacity r' = rb_capacity r" "rb_stride r' = rb_stride r" "rb_inputCap r' = rb_inputCap r"
      "rb_outputCap r' = rb_outputCap r" "length (rb_buffer r') = length (rb_buffer r)"
    and log: "published log p \<le> published log' p'" "\<And>k. k < published log p \<Longrightarrow> log' ! k = log ! k"
    and slot: "\<And>seq j. seq \<noteq> kInvalidSeq \<Longrightarrow> unat seq < published log p \<Longrightarrow>
      rb_seqWords r' ! ring_slot r seq = seq \<Longrightarrow>
      rb_seqWords r ! ring_slot r seq = seq
      \<and> (ring_base r seq \<le> j \<and> j < ring_base r seq + rb_stride r \<longrightarrow> rb_buffer r' ! j = rb_buffer r ! j)"
  shows "reader_ok r' log' p' rd"
proof -
  have same: "ring_slot r' seq = ring_slot r seq" "ring_base r' seq = ring_base r seq"
    "payload_addresses r' seq h = payload_addresses r seq h" for seq h
    using geo by (simp_all add: ring_slot_def ring_base_def payload_addresses_def header_ib_def header_ob_def)
  have byte: "rb_buffer r' ! j = rb_buffer r ! j" and word: "rb_seqWords r ! ring_slot r seq = seq"
    if "seq \<noteq> kInvalidSeq" "unat seq < published log p" "rb_seqWords r' ! ring_slot r seq = seq"
      "ring_base r seq \<le> j" "j < ring_base r seq + rb_stride r" for seq j
    using slot [OF that(1-3), of j] that(4,5) by blast+
  have st: "0 < rb_stride r" "kHeaderBytes \<le> rb_stride r"
    using wf by (simp_all add: ring_wf_def kHeaderBytes_def)
  have hdr: "subspan (rb_buffer r') (ring_base r seq) n = subspan (rb_buffer r) (ring_base r seq) n"
    if "seq \<noteq> kInvalidSeq" "unat seq < published log p" "rb_seqWords r' ! ring_slot r seq = seq"
      "n \<le> kHeaderBytes" for seq n
  proof -
    have "ring_base r seq + n \<le> length (rb_buffer r)"
      using slot_in_buffer [OF wf, of seq] st(2) that(4) by linarith
    then show ?thesis
      using byte [OF that(1-3)] st(2) that(4) geo(5) by (auto simp: subspan_eq_map)
  qed
  show ?thesis
  proof (cases rd)
    case (R_Header seq h)
    then have a: "seq \<noteq> kInvalidSeq" "unat seq < published log p" "length h \<le> kHeaderBytes"
      and b: "rb_seqWords r ! ring_slot r seq = seq \<Longrightarrow> subspan (rb_buffer r) (ring_base r seq) (length h) = h"
      using ok by simp_all
    have "subspan (rb_buffer r') (ring_base r seq) (length h) = h" if w: "rb_seqWords r' ! ring_slot r seq = seq"
      using b [OF word [OF a(1,2) w, of "ring_base r seq"]] hdr [OF a(1,2) w a(3)] st(1) by simp
    then show ?thesis using a log(1) by (simp add: R_Header same)
  next
    case (R_Payload seq h body)
    let ?as = "take (length body) (payload_addresses r seq h)"
    from R_Payload have a: "seq \<noteq> kInvalidSeq" "unat seq < published log p"
        "length body \<le> length (payload_addresses r seq h)"
      and b: "rb_seqWords r ! ring_slot r seq = seq \<Longrightarrow>
        subspan (rb_buffer r) (ring_base r seq) kHeaderBytes = h \<and> map ((!) (rb_buffer r)) ?as = body"
      using ok unfolding R_Payload reader_ok.simps by blast+
    have "subspan (rb_buffer r') (ring_base r seq) kHeaderBytes = h \<and> map ((!) (rb_buffer r')) ?as = body"
      if w: "rb_seqWords r' ! ring_slot r seq = seq"
    proof -
      have "rb_buffer r' ! x = rb_buffer r ! x" if "x \<in> set ?as" for x
        using payload_addresses_in_slot [OF wf in_set_takeD [OF that]] byte [OF a(1,2) w] by simp
      then have "map ((!) (rb_buffer r')) ?as = map ((!) (rb_buffer r)) ?as" by (rule map_cong [OF refl])
      moreover have "subspan (rb_buffer r) (ring_base r seq) kHeaderBytes = h \<and> map ((!) (rb_buffer r)) ?as = body"
        by (rule b [OF word [OF a(1,2) w order_refl]]) (use st(1) in simp)
      ultimately show ?thesis using hdr [OF a(1,2) w order_refl] by metis
    qed
    then show ?thesis using a log(1) by (simp add: R_Payload same)
  next
    case (R_Done seq res)
    then show ?thesis using ok log by auto
  qed simp
qed


lemma invalid_slot_differs:
  assumes "seq \<noteq> kInvalidSeq" and "rb_seqWords r ! ring_slot r seq = seq"
    and "rb_seqWords r ! ring_slot r w = kInvalidSeq"
  shows "ring_slot r seq \<noteq> ring_slot r w"
  using assms by auto

lemma other_slot_byte:
  assumes "ring_slot r seq \<noteq> ring_slot r w"
    and "ring_base r w \<le> a \<and> a < ring_base r w + rb_stride r"
    and "ring_base r seq \<le> j \<and> j < ring_base r seq + rb_stride r"
  shows "a \<noteq> j"
  using assms slots_apart [of r seq w] slots_apart [of r w seq] by linarith

lemma inv_begin:
  assumes "ring_inv s" and "sys_producer s = W_Idle" and "seq = rb_head (sys_ring s)"
  shows "ring_inv (s\<lparr>
      sys_ring := (sys_ring s)\<lparr>rb_seqWords := (rb_seqWords (sys_ring s))[ring_slot (sys_ring s) seq := kInvalidSeq]\<rparr>,
      sys_producer := W_Copy seq (payload_stores (sys_ring s) (ring_base (sys_ring s) seq) ts wkc ins outs),
      sys_log := sys_log s @ [recorded (sys_ring s) seq ts wkc ins outs]\<rparr>)"
proof -
  let ?r = "sys_ring s" and ?log = "sys_log s"
  let ?r' = "?r\<lparr>rb_seqWords := (rb_seqWords ?r)[ring_slot ?r seq := kInvalidSeq]\<rparr>"
  let ?log' = "?log @ [recorded ?r seq ts wkc ins outs]"
  let ?ss = "payload_stores ?r (ring_base ?r seq) ts wkc ins outs"
  have wf: "ring_wf ?r" and n: "unat seq = length ?log" and words: "words_ok ?r ?log W_Idle"
    and rd: "reader_ok ?r ?log W_Idle (sys_reader s)"
    using assms by (auto simp: ring_inv_def)
  have len: "ring_slot ?r seq < length (rb_seqWords ?r)"
    using wf ring_slot_less [OF wf] by (simp add: ring_wf_def)
  have st: "rb_stride ?r = kHeaderBytes + unat (rb_inputCap ?r) + unat (rb_outputCap ?r)"
    using wf by (simp add: ring_wf_def)
  have "read_slot (?r'\<lparr>rb_buffer := apply_stores ?ss (rb_buffer ?r')\<rparr>) seq = recorded ?r seq ts wkc ins outs"
    using read_back_payload [OF wf, of seq ts wkc ins outs] by (simp add: read_slot_def)
  then have "producer_ok ?r' ?log' (W_Copy seq ?ss)"
    using payload_stores_range [OF _ st] n assms(3) len by (auto simp: nth_append)
  moreover have "words_ok ?r' ?log' (W_Copy seq ?ss)"
    using words len by (auto simp: words_ok_def nth_list_update nth_append)
  moreover have "reader_ok ?r' ?log' (W_Copy seq ?ss) (sys_reader s)"
    by (rule reader_ok_mono [OF rd wf]) (use len in \<open>auto simp: nth_append nth_list_update split: if_splits\<close>)
  moreover have "ring_wf ?r'" using wf by (simp add: ring_wf_def)
  ultimately show ?thesis unfolding ring_inv_def by (simp del: producer_ok.simps)
qed

lemma inv_store:
  assumes "ring_inv s" and "sys_producer s = W_Copy w ((a, b) # ss)"
  shows "ring_inv (s\<lparr>sys_ring := (sys_ring s)\<lparr>rb_buffer := (rb_buffer (sys_ring s))[a := b]\<rparr>,
                     sys_producer := W_Copy w ss\<rparr>)"
proof -
  let ?r = "sys_ring s" and ?log = "sys_log s"
  let ?r' = "?r\<lparr>rb_buffer := (rb_buffer ?r)[a := b]\<rparr>"
  have wf: "ring_wf ?r" and pr: "producer_ok ?r ?log (W_Copy w ((a, b) # ss))"
    and words: "words_ok ?r ?log (W_Copy w ((a, b) # ss))" and rd: "reader_ok ?r ?log (W_Copy w ((a, b) # ss)) (sys_reader s)"
    using assms by (auto simp: ring_inv_def)
  have inv: "rb_seqWords ?r ! ring_slot ?r w = kInvalidSeq"
    and a: "ring_base ?r w \<le> a \<and> a < ring_base ?r w + rb_stride ?r" using pr by auto
  have r': "?r' = ?r\<lparr>rb_buffer := apply_stores [(a, b)] (rb_buffer ?r)\<rparr>" by simp
  have "words_ok ?r' ?log (W_Copy w ss)"
    unfolding words_ok_def
  proof (intro allI impI)
    fix slot seq
    assume "slot < rb_capacity ?r'" "rb_seqWords ?r' ! slot = seq" "seq \<noteq> kInvalidSeq"
    then have "unat seq < published ?log (W_Copy w ss) \<and> ring_slot ?r seq = slot \<and> read_slot ?r seq = ?log ! unat seq"
      and w: "rb_seqWords ?r ! slot = seq" "seq \<noteq> kInvalidSeq"
      using words by (auto simp: words_ok_def)
    moreover have "read_slot ?r' seq = read_slot ?r seq"
      unfolding r' using invalid_slot_differs [of seq ?r w] calculation inv a
      by (intro read_slot_frame [OF wf, of _ w]) auto
    ultimately show "unat seq < published ?log (W_Copy w ss) \<and> ring_slot ?r' seq = slot \<and> read_slot ?r' seq = ?log ! unat seq"
      by simp
  qed
  moreover have "producer_ok ?r' ?log (W_Copy w ss)" using pr by auto
  moreover have "reader_ok ?r' ?log (W_Copy w ss) (sys_reader s)"
    by (rule reader_ok_mono [OF rd wf])
      (use other_slot_byte [OF invalid_slot_differs [OF _ _ inv] a] in auto)
  moreover have "ring_wf ?r'" using wf by (simp add: ring_wf_def)
  ultimately show ?thesis unfolding ring_inv_def by (simp del: producer_ok.simps)
qed

lemma inv_publish:
  assumes "ring_inv s" and "sys_producer s = W_Copy w []"
  shows "ring_inv (s\<lparr>sys_ring := (sys_ring s)\<lparr>rb_seqWords := (rb_seqWords (sys_ring s))[ring_slot (sys_ring s) w := w]\<rparr>,
                     sys_producer := W_Head w\<rparr>)"
proof -
  let ?r = "sys_ring s" and ?log = "sys_log s"
  let ?r' = "?r\<lparr>rb_seqWords := (rb_seqWords ?r)[ring_slot ?r w := w]\<rparr>"
  have wf: "ring_wf ?r" and pr: "producer_ok ?r ?log (W_Copy w [])"
    and words: "words_ok ?r ?log (W_Copy w [])" and rd: "reader_ok ?r ?log (W_Copy w []) (sys_reader s)"
    using assms by (auto simp: ring_inv_def)
  have n: "Suc (unat w) = length ?log" "w = rb_head ?r" "read_slot ?r w = ?log ! unat w" using pr by auto
  have len: "length (rb_seqWords ?r) = rb_capacity ?r" using wf by (simp add: ring_wf_def)
  have wd: "words_ok ?r' ?log (W_Head w)"
    unfolding words_ok_def
  proof (intro allI impI)
    fix slot seq
    assume a: "slot < rb_capacity ?r'" "rb_seqWords ?r' ! slot = seq" "seq \<noteq> kInvalidSeq"
    show "unat seq < published ?log (W_Head w) \<and> ring_slot ?r' seq = slot \<and> read_slot ?r' seq = ?log ! unat seq"
    proof (cases "slot = ring_slot ?r w")
      case True
      then have "seq = w" using a len by simp
      then show ?thesis using True n by simp
    next
      case False
      then have "unat seq < published ?log (W_Copy w []) \<and> ring_slot ?r seq = slot \<and> read_slot ?r seq = ?log ! unat seq"
        using words a by (auto simp: words_ok_def)
      then show ?thesis by auto
    qed
  qed
  have keep: "rb_seqWords ?r ! ring_slot ?r seq = seq"
    if "unat seq < length ?log - Suc 0" "(rb_seqWords ?r)[ring_slot ?r w := w] ! ring_slot ?r seq = seq" for seq
  proof (cases "ring_slot ?r seq = ring_slot ?r w")
    case True
    then have "(rb_seqWords ?r)[ring_slot ?r w := w] ! ring_slot ?r seq = w"
      using len ring_slot_less [OF wf, of w] by simp
    with that(2) have "seq = w" by (rule trans [OF sym])
    then show ?thesis using that(1) n(1) by simp
  next
    case False
    then show ?thesis using that(2) nth_list_update_neq [of "ring_slot ?r w" "ring_slot ?r seq"] by simp
  qed
  have "reader_ok ?r' ?log (W_Head w) (sys_reader s)"
    by (rule reader_ok_mono [OF rd wf]) (simp_all, blast intro: keep)
  moreover have "ring_wf ?r'" using wf by (simp add: ring_wf_def)
  ultimately show ?thesis using n wd by (simp add: ring_inv_def)
qed

lemma inv_head:
  assumes "ring_inv s" and "sys_producer s = W_Head w" and "length (sys_log s) < 2 ^ 64"
  shows "ring_inv (s\<lparr>sys_ring := (sys_ring s)\<lparr>rb_head := w + 1\<rparr>, sys_producer := W_Idle\<rparr>)"
proof -
  let ?r = "sys_ring s" and ?log = "sys_log s"
  have n: "Suc (unat w) = length ?log" and wf: "ring_wf ?r" and rd: "reader_ok ?r ?log (W_Head w) (sys_reader s)"
    using assms by (auto simp: ring_inv_def)
  then have "unat (w + 1) = length ?log" using assms(3) by (simp add: unat_add_lem [THEN iffD1])
  moreover have "reader_ok (?r\<lparr>rb_head := w + 1\<rparr>) ?log W_Idle (sys_reader s)"
    by (rule reader_ok_mono [OF rd wf]) auto
  ultimately show ?thesis using assms by (auto simp: ring_inv_def words_ok_def ring_wf_def)
qed


lemma inv_reader:
  assumes "ring_inv s"
    and "reader_ok (sys_ring s) (sys_log s) (sys_producer s) rd"
  shows "ring_inv (s\<lparr>sys_reader := rd\<rparr>)"
  using assms by (simp add: ring_inv_def)

lemma subspan_snoc:
  "off + n < length xs \<Longrightarrow> subspan xs off (Suc n) = subspan xs off n @ [xs ! (off + n)]"
  by (simp add: subspan_def take_Suc_conv_app_nth)

lemma inv_r_begin:
  assumes "ring_inv s" and "seq \<noteq> kInvalidSeq" and "rb_seqWords (sys_ring s) ! ring_slot (sys_ring s) seq = seq"
  shows "ring_inv (s\<lparr>sys_reader := R_Header seq []\<rparr>)"
proof (rule inv_reader [OF assms(1)])
  have "ring_slot (sys_ring s) seq < rb_capacity (sys_ring s)"
    using assms(1) by (simp add: ring_inv_def ring_slot_less)
  then have "unat seq < published (sys_log s) (sys_producer s)"
    using assms by (auto simp: ring_inv_def words_ok_def)
  then show "reader_ok (sys_ring s) (sys_log s) (sys_producer s) (R_Header seq [])"
    using assms(2) by (simp add: subspan_def)
qed

lemma inv_r_header:
  assumes "ring_inv s" and "sys_reader s = R_Header seq h" and "length h < kHeaderBytes"
  shows "ring_inv (s\<lparr>sys_reader :=
    R_Header seq (h @ [rb_buffer (sys_ring s) ! (ring_base (sys_ring s) seq + length h)])\<rparr>)"
proof (rule inv_reader [OF assms(1)])
  have wf: "ring_wf (sys_ring s)" using assms(1) by (simp add: ring_inv_def)
  have "ring_base (sys_ring s) seq + length h < length (rb_buffer (sys_ring s))"
    using slot_in_buffer [OF wf, of seq] wf assms(3) by (simp add: ring_wf_def)
  then show "reader_ok (sys_ring s) (sys_log s) (sys_producer s)
      (R_Header seq (h @ [rb_buffer (sys_ring s) ! (ring_base (sys_ring s) seq + length h)]))"
    using assms by (auto simp: ring_inv_def subspan_snoc)
qed

lemma inv_r_payload:
  assumes "ring_inv s" and "sys_reader s = R_Payload seq h body"
    and "length body < length (payload_addresses (sys_ring s) seq h)"
  shows "ring_inv (s\<lparr>sys_reader := R_Payload seq h
    (body @ [rb_buffer (sys_ring s) ! (payload_addresses (sys_ring s) seq h ! length body)])\<rparr>)"
proof (rule inv_reader [OF assms(1)])
  have "reader_ok (sys_ring s) (sys_log s) (sys_producer s) (R_Payload seq h body)"
    using assms(1,2) by (simp add: ring_inv_def)
  then show "reader_ok (sys_ring s) (sys_log s) (sys_producer s) (R_Payload seq h
      (body @ [rb_buffer (sys_ring s) ! (payload_addresses (sys_ring s) seq h ! length body)]))"
    using assms(3) unfolding reader_ok.simps by (auto simp: take_Suc_conv_app_nth)
qed

lemma inv_r_check:
  assumes "ring_inv s" and "sys_reader s = R_Payload seq h body"
    and "length body = length (payload_addresses (sys_ring s) seq h)"
  shows "ring_inv (s\<lparr>sys_reader := R_Done seq
      (if rb_seqWords (sys_ring s) ! ring_slot (sys_ring s) seq = seq
       then Some (copied_record (sys_ring s) seq h body) else None)\<rparr>)"
proof (rule inv_reader [OF assms(1)])
  let ?r = "sys_ring s"
  have wf: "ring_wf ?r" and words: "words_ok ?r (sys_log s) (sys_producer s)"
    and rd: "reader_ok ?r (sys_log s) (sys_producer s) (R_Payload seq h body)"
    using assms(1) unfolding ring_inv_def assms(2) by blast+
  have "copied_record ?r seq h body = sys_log s ! unat seq \<and> unat seq < published (sys_log s) (sys_producer s)"
    if w: "rb_seqWords ?r ! ring_slot ?r seq = seq"
  proof -
    have "copied_record ?r seq h body = read_slot ?r seq"
      using rd w assms(3) unfolding reader_ok.simps by (intro copied_record_eq [OF wf]) auto
    moreover have "seq \<noteq> kInvalidSeq" using rd by simp
    ultimately show ?thesis
      using words w ring_slot_less [OF wf, of seq] by (auto simp: words_ok_def)
  qed
  then show "reader_ok ?r (sys_log s) (sys_producer s) (R_Done seq
      (if rb_seqWords ?r ! ring_slot ?r seq = seq then Some (copied_record ?r seq h body) else None))"
    by simp
qed

lemma ring_log_grows: "ring_step s s' \<Longrightarrow> length (sys_log s) \<le> length (sys_log s')"
  by (erule ring_stepE) simp_all

lemma inv_step:
  assumes "ring_step s s'" and "ring_inv s" and "length (sys_log s') < 2 ^ 64"
  shows "ring_inv s'"
  using assms(1)
proof cases
  case (w_begin seq ts wkc ins outs)
  show ?thesis unfolding w_begin(1) by (rule inv_begin [OF assms(2) w_begin(2,4)])
next
  case (w_store seq a b ss)
  show ?thesis unfolding w_store(1) by (rule inv_store [OF assms(2) w_store(2)])
next
  case (w_publish seq)
  show ?thesis unfolding w_publish(1) by (rule inv_publish [OF assms(2) w_publish(2)])
next
  case (w_head seq)
  show ?thesis unfolding w_head(1) using assms(3) w_head(1) by (intro inv_head [OF assms(2) w_head(2)]) simp
next
  case (r_refuse q res seq)
  show ?thesis unfolding r_refuse(1) by (rule inv_reader [OF assms(2)]) simp
next
  case (r_begin q res seq)
  show ?thesis unfolding r_begin(1) by (rule inv_r_begin [OF assms(2) r_begin(3,5)])
next
  case (r_header seq h)
  show ?thesis unfolding r_header(1) by (rule inv_r_header [OF assms(2) r_header(2,3)])
next
  case (r_sizes seq h)
  have "reader_ok (sys_ring s) (sys_log s) (sys_producer s) (R_Header seq h)"
    using assms(2) r_sizes by (simp add: ring_inv_def)
  then show ?thesis unfolding r_sizes(1) by (intro inv_reader [OF assms(2)]) (use r_sizes in auto)
next
  case (r_payload seq h body)
  show ?thesis unfolding r_payload(1) by (rule inv_r_payload [OF assms(2) r_payload(2,3)])
next
  case (r_check seq h body)
  show ?thesis unfolding r_check(1) by (rule inv_r_check [OF assms(2) r_check(2,3)])
qed

definition ring_initial :: "u32 \<Rightarrow> u32 \<Rightarrow> nat \<Rightarrow> ProcessDataRing \<Rightarrow> ring_system" where
  "ring_initial ic oc cap r =
     \<lparr>sys_ring = ring_allocate ic oc cap r, sys_producer = W_Idle, sys_reader = R_Idle, sys_log = []\<rparr>"

lemma inv_initial: "cap \<noteq> 0 \<Longrightarrow> ring_inv (ring_initial ic oc cap r)"
  by (auto simp: ring_inv_def ring_initial_def ring_wf_def words_ok_def ring_allocate_def ring_clear_def Let_def)

interpretation ring_sys: step_system ring_step ring_inv "\<lambda>s. length (sys_log s) < 2 ^ 64"
  by unfold_locales (auto intro: inv_step dest: ring_log_grows)

lemma inv_reachable:
  assumes "ring_step\<^sup>*\<^sup>* (ring_initial ic oc cap r) s" and "cap \<noteq> 0" and "length (sys_log s) < 2 ^ 64"
  shows "ring_inv s"
  by (rule ring_sys.reachable_inv [OF assms(1) inv_initial [OF assms(2)] assms(3)])

text \<open>A call of \<^verbatim>\<open>write\<close> run alone, step by step, is the function \<^const>\<open>ring_write\<close>.\<close>

lemma producer_stores_run:
  "sys_producer s = W_Copy seq ss \<Longrightarrow>
     ring_step\<^sup>*\<^sup>* s (s\<lparr>sys_ring := (sys_ring s)\<lparr>rb_buffer := apply_stores ss (rb_buffer (sys_ring s))\<rparr>,
                      sys_producer := W_Copy seq []\<rparr>)"
proof (induction ss arbitrary: s)
  case Nil
  then have "s\<lparr>sys_ring := (sys_ring s)\<lparr>rb_buffer := rb_buffer (sys_ring s)\<rparr>, sys_producer := W_Copy seq []\<rparr> = s"
    by (cases s) simp
  then show ?case by simp
next
  case (Cons ab ss)
  obtain a b where ab: "ab = (a, b)" by (cases ab)
  let ?s = "s\<lparr>sys_ring := (sys_ring s)\<lparr>rb_buffer := (rb_buffer (sys_ring s))[a := b]\<rparr>, sys_producer := W_Copy seq ss\<rparr>"
  have "ring_step s ?s" using Cons.prems by (intro w_store) (simp add: ab)
  then show ?case using Cons.IH [of ?s] by (simp add: ab converse_rtranclp_into_rtranclp)
qed

lemma ring_write_refines:
  assumes "sys_producer s = W_Idle" and "rb_capacity (sys_ring s) \<noteq> 0"
  shows "ring_step\<^sup>*\<^sup>* s (s\<lparr>sys_ring := ring_write ts wkc ins outs (sys_ring s),
           sys_log := sys_log s @ [recorded (sys_ring s) (rb_head (sys_ring s)) ts wkc ins outs]\<rparr>)"
proof -
  let ?r = "sys_ring s" and ?q = "rb_head (sys_ring s)"
  let ?ss = "payload_stores ?r (ring_base ?r ?q) ts wkc ins outs"
  let ?s1 = "s\<lparr>sys_ring := ?r\<lparr>rb_seqWords := (rb_seqWords ?r)[ring_slot ?r ?q := kInvalidSeq]\<rparr>,
               sys_producer := W_Copy ?q ?ss,
               sys_log := sys_log s @ [recorded ?r ?q ts wkc ins outs]\<rparr>"
  let ?s2 = "?s1\<lparr>sys_ring := (sys_ring ?s1)\<lparr>rb_buffer := apply_stores ?ss (rb_buffer ?r)\<rparr>, sys_producer := W_Copy ?q []\<rparr>"
  let ?s3 = "?s2\<lparr>sys_ring := (sys_ring ?s2)\<lparr>rb_seqWords := (rb_seqWords (sys_ring ?s2))[ring_slot (sys_ring ?s2) ?q := ?q]\<rparr>,
                 sys_producer := W_Head ?q\<rparr>"
  let ?s4 = "?s3\<lparr>sys_ring := (sys_ring ?s3)\<lparr>rb_head := ?q + 1\<rparr>, sys_producer := W_Idle\<rparr>"
  have 1: "ring_step s ?s1" by (rule w_begin [OF assms refl])
  have 2: "ring_step\<^sup>*\<^sup>* ?s1 ?s2" using producer_stores_run [of ?s1 ?q ?ss] by simp
  have 3: "ring_step ?s2 ?s3" by (rule w_publish) simp
  have 4: "ring_step ?s3 ?s4" by (rule w_head) simp
  have eq: "?s4 = s\<lparr>sys_ring := ring_write ts wkc ins outs ?r,
           sys_log := sys_log s @ [recorded ?r ?q ts wkc ins outs]\<rparr>"
    using assms by (simp add: ring_write_eq)
  have "ring_step\<^sup>*\<^sup>* s ?s4"
    by (rule rtranclp.rtrancl_into_rtrancl [where r = ring_step, OF _ 4],
        rule rtranclp.rtrancl_into_rtrancl [where r = ring_step, OF _ 3],
        rule converse_rtranclp_into_rtranclp [where r = ring_step, OF 1 2])
  then show ?thesis using eq by (rule back_subst [where P = "ring_step\<^sup>*\<^sup>* s"])
qed

text \<open>A call of \<^verbatim>\<open>readRecord\<close> run alone is the function \<^const>\<open>readRecord\<close>.\<close>

lemma reader_header_run:
  assumes "ring_wf (sys_ring s)"
    and "sys_reader s = R_Header seq (subspan (rb_buffer (sys_ring s)) (ring_base (sys_ring s) seq) n)" and "n \<le> kHeaderBytes"
  shows "ring_step\<^sup>*\<^sup>* s (s\<lparr>sys_reader :=
    R_Header seq (subspan (rb_buffer (sys_ring s)) (ring_base (sys_ring s) seq) kHeaderBytes)\<rparr>)"
  using assms
proof (induction "kHeaderBytes - n" arbitrary: n s)
  case 0
  then have "n = kHeaderBytes" by simp
  with 0(3) have "s\<lparr>sys_reader := R_Header seq (subspan (rb_buffer (sys_ring s)) (ring_base (sys_ring s) seq) kHeaderBytes)\<rparr> = s"
    by (cases s) simp
  then show ?case by simp
next
  case (Suc k)
  let ?h = "\<lambda>n. subspan (rb_buffer (sys_ring s)) (ring_base (sys_ring s) seq) n"
  let ?s = "s\<lparr>sys_reader := R_Header seq (?h (Suc n))\<rparr>"
  have n: "n < kHeaderBytes" using Suc.hyps(2) by simp
  have b: "ring_base (sys_ring s) seq + kHeaderBytes \<le> length (rb_buffer (sys_ring s))"
    using slot_in_buffer [OF Suc.prems(1), of seq] Suc.prems(1) by (simp add: ring_wf_def)
  then have len: "length (?h n) = n" using n by simp
  have "ring_step s (s\<lparr>sys_reader := R_Header seq (?h n @ [rb_buffer (sys_ring s) ! (ring_base (sys_ring s) seq + length (?h n))])\<rparr>)"
    using len n by (intro r_header [OF Suc.prems(2)]) simp
  moreover have "?h (Suc n) = ?h n @ [rb_buffer (sys_ring s) ! (ring_base (sys_ring s) seq + length (?h n))]"
    using b n len by (simp add: subspan_snoc)
  ultimately have "ring_step s ?s" by (simp only:)
  moreover have "ring_step\<^sup>*\<^sup>* ?s (?s\<lparr>sys_reader := R_Header seq (?h kHeaderBytes)\<rparr>)"
    using Suc.hyps(1) [of "Suc n" ?s] Suc.hyps(2) Suc.prems(1) n by simp
  ultimately have "ring_step\<^sup>*\<^sup>* s (?s\<lparr>sys_reader := R_Header seq (?h kHeaderBytes)\<rparr>)"
    by (rule converse_rtranclp_into_rtranclp [where r = ring_step])
  then show ?case by simp
qed

lemma reader_payload_run:
  assumes "sys_reader s = R_Payload seq h (map ((!) (rb_buffer (sys_ring s))) (take n (payload_addresses (sys_ring s) seq h)))"
    and "n \<le> length (payload_addresses (sys_ring s) seq h)"
  shows "ring_step\<^sup>*\<^sup>* s (s\<lparr>sys_reader :=
    R_Payload seq h (map ((!) (rb_buffer (sys_ring s))) (payload_addresses (sys_ring s) seq h))\<rparr>)"
  using assms
proof (induction "length (payload_addresses (sys_ring s) seq h) - n" arbitrary: n s)
  case 0
  then have "s\<lparr>sys_reader := R_Payload seq h (map ((!) (rb_buffer (sys_ring s))) (payload_addresses (sys_ring s) seq h))\<rparr> = s"
    by (cases s) simp
  then show ?case by simp
next
  case (Suc k)
  let ?as = "payload_addresses (sys_ring s) seq h"
  let ?b = "\<lambda>n. map ((!) (rb_buffer (sys_ring s))) (take n ?as)"
  let ?s = "s\<lparr>sys_reader := R_Payload seq h (?b (Suc n))\<rparr>"
  have n: "n < length ?as" using Suc.hyps(2) by simp
  then have len: "length (?b n) = n" by simp
  have "ring_step s (s\<lparr>sys_reader := R_Payload seq h (?b n @ [rb_buffer (sys_ring s) ! (?as ! length (?b n))])\<rparr>)"
    using len n by (intro r_payload [OF Suc.prems(1)]) simp
  moreover have "?b (Suc n) = ?b n @ [rb_buffer (sys_ring s) ! (?as ! length (?b n))]"
    using n len by (simp add: take_Suc_conv_app_nth)
  ultimately have "ring_step s ?s" by (simp only:)
  moreover have "ring_step\<^sup>*\<^sup>* ?s (?s\<lparr>sys_reader := R_Payload seq h (map ((!) (rb_buffer (sys_ring s))) ?as)\<rparr>)"
    using Suc.hyps(1) [of ?s "Suc n"] Suc.hyps(2) n by simp
  ultimately have "ring_step\<^sup>*\<^sup>* s (?s\<lparr>sys_reader := R_Payload seq h (map ((!) (rb_buffer (sys_ring s))) ?as)\<rparr>)"
    by (rule converse_rtranclp_into_rtranclp [where r = ring_step])
  then show ?case by simp
qed

lemma readRecord_refines:
  assumes wf: "ring_wf (sys_ring s)" and idle: "sys_reader s = R_Idle \<or> sys_reader s = R_Done q res"
    and seq: "seq \<noteq> kInvalidSeq"
  shows "ring_step\<^sup>*\<^sup>* s (s\<lparr>sys_reader := R_Done seq (readRecord seq (sys_ring s))\<rparr>)"
proof (cases "rb_seqWords (sys_ring s) ! ring_slot (sys_ring s) seq = seq")
  case False
  then have "ring_step s (s\<lparr>sys_reader := R_Done seq None\<rparr>)" by (intro r_refuse [OF idle seq]) simp
  then have "ring_step\<^sup>*\<^sup>* s (s\<lparr>sys_reader := R_Done seq None\<rparr>)" by (rule r_into_rtranclp)
  then show ?thesis using False by (simp add: readRecord_def Let_def)
next
  case True
  let ?r = "sys_ring s"
  let ?h = "subspan (rb_buffer ?r) (ring_base ?r seq) kHeaderBytes"
  let ?body = "map ((!) (rb_buffer ?r)) (payload_addresses ?r seq ?h)"
  have cap: "rb_capacity ?r \<noteq> 0" using wf by (simp add: ring_wf_def)
  let ?s1 = "s\<lparr>sys_reader := R_Header seq []\<rparr>" and ?s2 = "s\<lparr>sys_reader := R_Header seq ?h\<rparr>"
  let ?s3 = "s\<lparr>sys_reader := R_Payload seq ?h []\<rparr>" and ?s4 = "s\<lparr>sys_reader := R_Payload seq ?h ?body\<rparr>"
  let ?s5 = "s\<lparr>sys_reader := R_Done seq (Some (copied_record ?r seq ?h ?body))\<rparr>"
  have "ring_step s ?s1" by (rule r_begin [OF idle seq cap True])
  moreover have "ring_step\<^sup>*\<^sup>* ?s1 ?s2" using reader_header_run [of ?s1 seq 0] wf by (simp add: subspan_def)
  moreover have "ring_step ?s2 ?s3"
    using r_sizes [of ?s2 seq ?h] slot_in_buffer [OF wf, of seq] wf by (simp add: ring_wf_def)
  moreover have "ring_step\<^sup>*\<^sup>* ?s3 ?s4" using reader_payload_run [of ?s3 seq ?h 0] by simp
  moreover have "ring_step ?s4 ?s5" using r_check [of ?s4 seq ?h ?body] True by simp
  ultimately have "ring_step\<^sup>*\<^sup>* s ?s5"
    by (meson converse_rtranclp_into_rtranclp rtranclp.rtrancl_into_rtrancl rtranclp_trans)
  moreover have "copied_record ?r seq ?h ?body = read_slot ?r seq" by (rule copied_record_eq [OF wf refl refl])
  ultimately show ?thesis using True cap by (simp add: readRecord_def Let_def)
qed

section \<open>Properties\<close>

text \<open>
  C2: A reader that runs concurrently with the producer never returns a torn record. Whatever the
  interleaving of byte copies and sequence-word accesses, a record \<^verbatim>\<open>readRecord\<close> accepts for a
  sequence number is the whole record that the call of \<^verbatim>\<open>write\<close> with that number published, for as
  long as the 64-bit sequence numbers have not wrapped.
\<close>

theorem ring_no_torn_read:
  assumes "ring_step\<^sup>*\<^sup>* (ring_initial ic oc cap r) s" and "cap \<noteq> 0" and "length (sys_log s) < 2 ^ 64"
    and "sys_reader s = R_Done seq (Some rec)"
  shows "unat seq < length (sys_log s) \<and> rec = sys_log s ! unat seq"
proof -
  have "reader_ok (sys_ring s) (sys_log s) (sys_producer s) (R_Done seq (Some rec))"
    using inv_reachable [OF assms(1-3)] unfolding ring_inv_def assms(4) by blast
  then have "unat seq < published (sys_log s) (sys_producer s)" "rec = sys_log s ! unat seq" by auto
  moreover have "published (sys_log s) (sys_producer s) \<le> length (sys_log s)"
    by (cases "sys_producer s") auto
  ultimately show ?thesis by simp
qed

definition empty_ring :: ProcessDataRing where
  "empty_ring = \<lparr>rb_buffer = [], rb_seqWords = [], rb_stride = 0, rb_capacity = 0, rb_inputCap = 0,
                 rb_outputCap = 0, rb_head = 0\<rparr>"

text \<open>One cycle written to a ring of two slots and then read back.\<close>

definition example_run_end :: ring_system where
  "example_run_end =
     (let s0 = ring_initial 1 1 2 empty_ring; r = ring_write 7 3 [5, 6] [9] (sys_ring s0)
      in s0\<lparr>sys_ring := r, sys_log := [recorded (sys_ring s0) 0 7 3 [5, 6] [9]],
            sys_reader := R_Done 0 (readRecord 0 r)\<rparr>)"

lemma example_run: "ring_step\<^sup>*\<^sup>* (ring_initial 1 1 2 empty_ring) example_run_end"
proof -
  let ?s0 = "ring_initial 1 1 2 empty_ring"
  let ?s1 = "?s0\<lparr>sys_ring := ring_write 7 3 [5, 6] [9] (sys_ring ?s0), sys_log := [recorded (sys_ring ?s0) 0 7 3 [5, 6] [9]]\<rparr>"
  have hd: "sys_producer ?s0 = W_Idle" "rb_capacity (sys_ring ?s0) \<noteq> 0" "rb_head (sys_ring ?s0) = 0" "sys_log ?s0 = []"
    "sys_reader ?s0 = R_Idle"
    by (simp_all add: ring_initial_def ring_allocate_def Let_def)
  have "ring_step\<^sup>*\<^sup>* ?s0 ?s1" using ring_write_refines [OF hd(1,2), of 7 3 "[5, 6]" "[9]"] by (simp add: hd)
  moreover have "ring_wf (sys_ring ?s0)" using inv_initial [of 2 1 1 empty_ring] by (simp add: ring_inv_def)
  then have "ring_wf (sys_ring ?s1)" using hd(2) by (simp add: ring_wf_def ring_write_eq)
  then have "ring_step\<^sup>*\<^sup>* ?s1 (?s1\<lparr>sys_reader := R_Done 0 (readRecord 0 (sys_ring ?s1))\<rparr>)"
    using hd(5) by (intro readRecord_refines) (auto simp: kInvalidSeq_def)
  ultimately have "ring_step\<^sup>*\<^sup>* ?s0 (?s1\<lparr>sys_reader := R_Done 0 (readRecord 0 (sys_ring ?s1))\<rparr>)"
    by (rule rtranclp_trans [where r = ring_step])
  then show ?thesis by (simp add: example_run_end_def Let_def)
qed

lemma example_run_reads:
  "sys_reader example_run_end =
     R_Done 0 (Some \<lparr>rec_seq = 0, rec_timestampNs = 7, rec_wkc = 3, rec_inputs = [5], rec_outputs = [9]\<rparr>)"
  "length (sys_log example_run_end) = 1"
proof -
  have "readRecord 0 (ring_write 7 3 [5, 6] [9] (ring_allocate 1 1 2 empty_ring)) =
      Some \<lparr>rec_seq = 0, rec_timestampNs = 7, rec_wkc = 3, rec_inputs = [5], rec_outputs = [9]\<rparr>"
    using readRecord_holds [OF ring_holds_write [OF ring_holds_allocate [of 2 1 1 empty_ring], of 7 3 "[5, 6]" "[9]"], of 0]
    by (simp add: kInvalidSeq_def recorded_def stored_size_def ring_allocate_def Let_def word_le_nat_alt min_def)
  then show "sys_reader example_run_end =
      R_Done 0 (Some \<lparr>rec_seq = 0, rec_timestampNs = 7, rec_wkc = 3, rec_inputs = [5], rec_outputs = [9]\<rparr>)"
    by (simp add: example_run_end_def ring_initial_def Let_def)
qed (simp add: example_run_end_def Let_def)

theorem ring_no_torn_read_witness:
  "ring_step\<^sup>*\<^sup>* (ring_initial 1 1 2 empty_ring) example_run_end
   \<and> \<lparr>rec_seq = 0, rec_timestampNs = 7, rec_wkc = 3, rec_inputs = [5], rec_outputs = [9]\<rparr> = sys_log example_run_end ! 0"
  using ring_no_torn_read [OF example_run _ _ example_run_reads(1)] example_run example_run_reads(2) by simp

lemma ring_holds_writes:
  assumes "ring_holds r log" and "length log + length cs < 2 ^ 64"
  shows "\<exists>log'. ring_holds (ring_writes cs r) (log @ log') \<and>
    log' = map (\<lambda>(k, ts, wkc, ins, outs). recorded r (of_nat k) ts wkc ins outs)
      (zip [length log..<length log + length cs] cs)"
  using assms
proof (induction cs arbitrary: r log)
  case (Cons c cs)
  obtain ts wkc ins outs where c: "c = (ts, wkc, ins, outs)" by (cases c)
  let ?r = "ring_write ts wkc ins outs r"
  have same: "recorded ?r k a b d e = recorded r k a b d e" for k a b d e
    by (simp add: recorded_def)
  have "ring_holds ?r (log @ [recorded r (of_nat (length log)) ts wkc ins outs])"
    using Cons.prems by (intro ring_holds_write) simp_all
  with Cons.IH [of ?r "log @ [recorded r (of_nat (length log)) ts wkc ins outs]"] Cons.prems(2)
  show ?case by (simp add: c same upt_conv_Cons del: upt_Suc)
qed simp

text \<open>
  C17: Reading the ring back: after any sequence of calls of \<^verbatim>\<open>write\<close> on an allocated ring,
  \<^verbatim>\<open>readRecord\<close> returns, for each of the newest \<^verbatim>\<open>capacity\<close> sequence numbers, the timestamp, working
  counter and bytes of the call with that number, cut to the ring's per-direction capacities, and
  nothing for every older or later number.
\<close>

theorem ring_reads_back:
  assumes "cap \<noteq> 0" and "length calls < 2 ^ 64" and "seq \<noteq> kInvalidSeq"
  shows "readRecord seq (ring_writes calls (ring_allocate ic oc cap r)) =
    (if unat seq < length calls \<and> length calls \<le> unat seq + cap
     then case calls ! unat seq of (ts, wkc, ins, outs) \<Rightarrow>
       Some \<lparr>rec_seq = seq, rec_timestampNs = ts, rec_wkc = wkc,
             rec_inputs = take (unat (min (of_nat (length ins)) ic)) ins,
             rec_outputs = take (unat (min (of_nat (length outs)) oc)) outs\<rparr>
     else None)"
proof -
  let ?r0 = "ring_allocate ic oc cap r"
  let ?log = "map (\<lambda>(k, ts, wkc, ins, outs). recorded ?r0 (of_nat k) ts wkc ins outs) (zip [0..<length calls] calls)"
  have holds: "ring_holds (ring_writes calls ?r0) ?log"
    using ring_holds_writes [OF ring_holds_allocate [OF assms(1)], of calls] assms(2) by simp
  have geo: "rb_capacity (ring_writes cs q) = rb_capacity q" for cs q
    by (induction cs q rule: ring_writes.induct) simp_all
  have alloc: "rb_capacity ?r0 = cap" "rb_inputCap ?r0 = ic" "rb_outputCap ?r0 = oc"
    using assms(1) by (simp_all add: ring_allocate_def Let_def)
  have "?log ! unat seq = (case calls ! unat seq of (ts, wkc, ins, outs) \<Rightarrow> recorded ?r0 seq ts wkc ins outs)"
    if "unat seq < length calls"
    using that by (simp split: prod.split)
  then show ?thesis
    using readRecord_holds [OF holds] assms(2,3)
    by (auto simp: geo alloc recorded_def stored_size_def split: prod.split)
qed

theorem ring_reads_back_witness:
  "readRecord 2 (ring_writes [(7, 3, [5], []), (8, 3, [6], []), (9, 2, [4, 4], [])] (ring_allocate 1 1 2 empty_ring)) =
     Some \<lparr>rec_seq = 2, rec_timestampNs = 9, rec_wkc = 2, rec_inputs = [4], rec_outputs = []\<rparr>
   \<and> readRecord 0 (ring_writes [(7, 3, [5], []), (8, 3, [6], []), (9, 2, [4, 4], [])] (ring_allocate 1 1 2 empty_ring)) = None"
  using ring_reads_back [of 2 "[(7, 3, [5], []), (8, 3, [6], []), (9, 2, [4, 4], [])]" 2 1 1 empty_ring]
    ring_reads_back [of 2 "[(7, 3, [5], []), (8, 3, [6], []), (9, 2, [4, 4], [])]" 0 1 1 empty_ring]
  by (simp add: kInvalidSeq_def word_le_nat_alt min_def)



end
