(* ===== verification/Ethercat_State.thy ===== *)
theory Ethercat_State
  imports MM_Prelude
begin

text \<open>
  The EtherCAT application-layer vocabulary of \<^verbatim>\<open>libs/comm/fieldbus_driver.h\<close> and the state rules
  of \<^verbatim>\<open>libs/node/device_manager.cc\<close>: AL status words, what a slave contributes to the working
  counter, and which state changes are legal. An \<^verbatim>\<open>EtherCatState\<close> read from a register can hold a
  value that names no state; \<open>AlUnlisted\<close> keeps it.
\<close>

unbundle bit_operations_syntax

datatype EtherCatState = Init | PreOp | Boot | SafeOp | Op | AlUnlisted u16

fun al_raw :: "EtherCatState \<Rightarrow> u16" where
  "al_raw Init = 0x01"
| "al_raw PreOp = 0x02"
| "al_raw Boot = 0x03"
| "al_raw SafeOp = 0x04"
| "al_raw Op = 0x08"
| "al_raw (AlUnlisted w) = w"

definition al_of_raw :: "u16 \<Rightarrow> EtherCatState" where
  "al_of_raw w =
     (if w = 0x01 then Init else if w = 0x02 then PreOp else if w = 0x03 then Boot
      else if w = 0x04 then SafeOp else if w = 0x08 then Op else AlUnlisted w)"

definition alState :: "u16 \<Rightarrow> EtherCatState" where
  "alState alStatus = al_of_raw (alStatus AND 0x000F)"

definition alHasError :: "u16 \<Rightarrow> bool" where
  "alHasError alStatus \<longleftrightarrow> alStatus AND 0x0010 \<noteq> 0"

fun al_toString :: "EtherCatState \<Rightarrow> string" where
  "al_toString Init = ''INIT''"
| "al_toString PreOp = ''PRE-OP''"
| "al_toString Boot = ''BOOT''"
| "al_toString SafeOp = ''SAFE-OP''"
| "al_toString Op = ''OP''"
| "al_toString (AlUnlisted w) = ''UNKNOWN''"

datatype Reachability = Answering | AddressLost | NotAnswering

fun reachability_toString :: "Reachability \<Rightarrow> string" where
  "reachability_toString Answering = ''answering''"
| "reachability_toString AddressLost = ''addressLost''"
| "reachability_toString NotAnswering = ''notAnswering''"

definition workingCounterContribution :: "u16 \<Rightarrow> bool \<Rightarrow> bool \<Rightarrow> int" where
  "workingCounterContribution alStatus hasOutputs hasInputs =
     (if alHasError alStatus then 0
      else case alState alStatus of
             SafeOp \<Rightarrow> (if hasOutputs then 2 else 0) + (if hasInputs then 1 else 0)
           | Op \<Rightarrow> (if hasOutputs then 2 else 0) + (if hasInputs then 1 else 0)
           | _ \<Rightarrow> 0)"

definition exchangesProcessData :: "u16 \<Rightarrow> bool" where
  "exchangesProcessData alStatus \<longleftrightarrow>
     \<not> alHasError alStatus \<and> (alState alStatus = SafeOp \<or> alState alStatus = Op)"

record SlaveStateRaw =
  ssr_alStatus :: u16
  ssr_alStatusCode :: u16
  ssr_reachability :: Reachability

record DeviceStateInfo =
  dsi_slavePosition :: u16
  dsi_alStatus :: u16
  dsi_alState :: u16
  dsi_error :: bool
  dsi_alStatusCode :: u16
  dsi_reachability :: Reachability

definition decodeStateInfo :: "u16 \<Rightarrow> SlaveStateRaw \<Rightarrow> DeviceStateInfo" where
  "decodeStateInfo slavePosition raw =
     \<lparr>dsi_slavePosition = slavePosition, dsi_alStatus = ssr_alStatus raw,
      dsi_alState = al_raw (alState (ssr_alStatus raw)), dsi_error = alHasError (ssr_alStatus raw),
      dsi_alStatusCode = ssr_alStatusCode raw, dsi_reachability = ssr_reachability raw\<rparr>"

definition kValidStateTransitions :: "(EtherCatState \<times> EtherCatState list) list" where
  "kValidStateTransitions =
     [(Init, [Init, PreOp, Boot]),
      (PreOp, [PreOp, Init, SafeOp]),
      (SafeOp, [SafeOp, PreOp, Init, Op]),
      (Op, [Op, SafeOp, PreOp, Init]),
      (Boot, [Boot, Init])]"

definition isValidStateTransition :: "EtherCatState \<Rightarrow> EtherCatState \<Rightarrow> bool" where
  "isValidStateTransition currentState targetState \<longleftrightarrow>
     (case map_of kValidStateTransitions currentState of
        None \<Rightarrow> False
      | Some allowed \<Rightarrow> targetState \<in> set allowed)"

section \<open>Facts\<close>

lemma al_raw_of_raw [simp]: "al_raw (al_of_raw w) = w"
  by (auto simp: al_of_raw_def)

lemma al_of_raw_cases:
  "al_of_raw w = Init \<longleftrightarrow> w = 0x01" "al_of_raw w = PreOp \<longleftrightarrow> w = 0x02" "al_of_raw w = Boot \<longleftrightarrow> w = 0x03"
  "al_of_raw w = SafeOp \<longleftrightarrow> w = 0x04" "al_of_raw w = Op \<longleftrightarrow> w = 0x08"
  by (auto simp: al_of_raw_def)

lemma workingCounterContribution_exchanges:
  "workingCounterContribution s o' i =
     (if exchangesProcessData s then (if o' then 2 else 0) + (if i then 1 else 0) else 0)"
  by (auto simp: workingCounterContribution_def exchangesProcessData_def split: EtherCatState.splits)

lemma workingCounterContribution_nonneg: "0 \<le> workingCounterContribution s o' i"
  by (simp add: workingCounterContribution_exchanges)

text \<open>A level per state of the climb, with BOOT beside it.\<close>

fun al_level :: "EtherCatState \<Rightarrow> nat option" where
  "al_level Init = Some 0"
| "al_level PreOp = Some 1"
| "al_level SafeOp = Some 2"
| "al_level Op = Some 3"
| "al_level _ = None"

text \<open>
  The transition table is the rule the state machine documents: from INIT, PRE-OP, SAFE-OP and
  OP one may climb a single step or drop to any lower state or stay; BOOT is entered only from INIT
  or itself and left only for INIT; a state that names nothing permits nothing.
\<close>

theorem isValidStateTransition_rule:
  "isValidStateTransition cur tgt \<longleftrightarrow>
     (case (al_level cur, al_level tgt) of
        (Some i, Some j) \<Rightarrow> j \<le> Suc i
      | (Some i, None) \<Rightarrow> cur = Init \<and> tgt = Boot
      | (None, Some j) \<Rightarrow> cur = Boot \<and> tgt = Init
      | (None, None) \<Rightarrow> cur = Boot \<and> tgt = Boot)"
  by (cases cur; cases tgt) (simp_all add: isValidStateTransition_def kValidStateTransitions_def)

end
