(* ===== verification/Process_Data.thy ===== *)
theory Process_Data
  imports Process_Image Process_Data_Ring Ethercat_State
begin

text \<open>
  One cycle of process data: \<^verbatim>\<open>libs/node/process_data.h\<close> and, of \<^verbatim>\<open>libs/node/device_manager.cc\<close>,
  \<^verbatim>\<open>exchangeProcessData\<close>, \<^verbatim>\<open>decodeInputsIntoCells\<close>, \<^verbatim>\<open>readPdo\<close> and \<^verbatim>\<open>isOutputMapped\<close>. A parameter's
  cell is reached through its address. The fieldbus driver and the system clock are parameters: the
  exchange is given the output bytes and the former input bytes and returns the working counter and
  the new input bytes.
\<close>

unbundle bit_operations_syntax

type_synonym cells = "nat \<Rightarrow> DeviceParameter"

record 'w rt_driver =
  drv_exchangeProcessData :: "bytes \<Rightarrow> bytes \<Rightarrow> 'w \<Rightarrow> (int \<times> bytes) \<times> 'w"
  drv_slaveState :: "'w \<Rightarrow> u16 \<Rightarrow> u16"
  drv_system_now :: "'w \<Rightarrow> u64 \<times> 'w"

record ProcessBuffer =
  pb_size :: u32
  pb_bytes :: bytes

record ProcessData =
  pd_image :: "ProcessImage option"
  pd_generations :: "ProcessImage list"
  pd_ring :: ProcessDataRing
  pd_outScratch :: ProcessBuffer
  pd_inScratch :: ProcessBuffer
  pd_inCycle :: int
  pd_lastWkc :: int
  pd_expectedWkc :: int
  pd_shortWkcCycles :: u64
  pd_firstShortWkcNs :: u64
  pd_lastShortWkcNs :: u64

definition healthy :: "ProcessData \<Rightarrow> bool" where
  "healthy pd \<longleftrightarrow> pd_image pd \<noteq> None \<and> pd_lastWkc pd \<ge> pd_expectedWkc pd"

section \<open>The cycle\<close>

definition compose_entry :: "cells \<Rightarrow> ProcessImageEntry \<Rightarrow> bytes \<Rightarrow> bytes" where
  "compose_entry cells entry outputs =
     (case pie_parameter entry of
        None \<Rightarrow> outputs
      | Some a \<Rightarrow>
          insertBits outputs (pie_bitOffset entry) (pie_bitLength entry) (unpackLeBits (loadBits (cells a)) 8))"

definition compose_outputs :: "cells \<Rightarrow> ProcessImage \<Rightarrow> bytes" where
  "compose_outputs cells img =
     fold (compose_entry cells) (pi_outputs img) (replicate (unat (pi_outputBytes img)) 0)"

text \<open>The scratch arrays keep the bytes past the live region.\<close>

definition scratch_store :: "u32 \<Rightarrow> bytes \<Rightarrow> ProcessBuffer \<Rightarrow> ProcessBuffer" where
  "scratch_store n bs b = b\<lparr>pb_size := n, pb_bytes := bs @ drop (length bs) (pb_bytes b)\<rparr>"

definition note_short_cycle :: "int \<Rightarrow> u64 \<Rightarrow> ProcessData \<Rightarrow> ProcessData" where
  "note_short_cycle wkc timestampNs pd =
     (if wkc < pd_expectedWkc pd
      then let shortCycles = pd_shortWkcCycles pd;
               pd = (if shortCycles = 0 then pd\<lparr>pd_firstShortWkcNs := timestampNs\<rparr> else pd)
           in pd\<lparr>pd_lastShortWkcNs := timestampNs, pd_shortWkcCycles := shortCycles + 1\<rparr>
      else pd)"

fun decode_loop ::
  "(u16 \<Rightarrow> u16) \<Rightarrow> bytes \<Rightarrow> u16 \<Rightarrow> bool \<Rightarrow> ProcessImageEntry list \<Rightarrow> cells \<Rightarrow> cells" where
  "decode_loop slaveState inputs position exchanging [] cells = cells"
| "decode_loop slaveState inputs position exchanging (entry # es) cells =
     (let (position, exchanging) =
            (if pie_slavePosition entry \<noteq> position
             then (pie_slavePosition entry, exchangesProcessData (slaveState (pie_slavePosition entry)))
             else (position, exchanging))
      in if \<not> exchanging then decode_loop slaveState inputs position exchanging es cells
         else case pie_parameter entry of
                None \<Rightarrow> decode_loop slaveState inputs position exchanging es cells
              | Some a \<Rightarrow>
                  let buf = extractBits_into inputs (pie_bitOffset entry) (pie_bitLength entry) 8
                  in decode_loop slaveState inputs position exchanging es
                       (cells(a := storeBits (packLeBits buf) (cells a))))"

definition decodeInputsIntoCells :: "(u16 \<Rightarrow> u16) \<Rightarrow> bytes \<Rightarrow> ProcessImage \<Rightarrow> cells \<Rightarrow> cells" where
  "decodeInputsIntoCells slaveState inputs img cells =
     decode_loop slaveState inputs 0 False (pi_inputs img) cells"

definition exchangeProcessData ::
  "'w rt_driver \<Rightarrow> ProcessData \<Rightarrow> cells \<Rightarrow> 'w \<Rightarrow> ProcessData \<times> cells \<times> 'w" where
  "exchangeProcessData drv pd cells w =
     (let pd = pd\<lparr>pd_inCycle := pd_inCycle pd + 1\<rparr>
      in case pd_image pd of
           None \<Rightarrow> (pd\<lparr>pd_inCycle := pd_inCycle pd - 1\<rparr>, cells, w)
         | Some img \<Rightarrow>
             let outputs = compose_outputs cells img;
                 pd = pd\<lparr>pd_outScratch := scratch_store (pi_outputBytes img) outputs (pd_outScratch pd)\<rparr>;
                 ((wkc, inputs), w) =
                   drv_exchangeProcessData drv outputs
                     (take (unat (pi_inputBytes img)) (pb_bytes (pd_inScratch pd))) w;
                 pd = pd\<lparr>pd_inScratch := scratch_store (pi_inputBytes img) inputs (pd_inScratch pd),
                         pd_lastWkc := wkc\<rparr>;
                 (timestampNs, w) = drv_system_now drv w;
                 pd = note_short_cycle wkc timestampNs pd;
                 pd = pd\<lparr>pd_ring := ring_write timestampNs (of_int wkc) inputs outputs (pd_ring pd)\<rparr>;
                 cells = decodeInputsIntoCells (drv_slaveState drv w) inputs img cells
             in (pd\<lparr>pd_inCycle := pd_inCycle pd - 1\<rparr>, cells, w))"

section \<open>Reading an object from the live image\<close>

definition readPdo :: "ProcessData \<Rightarrow> cells \<Rightarrow> u16 \<Rightarrow> u16 \<Rightarrow> u8 \<Rightarrow> bytes option" where
  "readPdo pd cells slavePosition index subindex =
     (case pd_image pd of
        None \<Rightarrow> None
      | Some img \<Rightarrow>
          (case image_find img slavePosition index subindex of
             None \<Rightarrow> None
           | Some loc \<Rightarrow>
               if loc_isOutput loc
               then map_option (\<lambda>a. rawValueBytes (cells a)) (pie_parameter (pi_outputs img ! loc_entryIndex loc))
               else if \<not> healthy pd then None
               else let head = rb_head (pd_ring pd)
                    in if head = 0 then None
                       else map_option
                              (\<lambda>rec. extractBits (rec_inputs rec) (loc_bitOffset loc) (loc_bitLength loc))
                              (readRecord (head - 1) (pd_ring pd))))"

definition isOutputMapped :: "ProcessData \<Rightarrow> u16 \<Rightarrow> u16 \<Rightarrow> u8 \<Rightarrow> bool" where
  "isOutputMapped pd slavePosition index subindex =
     (case pd_image pd of
        None \<Rightarrow> False
      | Some img \<Rightarrow>
          (case image_find img slavePosition index subindex of
             None \<Rightarrow> False
           | Some loc \<Rightarrow> loc_isOutput loc))"

section \<open>The composed outputs, bit by bit\<close>

definition covers :: "ProcessImageEntry \<Rightarrow> nat \<Rightarrow> bool" where
  "covers e k \<longleftrightarrow> entry_start e \<le> k \<and> k < entry_end e"

lemma covers_apart: "entries_apart a b \<Longrightarrow> covers a k \<Longrightarrow> \<not> covers b k"
  by (auto simp: entries_apart_def covers_def)

lemma length_compose_fold [simp]: "length (fold (compose_entry cells) es out) = length out"
  by (induction es arbitrary: out) (simp_all add: compose_entry_def split: option.splits)

lemma buf_bit_compose_entry:
  assumes "entry_end e \<le> 8 * length out" and "8 * length out \<le> 2 ^ 32"
  shows "buf_bit (compose_entry cells e out) k \<longleftrightarrow>
    (case pie_parameter e of
       Some a \<Rightarrow> (if covers e k then k - entry_start e < 64 \<and> bit (loadBits (cells a)) (k - entry_start e)
                 else buf_bit out k)
     | None \<Rightarrow> buf_bit out k)"
proof (cases "pie_parameter e")
  case (Some a)
  have "unat (pie_bitOffset e) + unat (pie_bitLength e) \<le> 2 ^ 32" using assms by (simp add: entry_end_def)
  then show ?thesis
    using assms(1) Some
    by (auto simp: compose_entry_def buf_bit_insertBits byte_bits covers_def entry_start_def entry_end_def)
qed (simp add: compose_entry_def)

lemma buf_bit_compose:
  assumes "sorted_wrt entries_apart es" and "\<And>e. e \<in> set es \<Longrightarrow> entry_end e \<le> 8 * length out"
    and "8 * length out \<le> 2 ^ 32"
  shows "buf_bit (fold (compose_entry cells) es out) k \<longleftrightarrow>
    (case find (\<lambda>e. pie_parameter e \<noteq> None \<and> covers e k) es of
       Some e \<Rightarrow> bit (loadBits (cells (the (pie_parameter e)))) (k - entry_start e)
     | None \<Rightarrow> buf_bit out k)"
  using assms
proof (induction es arbitrary: out)
  case (Cons e es)
  let ?P = "\<lambda>e. pie_parameter e \<noteq> None \<and> covers e k"
  let ?out = "compose_entry cells e out"
  have len: "length ?out = length out" using length_compose_fold [of cells "[e]" out] by simp
  have IH: "buf_bit (fold (compose_entry cells) es ?out) k \<longleftrightarrow>
      (case find ?P es of
         Some e \<Rightarrow> bit (loadBits (cells (the (pie_parameter e)))) (k - entry_start e)
       | None \<Rightarrow> buf_bit ?out k)"
    using Cons.prems len by (intro Cons.IH) auto
  have e: "buf_bit ?out k \<longleftrightarrow> (if ?P e then bit (loadBits (cells (the (pie_parameter e)))) (k - entry_start e) else buf_bit out k)"
    using Cons.prems(2) [of e] Cons.prems(3) bit_imp_le_length
    by (fastforce simp: buf_bit_compose_entry split: option.splits)
  have "find ?P es = None" if "?P e"
    using that Cons.prems(1) by (auto simp: find_None_iff dest: covers_apart)
  with IH e show ?case by (auto split: option.splits)
qed simp

lemma find_unique:
  assumes "sorted_wrt entries_apart es" and "e \<in> set es" and "P e" and "covers e k"
  shows "find (\<lambda>x. P x \<and> covers x k) es = Some e"
  using assms
proof (induction es)
  case (Cons a es)
  show ?case
  proof (cases "e = a")
    case False
    then have "e \<in> set es" "entries_apart a e" using Cons.prems by auto
    then show ?thesis using Cons covers_apart by auto
  qed (use Cons in simp)
qed simp

lemma buf_bit_compose_outputs:
  assumes "image_fields_ok (unat (pi_outputBytes img)) (pi_outputs img)"
    and "unat (pi_outputBytes img) \<le> kMaxProcessImageBytes"
  shows "buf_bit (compose_outputs cells img) k \<longleftrightarrow>
    (case find (\<lambda>e. pie_parameter e \<noteq> None \<and> covers e k) (pi_outputs img) of
       Some e \<Rightarrow> bit (loadBits (cells (the (pie_parameter e)))) (k - entry_start e)
     | None \<Rightarrow> False)"
  using assms unfolding compose_outputs_def image_fields_ok_def
  by (subst buf_bit_compose) (auto simp: list_all_iff kMaxProcessImageBytes_def split: option.splits)

lemma length_compose_outputs [simp]: "length (compose_outputs cells img) = unat (pi_outputBytes img)"
  by (simp add: compose_outputs_def)

lemma compose_outputs_field:
  assumes ok: "image_fields_ok (unat (pi_outputBytes img)) (pi_outputs img)"
    and size: "unat (pi_outputBytes img) \<le> kMaxProcessImageBytes"
    and e: "e \<in> set (pi_outputs img)" "pie_parameter e = Some a"
  shows "extractBits (compose_outputs cells img) (pie_bitOffset e) (pie_bitLength e) =
           extractBits (unpackLeBits (loadBits (cells a)) 8) 0 (pie_bitLength e)"
proof (rule bytes_eq_by_bits)
  fix k
  have "entry_end e \<le> 8 * unat (pi_outputBytes img)"
    using ok e(1) by (auto simp: image_fields_ok_def list_all_iff)
  then have fit: "unat (pie_bitOffset e) + unat (pie_bitLength e) \<le> 2 ^ 32"
    using size by (simp add: entry_end_def kMaxProcessImageBytes_def)
  have "buf_bit (compose_outputs cells img) (unat (pie_bitOffset e) + k) \<longleftrightarrow> bit (loadBits (cells a)) k"
    if "k < unat (pie_bitLength e)"
  proof -
    have "covers e (unat (pie_bitOffset e) + k)" using that by (simp add: covers_def entry_start_def entry_end_def)
    then have "find (\<lambda>x. pie_parameter x \<noteq> None \<and> covers x (unat (pie_bitOffset e) + k)) (pi_outputs img) = Some e"
      using ok e by (intro find_unique) (auto simp: image_fields_ok_def)
    then show ?thesis using e(2) by (simp add: buf_bit_compose_outputs [OF ok size] entry_start_def)
  qed
  then show "buf_bit (extractBits (compose_outputs cells img) (pie_bitOffset e) (pie_bitLength e)) k =
      buf_bit (extractBits (unpackLeBits (loadBits (cells a)) 8) 0 (pie_bitLength e)) k"
    using fit bit_imp_le_length [of "loadBits (cells a)" k]
    by (auto simp: extractBits_def buf_bit_extractBits_into byte_bits)
qed (simp add: extractBits_def)

section \<open>The decoded inputs\<close>

definition decode_entry :: "(u16 \<Rightarrow> u16) \<Rightarrow> bytes \<Rightarrow> ProcessImageEntry \<Rightarrow> cells \<Rightarrow> cells" where
  "decode_entry slaveState inputs e cells =
     (if exchangesProcessData (slaveState (pie_slavePosition e))
      then case pie_parameter e of
             None \<Rightarrow> cells
           | Some a \<Rightarrow> cells(a := storeBits (packLeBits
               (extractBits_into inputs (pie_bitOffset e) (pie_bitLength e) 8)) (cells a))
      else cells)"

text \<open>Loading the state once per run of entries is the same as asking for every entry.\<close>

lemma decode_loop_eq:
  assumes "list_all (\<lambda>e. pie_slavePosition e \<noteq> 0) es"
    and "position = 0 \<or> exchanging = exchangesProcessData (slaveState position)"
  shows "decode_loop slaveState inputs position exchanging es cells =
           fold (decode_entry slaveState inputs) es cells"
  using assms
proof (induction es arbitrary: position exchanging cells)
  case (Cons e es)
  show ?case
  proof (cases "pie_slavePosition e = position")
    case True
    with Cons.prems have "exchanging = exchangesProcessData (slaveState (pie_slavePosition e))" by auto
    then show ?thesis
      using Cons.prems True
      by (cases "pie_parameter e") (auto simp: Cons.IH decode_entry_def Let_def fun_upd_def)
  next
    case False
    then show ?thesis
      using Cons.prems by (cases "pie_parameter e") (auto simp: Cons.IH decode_entry_def Let_def fun_upd_def)
  qed
qed simp

lemma decode_fold_other:
  assumes "\<And>e. e \<in> set es \<Longrightarrow> exchangesProcessData (slaveState (pie_slavePosition e)) \<Longrightarrow> pie_parameter e \<noteq> Some a"
  shows "fold (decode_entry slaveState inputs) es cells a = cells a"
  using assms
proof (induction es arbitrary: cells)
  case (Cons e es)
  have "decode_entry slaveState inputs e cells a = cells a"
    using Cons.prems [of e] by (auto simp: decode_entry_def split: option.splits)
  moreover have "fold (decode_entry slaveState inputs) es (decode_entry slaveState inputs e cells) a =
      decode_entry slaveState inputs e cells a"
    using Cons.prems by (intro Cons.IH) auto
  ultimately show ?case by simp
qed simp

definition mapped_parameters :: "ProcessImageEntry list \<Rightarrow> nat list" where
  "mapped_parameters es = map (\<lambda>e. the (pie_parameter e)) (filter (\<lambda>e. pie_parameter e \<noteq> None) es)"

lemma mapped_parameters_Cons:
  "mapped_parameters (e # es) =
     (case pie_parameter e of None \<Rightarrow> mapped_parameters es | Some a \<Rightarrow> a # mapped_parameters es)"
  by (auto simp: mapped_parameters_def split: option.splits)

lemma in_mapped_parameters: "e \<in> set es \<Longrightarrow> pie_parameter e = Some a \<Longrightarrow> a \<in> set (mapped_parameters es)"
  by (force simp: mapped_parameters_def)

lemma decode_fold_cell:
  assumes "distinct (mapped_parameters es)" and "e \<in> set es" and "pie_parameter e = Some a"
    and "exchangesProcessData (slaveState (pie_slavePosition e))"
  shows "fold (decode_entry slaveState inputs) es cells a =
    storeBits (packLeBits (extractBits_into inputs (pie_bitOffset e) (pie_bitLength e) 8)) (cells a)"
  using assms
proof (induction es arbitrary: cells)
  case (Cons x es)
  show ?case
  proof (cases "x = e")
    case True
    have "fold (decode_entry slaveState inputs) es (decode_entry slaveState inputs e cells) a =
        decode_entry slaveState inputs e cells a"
      using Cons.prems(1,3) True
      by (intro decode_fold_other) (auto simp: mapped_parameters_Cons dest: in_mapped_parameters)
    moreover have "decode_entry slaveState inputs e cells a =
        storeBits (packLeBits (extractBits_into inputs (pie_bitOffset e) (pie_bitLength e) 8)) (cells a)"
      using Cons.prems by (simp add: decode_entry_def)
    ultimately show ?thesis using True by simp
  next
    case False
    then have e: "e \<in> set es" using Cons.prems by simp
    then have "pie_parameter x \<noteq> Some a"
      using Cons.prems(1,3) in_mapped_parameters [OF e] by (auto simp: mapped_parameters_Cons)
    then have "decode_entry slaveState inputs x cells a = cells a"
      by (auto simp: decode_entry_def split: option.splits)
    then show ?thesis
      using Cons.IH [of "decode_entry slaveState inputs x cells"] Cons.prems e
      by (auto simp: mapped_parameters_Cons split: option.splits)
  qed
qed simp

lemma exchange_mapped:
  assumes "pd_image pd = Some img"
    and "drv_exchangeProcessData drv (compose_outputs cells img)
           (take (unat (pi_inputBytes img)) (pb_bytes (pd_inScratch pd))) w = ((wkc, inputs), w1)"
    and "drv_system_now drv w1 = (ts, w2)"
  shows "exchangeProcessData drv pd cells w =
    ((note_short_cycle wkc ts (pd\<lparr>
        pd_outScratch := scratch_store (pi_outputBytes img) (compose_outputs cells img) (pd_outScratch pd),
        pd_inScratch := scratch_store (pi_inputBytes img) inputs (pd_inScratch pd), pd_lastWkc := wkc\<rparr>))
       \<lparr>pd_ring := ring_write ts (of_int wkc) inputs (compose_outputs cells img) (pd_ring pd)\<rparr>,
     decodeInputsIntoCells (drv_slaveState drv w2) inputs img cells, w2)"
  using assms by (simp add: exchangeProcessData_def note_short_cycle_def Let_def)


section \<open>Properties\<close>


definition example_cells :: cells where
  "example_cells a = \<lparr>dp_index = 0x6040, dp_subindex = 0, dp_name = [], dp_objectCode = 7,
     dp_dataType = 0x0006, dp_bitLength = 16, dp_access = 0, dp_origin = ObjectDictionary,
     dp_cell = 0x000F, dp_rawValue = [], dp_syncState = Unknown, dp_unit = None,
     dp_defaultValue = None, dp_minValue = None, dp_maxValue = None\<rparr>"


lemma note_short_cycle_other [simp]:
  "pd_image (note_short_cycle wkc ts pd) = pd_image pd" "pd_lastWkc (note_short_cycle wkc ts pd) = pd_lastWkc pd"
  "pd_expectedWkc (note_short_cycle wkc ts pd) = pd_expectedWkc pd" "pd_inCycle (note_short_cycle wkc ts pd) = pd_inCycle pd"
  "pd_generations (note_short_cycle wkc ts pd) = pd_generations pd"
  by (simp_all add: note_short_cycle_def Let_def)


definition example_drv :: "unit rt_driver" where
  "example_drv =
     \<lparr>drv_exchangeProcessData = (\<lambda>outs ins w. ((6, [0x37, 0x02, 0x50, 0x00]), w)),
      drv_slaveState = (\<lambda>w p. if p = 1 then 0x0008 else 0x0002),
      drv_system_now = (\<lambda>w. (1000, w))\<rparr>"

definition example_pd :: ProcessData where
  "example_pd =
     \<lparr>pd_image = Some example_image, pd_generations = [example_image],
      pd_ring = ring_allocate 4 5 3 empty_ring,
      pd_outScratch = \<lparr>pb_size = 0, pb_bytes = replicate 8 0\<rparr>, pd_inScratch = \<lparr>pb_size = 0, pb_bytes = replicate 8 0\<rparr>,
      pd_inCycle = 0, pd_lastWkc = 0, pd_expectedWkc = 6, pd_shortWkcCycles = 0,
      pd_firstShortWkcNs = 0, pd_lastShortWkcNs = 0\<rparr>"

lemma example_exchange:
  "drv_exchangeProcessData example_drv outs ins w = ((6, [0x37, 0x02, 0x50, 0x00]), w)"
  "drv_system_now example_drv w = (1000, w)"
  by (simp_all add: example_drv_def)


text \<open>
  A healthy point read of a mapped input returns the bits the last cycle received: after a cycle
  that met the expected working counter, \<^verbatim>\<open>readPdo\<close> serves the object's field of that cycle's input
  image from the recorder.
\<close>

theorem readPdo_serves_last_cycle:
  assumes "pd_image pd = Some img"
    and "drv_exchangeProcessData drv (compose_outputs cells img)
           (take (unat (pi_inputBytes img)) (pb_bytes (pd_inScratch pd))) w = ((wkc, inputs), w1)"
    and "ring_holds (pd_ring pd) log" and "length log < 2 ^ 64 - 1"
    and "rb_inputCap (pd_ring pd) = pi_inputBytes img" and "length inputs = unat (pi_inputBytes img)"
    and "exchangeProcessData drv pd cells w = (pd', cells', w')" and "pd_expectedWkc pd \<le> wkc"
    and "image_find img p i s = Some loc" and "\<not> loc_isOutput loc"
  shows "readPdo pd' cells' p i s = Some (extractBits inputs (loc_bitOffset loc) (loc_bitLength loc))"
proof -
  obtain ts w2 where now: "drv_system_now drv w1 = (ts, w2)" by fastforce
  let ?r = "ring_write ts (of_int wkc) inputs (compose_outputs cells img) (pd_ring pd)"
  let ?rec = "recorded (pd_ring pd) (of_nat (length log)) ts (of_int wkc) inputs (compose_outputs cells img)"
  note pd' = exchange_mapped [OF assms(1,2) now, unfolded assms(7)]
  have img': "pd_image pd' = Some img" and ring': "pd_ring pd' = ?r" and "healthy pd'"
    using pd' assms(1,8) by (auto simp: healthy_def)
  have holds: "ring_holds ?r (log @ [?rec])" by (rule ring_holds_write [OF assms(3,4)])
  then have hd: "rb_head ?r = of_nat (Suc (length log))" "rb_capacity ?r \<noteq> 0"
    by (auto simp: ring_holds_def ring_wf_def)
  have n: "unat (of_nat (length log) :: u64) = length log" using assms(4) by (intro unat_seq) simp
  have "(of_nat (length log) :: u64) \<noteq> kInvalidSeq"
  proof
    assume "(of_nat (length log) :: u64) = kInvalidSeq"
    then have "unat (of_nat (length log) :: u64) = 2 ^ 64 - 1"
      by (simp add: kInvalidSeq_def unsigned_minus_1_eq_mask mask_eq_exp_minus_1)
    with n assms(4) show False by simp
  qed
  then have "readRecord (of_nat (length log)) ?r = Some ?rec"
    using readRecord_holds [OF holds, of "of_nat (length log)"] n assms(4) hd(2) by simp
  moreover have "rb_head ?r - 1 = of_nat (length log)" using hd(1) by simp
  moreover have "rb_head ?r \<noteq> 0"
  proof
    assume "rb_head ?r = 0"
    then have "unat (of_nat (Suc (length log)) :: u64) = 0" using hd(1) by simp
    with unat_seq [of "Suc (length log)"] assms(4) show False by simp
  qed
  moreover have "rec_inputs ?rec = inputs"
    using assms(5,6) by (simp add: recorded_def stored_size_def)
  ultimately show ?thesis
    using img' ring' \<open>healthy pd'\<close> assms(9,10) by (simp add: readPdo_def Let_def)
qed

theorem readPdo_serves_last_cycle_witness:
  "case exchangeProcessData example_drv example_pd example_cells () of (pd', cells', w') \<Rightarrow>
     readPdo pd' cells' 2 0x6041 0 = Some (extractBits [0x37, 0x02, 0x50, 0x00] 16 16)"
proof -
  obtain pd' cells' w' where run: "exchangeProcessData example_drv example_pd example_cells () = (pd', cells', w')"
    using prod_cases3 by blast
  have "pd_image example_pd = Some example_image" "ring_holds (pd_ring example_pd) []"
    "rb_inputCap (pd_ring example_pd) = pi_inputBytes example_image" "pd_expectedWkc example_pd \<le> 6"
    using ring_holds_allocate [of 3 4 5 empty_ring]
    by (simp_all add: example_pd_def ring_allocate_def Let_def example_image_def)
  moreover have "image_find example_image 2 0x6041 0 =
      Some \<lparr>loc_bitOffset = 16, loc_bitLength = 16, loc_isOutput = False, loc_entryIndex = 1\<rparr>"
    by (simp add: image_find_def example_image_def entry_matches_def location_of_def)
  ultimately show ?thesis
    using readPdo_serves_last_cycle [OF _ example_exchange(1) _ _ _ _ run, of example_image "[]" 2 "0x6041" 0]
    by (simp add: run example_image_def)
qed

end
