(* ===== verification/Device.thy ===== *)
theory Device
  imports Process_Data Device_Access
begin

text \<open>
  The parameters of one device (\<^verbatim>\<open>libs/node/device.cc\<close>): publishing an enumerated dictionary, reads and
  writes of one parameter, grouped reads, and the value pass of an enumeration. The fieldbus is a
  parameter. Parameters live at addresses of one store, which the process image shares. A call made
  with \<^verbatim>\<open>parametersMutex_\<close> released is surrounded by \<open>bus_others\<close>, which stands for whatever other
  threads do to the device meanwhile. Unordered maps are association lists in some iteration order.
\<close>

unbundle bit_operations_syntax

section \<open>State\<close>

datatype CompleteAccessSupport = CaUnknown | CaSupported | CaUnsupported

datatype DeclaredSubindexReads = DsrUnknown | DsrServed | DsrRefused

record Device =
  dev_slavePosition :: u16
  dev_mailboxProtocols :: u16
  dev_parameters :: "(u32 \<times> nat) list"
  dev_arena :: "nat list"
  dev_retiredMaps :: "(u32 \<times> nat) list list"
  dev_caSupport :: CompleteAccessSupport
  dev_declaredSubindexReads :: DeclaredSubindexReads

record 'w Node =
  nd_cells :: cells
  nd_next :: nat
  nd_device :: Device
  nd_processData :: "ProcessData option"
  nd_world :: 'w

record 'w bus =
  bus_readSdo :: "u16 \<Rightarrow> u16 \<Rightarrow> u8 \<Rightarrow> ('w, string, bytes) io"
  bus_writeSdo :: "u16 \<Rightarrow> u16 \<Rightarrow> u8 \<Rightarrow> bytes \<Rightarrow> ('w, string, unit) io"
  bus_readSdoComplete :: "u16 \<Rightarrow> u16 \<Rightarrow> ('w, string, bytes) io"
  bus_slaveState :: "'w \<Rightarrow> u16 \<Rightarrow> u16"
  bus_others :: "'w Node \<Rightarrow> 'w Node"

datatype device_error =
    ParameterNotFound u16 u8
  | BusError string
  | DecodeError codec_error
  | ValueError parameter_error
  | ReEnumerated u16 u8
  | NoParametersLoaded
  | ObjectNotFound u16

type_synonym ('w, 'a) node_io = "('w Node, device_error, 'a) io"

section \<open>Helpers\<close>

text \<open>A mailbox call outside the lock.\<close>

definition unlocked :: "'w bus \<Rightarrow> ('w, string, 'a) io \<Rightarrow> 'w Node \<Rightarrow> (string + 'a) \<times> 'w Node" where
  "unlocked bus m n =
     (let n = bus_others bus n;
          (r, w) = m (nd_world n)
      in (r, bus_others bus (n\<lparr>nd_world := w\<rparr>)))"

definition mailboxActive :: "'w bus \<Rightarrow> 'w Node \<Rightarrow> bool" where
  "mailboxActive bus n =
     (let state = alState (bus_slaveState bus (nd_world n) (dev_slavePosition (nd_device n)))
      in state = PreOp \<or> state = SafeOp \<or> state = Op)"

definition supportsCoe :: "Device \<Rightarrow> bool" where
  "supportsCoe d \<longleftrightarrow> dev_mailboxProtocols d AND 0x04 \<noteq> 0"

definition device_exchanges :: "'w bus \<Rightarrow> 'w Node \<Rightarrow> bool" where
  "device_exchanges bus n =
     exchangesProcessData (bus_slaveState bus (nd_world n) (dev_slavePosition (nd_device n)))"

definition device_isOutputMapped :: "'w bus \<Rightarrow> u16 \<Rightarrow> u8 \<Rightarrow> 'w Node \<Rightarrow> bool" where
  "device_isOutputMapped bus index subindex n =
     (case nd_processData n of
        None \<Rightarrow> False
      | Some pd \<Rightarrow> device_exchanges bus n \<and> isOutputMapped pd (dev_slavePosition (nd_device n)) index subindex)"

text \<open>What the live image serves for an object, if the device exchanges.\<close>

definition served_bytes :: "'w bus \<Rightarrow> u16 \<Rightarrow> u8 \<Rightarrow> 'w Node \<Rightarrow> bytes option" where
  "served_bytes bus index subindex n =
     (case nd_processData n of
        None \<Rightarrow> None
      | Some pd \<Rightarrow>
          if device_exchanges bus n
          then readPdo pd (nd_cells n) (dev_slavePosition (nd_device n)) index subindex
          else None)"

definition findParameter :: "u16 \<Rightarrow> u8 \<Rightarrow> 'w Node \<Rightarrow> nat option" where
  "findParameter index subindex n =
     map_of (dev_parameters (nd_device n)) (makeParameterKey index subindex)"

definition upd_cell :: "nat \<Rightarrow> (DeviceParameter \<Rightarrow> DeviceParameter) \<Rightarrow> 'w Node \<Rightarrow> 'w Node" where
  "upd_cell a f n = n\<lparr>nd_cells := (nd_cells n)(a := f (nd_cells n a))\<rparr>"

definition set_sync :: "SyncState \<Rightarrow> DeviceParameter \<Rightarrow> DeviceParameter" where
  "set_sync s p = p\<lparr>dp_syncState := s\<rparr>"

definition store_synced :: "bytes \<Rightarrow> DeviceParameter \<Rightarrow> DeviceParameter" where
  "store_synced bs p = set_sync Synced (setRawValue bs p)"

section \<open>Publishing a dictionary\<close>

text \<open>What a reused cell takes over from a new definition.\<close>

definition adopt :: "DeviceParameter \<Rightarrow> DeviceParameter \<Rightarrow> DeviceParameter" where
  "adopt d cell =
     (let cell = cell\<lparr>dp_name := dp_name d, dp_objectCode := dp_objectCode d, dp_access := dp_access d,
                      dp_unit := dp_unit d, dp_defaultValue := dp_defaultValue d,
                      dp_minValue := dp_minValue d, dp_maxValue := dp_maxValue d\<rparr>
      in if dp_syncState d = Stale then markReadFailed cell
         else if dp_syncState d \<noteq> Unknown
         then (storeBits (loadBits d) cell)\<lparr>dp_rawValue := dp_rawValue d, dp_syncState := dp_syncState d\<rparr>
         else cell)"

definition fresh_definition :: "DeviceParameter \<Rightarrow> DeviceParameter" where
  "fresh_definition d = (if dp_syncState d = Stale then set_sync Unknown d else d)"

definition publish_one :: "(u32 \<times> nat) list \<Rightarrow> u32 \<Rightarrow> DeviceParameter \<Rightarrow> 'w Node \<Rightarrow> nat \<times> 'w Node" where
  "publish_one parameters key d n =
     (let reusable = (case map_of parameters key of
                        Some a \<Rightarrow> if dp_dataType (nd_cells n a) = dp_dataType d
                                    \<and> dp_bitLength (nd_cells n a) = dp_bitLength d then Some a else None
                      | None \<Rightarrow> None)
      in case reusable of
           Some a \<Rightarrow> (a, upd_cell a (adopt d) n)
         | None \<Rightarrow>
             let a = nd_next n
             in (a, n\<lparr>nd_cells := (nd_cells n)(a := fresh_definition d), nd_next := a + 1,
                      nd_device := (nd_device n)\<lparr>dev_arena := dev_arena (nd_device n) @ [a]\<rparr>\<rparr>))"

fun publish_loop ::
  "(u32 \<times> nat) list \<Rightarrow> (u32 \<times> DeviceParameter) list \<Rightarrow> (u32 \<times> nat) list \<Rightarrow> 'w Node
     \<Rightarrow> (u32 \<times> nat) list \<times> 'w Node" where
  "publish_loop parameters [] next_map n = (next_map, n)"
| "publish_loop parameters ((key, d) # built) next_map n =
     (let (a, n) = publish_one parameters key d n
      in publish_loop parameters built (next_map @ [(key, a)]) n)"

text \<open>\<open>drained\<close> is what \<^verbatim>\<open>pauseCycle\<close> reports; the image is unpublished before and republished after.\<close>

definition publishParameters :: "bool \<Rightarrow> (u32 \<times> DeviceParameter) list \<Rightarrow> 'w Node \<Rightarrow> 'w Node" where
  "publishParameters drained built n =
     (let old_map = dev_parameters (nd_device n);
          (next_map, n) = publish_loop old_map built [] n;
          d = nd_device n;
          d = (if drained then d else d\<lparr>dev_retiredMaps := dev_retiredMaps d @ [old_map]\<rparr>)
      in n\<lparr>nd_device := d\<lparr>dev_parameters := next_map\<rparr>\<rparr>)"

section \<open>Complete Access\<close>

definition completeAccessEligible :: "DeviceParameter list \<Rightarrow> bool" where
  "completeAccessEligible subs =
     (if length subs < 2 then False
      else if dp_objectCode (hd subs) \<noteq> 0x0008 \<and> dp_objectCode (hd subs) \<noteq> 0x0009 then False
      else list_all (\<lambda>k. \<not> (dp_subindex (subs ! k) \<noteq> of_nat k \<or> dp_bitLength (subs ! k) = 0
                           \<or> dp_bitLength (subs ! k) mod 8 \<noteq> 0))
             [0..<length subs])"

datatype CompleteAccessDecode = CaFilled | CaShortBlob | CaUndecodable

fun decode_complete_loop ::
  "bytes \<Rightarrow> nat \<Rightarrow> u32 \<Rightarrow> DeviceParameter list \<Rightarrow> CompleteAccessDecode \<times> DeviceParameter list" where
  "decode_complete_loop blob k cursor [] = (CaFilled, [])"
| "decode_complete_loop blob k cursor (p # ps) =
     (if cursor + ucast (dp_bitLength p) > of_nat (length blob) * 8 then (CaShortBlob, p # ps)
      else let slice = extractBits blob cursor (dp_bitLength p)
           in case decodeSdoBytes (dp_dataType p) slice of
                Inl _ \<Rightarrow> (CaUndecodable, p # ps)
              | Inr _ \<Rightarrow>
                  let (r, ps') = decode_complete_loop blob (Suc k)
                                   (cursor + (if k = 0 then 16 else ucast (dp_bitLength p))) ps
                  in (r, store_synced slice p # ps'))"

definition decodeCompleteAccess ::
  "DeviceParameter list \<Rightarrow> bytes \<Rightarrow> CompleteAccessDecode \<times> DeviceParameter list" where
  "decodeCompleteAccess subs blob = decode_complete_loop blob 0 0 subs"

definition ca_enabled :: "bool \<Rightarrow> CompleteAccessSupport \<Rightarrow> bool" where
  "ca_enabled useCompleteAccess state \<longleftrightarrow> useCompleteAccess \<and> state \<noteq> CaUnsupported"

definition ca_recordFailure :: "CompleteAccessSupport \<Rightarrow> CompleteAccessSupport" where
  "ca_recordFailure state = (if state = CaUnknown then CaUnsupported else state)"

definition readCompleteInto ::
  "'w bus \<Rightarrow> u16 \<Rightarrow> DeviceParameter list \<Rightarrow> CompleteAccessSupport \<Rightarrow> 'w
     \<Rightarrow> (bool \<times> DeviceParameter list \<times> CompleteAccessSupport) \<times> 'w" where
  "readCompleteInto bus slavePosition subs state w =
     (case bus_readSdoComplete bus slavePosition (dp_index (hd subs)) w of
        (Inl _, w) \<Rightarrow> ((False, subs, ca_recordFailure state), w)
      | (Inr blob, w) \<Rightarrow>
          (case decodeCompleteAccess subs blob of
             (CaFilled, subs) \<Rightarrow> ((True, subs, CaSupported), w)
           | (_, subs) \<Rightarrow> ((False, subs, CaSupported), w)))"

definition subindicesInUse :: "u16 \<Rightarrow> DeviceParameterValue \<Rightarrow> u8 option" where
  "subindicesInUse objectCode v =
     (if objectCode \<noteq> 0x0008 \<and> objectCode \<noteq> 0x0009 then None
      else case v of VUint8 count \<Rightarrow> Some count | _ \<Rightarrow> None)"

definition above_count :: "u8 option \<Rightarrow> u8 \<Rightarrow> bool" where
  "above_count lastInUse si = (case lastInUse of None \<Rightarrow> False | Some c \<Rightarrow> si > c)"

section \<open>The value pass of an enumeration\<close>

definition readOne :: "'w bus \<Rightarrow> u16 \<Rightarrow> DeviceParameter \<Rightarrow> 'w \<Rightarrow> DeviceParameter \<times> 'w" where
  "readOne bus slavePosition p w =
     (case bus_readSdo bus slavePosition (dp_index p) (dp_subindex p) w of
        (Inl _, w) \<Rightarrow> (set_sync Stale p, w)
      | (Inr bs, w) \<Rightarrow>
          (case decodeSdoBytes (dp_dataType p) bs of
             Inl _ \<Rightarrow> (set_sync Stale p, w)
           | Inr _ \<Rightarrow> (store_synced bs p, w)))"

fun read_run ::
  "'w bus \<Rightarrow> u16 \<Rightarrow> u8 option \<Rightarrow> DeclaredSubindexReads \<Rightarrow> DeviceParameter list \<Rightarrow> 'w
     \<Rightarrow> (DeviceParameter list \<times> DeclaredSubindexReads) \<times> 'w" where
  "read_run bus slavePosition lastInUse declaredReads [] w = (([], declaredReads), w)"
| "read_run bus slavePosition lastInUse declaredReads (p # ps) w =
     (let aboveCount = above_count lastInUse (dp_subindex p)
      in if aboveCount \<and> declaredReads = DsrRefused then ((p # ps, declaredReads), w)
         else let (p, w) = readOne bus slavePosition p w;
                  ok = (dp_syncState p = Synced);
                  declaredReads = (if aboveCount then if ok then DsrServed else DsrRefused else declaredReads);
                  lastInUse = (if dp_subindex p = 0 \<and> ok
                               then subindicesInUse (dp_objectCode p) (currentValue p) else lastInUse);
                  ((ps, declaredReads), w) = read_run bus slavePosition lastInUse declaredReads ps w
              in ((p # ps, declaredReads), w))"

function value_pass ::
  "'w bus \<Rightarrow> u16 \<Rightarrow> bool \<Rightarrow> CompleteAccessSupport \<Rightarrow> DeclaredSubindexReads \<Rightarrow> DeviceParameter list \<Rightarrow> 'w
     \<Rightarrow> DeviceParameter list \<times> 'w" where
  "value_pass bus slavePosition useCompleteAccess state declaredReads [] w = ([], w)"
| "value_pass bus slavePosition useCompleteAccess state declaredReads (p # ps) w =
     (let subs = p # takeWhile (\<lambda>q. dp_index q = dp_index p) ps;
          rest = dropWhile (\<lambda>q. dp_index q = dp_index p) ps;
          ((filled, subs, state), w) =
            (if ca_enabled useCompleteAccess state \<and> completeAccessEligible subs
             then readCompleteInto bus slavePosition subs state w
             else ((False, subs, state), w));
          ((subs, declaredReads), w) =
            (if filled then ((subs, declaredReads), w)
             else read_run bus slavePosition None declaredReads subs w);
          (rest, w) = value_pass bus slavePosition useCompleteAccess state declaredReads rest w
      in (subs @ rest, w))"
  by pat_completeness auto
termination
  by (relation "measure (\<lambda>(bus, pos, use, state, reads, defs, w). length defs)")
     (auto simp: less_Suc_eq_le length_dropWhile_le)

definition readParameterValues ::
  "'w bus \<Rightarrow> u16 \<Rightarrow> bool \<Rightarrow> DeviceParameter list \<Rightarrow> 'w \<Rightarrow> DeviceParameter list \<times> 'w" where
  "readParameterValues bus slavePosition useCompleteAccess defs w =
     value_pass bus slavePosition useCompleteAccess CaUnknown DsrUnknown defs w"

text \<open>
  The end of \<^verbatim>\<open>readParameterDefinitions\<close>, given the definitions of a cache or an enumeration: every value is
  reset, the values are read if asked for, the first definition of a key wins, and the map is
  published.
\<close>

fun emplace_all :: "DeviceParameter list \<Rightarrow> (u32 \<times> DeviceParameter) list \<Rightarrow> (u32 \<times> DeviceParameter) list" where
  "emplace_all [] built = built"
| "emplace_all (p # ps) built =
     emplace_all ps (if parameter_key p \<in> fst ` set built then built else built @ [(parameter_key p, p)])"

definition reset_value :: "DeviceParameter \<Rightarrow> DeviceParameter" where
  "reset_value p = (storeBits 0 p)\<lparr>dp_rawValue := [], dp_syncState := Unknown\<rparr>"

definition adoptDefinitions ::
  "'w bus \<Rightarrow> bool \<Rightarrow> bool \<Rightarrow> bool \<Rightarrow> DeviceParameter list \<Rightarrow> 'w Node \<Rightarrow> 'w Node" where
  "adoptDefinitions bus drained readValues useCompleteAccess definitions n =
     (let defs = map reset_value definitions;
          (defs, w) = (if readValues
                       then readParameterValues bus (dev_slavePosition (nd_device n)) useCompleteAccess defs (nd_world n)
                       else (defs, nd_world n))
      in publishParameters drained (emplace_all defs []) (n\<lparr>nd_world := w\<rparr>))"

section \<open>One parameter\<close>

definition setValueFromBytes :: "u16 \<Rightarrow> u8 \<Rightarrow> bytes \<Rightarrow> ('w, DeviceParameterValue) node_io" where
  "setValueFromBytes index subindex bs n =
     (case findParameter index subindex n of
        None \<Rightarrow> (Inl (ParameterNotFound index subindex), n)
      | Some a \<Rightarrow>
          (case decodeSdoBytes (dp_dataType (nd_cells n a)) bs of
             Inl e \<Rightarrow> (Inl (DecodeError e), n)
           | Inr v \<Rightarrow>
               (case setValue v (nd_cells n a) of
                  Inl e \<Rightarrow> (Inl (ValueError e), n)
                | Inr p \<Rightarrow> (Inr (currentValue (set_sync Synced p)), upd_cell a (\<lambda>_. set_sync Synced p) n))))"

definition parameterValue :: "u16 \<Rightarrow> u8 \<Rightarrow> 'w Node \<Rightarrow> DeviceParameterValue option" where
  "parameterValue index subindex n =
     map_option (\<lambda>a. currentValue (nd_cells n a)) (findParameter index subindex n)"

definition parametersOrdered :: "'w Node \<Rightarrow> DeviceParameter list" where
  "parametersOrdered n = sort_key parameter_key (map (\<lambda>(key, a). nd_cells n a) (dev_parameters (nd_device n)))"

definition mark_read_failed_at :: "u16 \<Rightarrow> u8 \<Rightarrow> u16 \<Rightarrow> 'w Node \<Rightarrow> 'w Node" where
  "mark_read_failed_at index subindex declaredType n =
     (case findParameter index subindex n of
        None \<Rightarrow> n
      | Some a \<Rightarrow> if dp_dataType (nd_cells n a) = declaredType then upd_cell a markReadFailed n else n)"

definition readParameter :: "'w bus \<Rightarrow> u16 \<Rightarrow> u8 \<Rightarrow> ('w, DeviceParameterValue) node_io" where
  "readParameter bus index subindex n =
     (case findParameter index subindex n of
        None \<Rightarrow> (Inl (ParameterNotFound index subindex), n)
      | Some a \<Rightarrow>
          let declaredType = dp_dataType (nd_cells n a)
          in case served_bytes bus index subindex n of
               Some bs \<Rightarrow>
                 (case decodeSdoBytes declaredType bs of
                    Inl e \<Rightarrow> (Inl (DecodeError e), upd_cell a markReadFailed n)
                  | Inr v \<Rightarrow> (Inr v, upd_cell a (store_synced bs) n))
             | None \<Rightarrow>
                 if \<not> mailboxActive bus n then (Inr (currentValue (nd_cells n a)), n)
                 else
                   (case unlocked bus (bus_readSdo bus (dev_slavePosition (nd_device n)) index subindex) n of
                      (Inl e, n) \<Rightarrow> (Inl (BusError e), mark_read_failed_at index subindex declaredType n)
                    | (Inr bs, n) \<Rightarrow>
                        (case decodeSdoBytes declaredType bs of
                           Inl e \<Rightarrow> (Inl (DecodeError e), mark_read_failed_at index subindex declaredType n)
                         | Inr v \<Rightarrow>
                             (case findParameter index subindex n of
                                None \<Rightarrow> (Inl (ReEnumerated index subindex), n)
                              | Some a \<Rightarrow>
                                  if dp_dataType (nd_cells n a) \<noteq> declaredType
                                  then (Inl (ReEnumerated index subindex), n)
                                  else (Inr v, upd_cell a (store_synced bs) n)))))"

definition writeParameter :: "'w bus \<Rightarrow> u16 \<Rightarrow> u8 \<Rightarrow> DeviceParameterValue \<Rightarrow> ('w, unit) node_io" where
  "writeParameter bus index subindex newValue n =
     (case findParameter index subindex n of
        None \<Rightarrow> (Inl (ParameterNotFound index subindex), n)
      | Some a \<Rightarrow>
          (case setValue newValue (nd_cells n a) of
             Inl e \<Rightarrow> (Inl (ValueError e), n)
           | Inr p \<Rightarrow>
               let n = upd_cell a (\<lambda>_. p) n;
                   bs = rawValueBytes p
               in if device_isOutputMapped bus index subindex n
                  then (Inr (), upd_cell a (set_sync Synced) n)
                  else if \<not> mailboxActive bus n then (Inr (), upd_cell a (set_sync Pending) n)
                  else
                    let (written, n) =
                          unlocked bus (bus_writeSdo bus (dev_slavePosition (nd_device n)) index subindex bs) n;
                        n = (case findParameter index subindex n of
                               None \<Rightarrow> n
                             | Some a \<Rightarrow> upd_cell a (set_sync (if isOk written then Synced else Pending)) n)
                    in (case written of Inl e \<Rightarrow> Inl (BusError e) | Inr _ \<Rightarrow> Inr (), n)))"

section \<open>Grouped reads\<close>

definition find_all :: "u16 \<Rightarrow> u8 list \<Rightarrow> 'w Node \<Rightarrow> nat list option" where
  "find_all index subindices n =
     (let found = map (\<lambda>si. findParameter index si n) subindices
      in if None \<in> set found then None else Some (map the found))"

definition write_back :: "nat list \<Rightarrow> DeviceParameter list \<Rightarrow> 'w Node \<Rightarrow> 'w Node" where
  "write_back as ps n = fold (\<lambda>(a, p). upd_cell a (\<lambda>_. p)) (zip as ps) n"

definition set_caSupport :: "CompleteAccessSupport \<Rightarrow> 'w Node \<Rightarrow> 'w Node" where
  "set_caSupport s n = n\<lparr>nd_device := (nd_device n)\<lparr>dev_caSupport := s\<rparr>\<rparr>"

definition recordDeclaredSubindexRead :: "bool \<Rightarrow> 'w Node \<Rightarrow> 'w Node" where
  "recordDeclaredSubindexRead ok n =
     n\<lparr>nd_device := (nd_device n)\<lparr>dev_declaredSubindexReads := (if ok then DsrServed else DsrRefused)\<rparr>\<rparr>"

text \<open>Whether an upload of the whole object is the right thing: the addresses to fill, or \<open>None\<close>.\<close>

definition complete_targets :: "u16 \<Rightarrow> u8 list \<Rightarrow> 'w Node \<Rightarrow> nat list option" where
  "complete_targets index subindices n =
     (case find_all index subindices n of
        None \<Rightarrow> None
      | Some as \<Rightarrow> if completeAccessEligible (map (nd_cells n) as) then Some as else None)"

definition readObjectComplete :: "'w bus \<Rightarrow> u16 \<Rightarrow> u8 list \<Rightarrow> bool \<Rightarrow> 'w Node \<Rightarrow> bool \<times> 'w Node" where
  "readObjectComplete bus index subindices useCompleteAccess n =
     (if \<not> ca_enabled useCompleteAccess (dev_caSupport (nd_device n)) \<or> \<not> mailboxActive bus n
         \<or> complete_targets index subindices n = None
         \<or> list_ex (\<lambda>si. served_bytes bus index si n \<noteq> None) subindices
      then (False, n)
      else
        (case unlocked bus (bus_readSdoComplete bus (dev_slavePosition (nd_device n)) index) n of
           (Inl _, n) \<Rightarrow> (False, set_caSupport (ca_recordFailure (dev_caSupport (nd_device n))) n)
         | (Inr blob, n) \<Rightarrow>
             let n = set_caSupport CaSupported n
             in case complete_targets index subindices n of
                  None \<Rightarrow> (False, n)
                | Some as \<Rightarrow>
                    let (r, ps) = decodeCompleteAccess (map (nd_cells n) as) blob
                    in (r = CaFilled, write_back as ps n)))"

definition readable_parameters :: "'w Node \<Rightarrow> DeviceParameter list" where
  "readable_parameters n =
     filter isReadable (map (\<lambda>(key, a). nd_cells n a) (dev_parameters (nd_device n)))"

definition object_subindices :: "u16 \<Rightarrow> 'w Node \<Rightarrow> u8 list" where
  "object_subindices index n =
     sort (map dp_subindex (filter (\<lambda>p. dp_index p = index) (readable_parameters n)))"

fun read_each ::
  "'w bus \<Rightarrow> u16 \<Rightarrow> u8 list \<Rightarrow> (u8 \<times> DeviceParameterValue) list \<Rightarrow> ('w, ObjectValues) node_io" where
  "read_each bus index [] vs n = (Inr \<lparr>ov_index = index, ov_values = vs\<rparr>, n)"
| "read_each bus index (si # sis) vs n =
     (case readParameter bus index si (bus_others bus n) of
        (Inl e, n) \<Rightarrow> (Inl e, n)
      | (Inr v, n) \<Rightarrow> read_each bus index sis (vs @ [(si, v)]) n)"

definition device_readObject :: "'w bus \<Rightarrow> u16 \<Rightarrow> bool \<Rightarrow> ('w, ObjectValues) node_io" where
  "device_readObject bus index useCompleteAccess n =
     (let subindices = object_subindices index n
      in if subindices = [] then (Inl (ObjectNotFound index), n)
         else let (filled, n) = (if length subindices \<ge> 2
                                 then readObjectComplete bus index subindices useCompleteAccess (bus_others bus n)
                                 else (False, n));
                  n = (if filled then bus_others bus n else n)
              in case (if filled then find_all index subindices n else None) of
                   Some as \<Rightarrow>
                     (Inr \<lparr>ov_index = index,
                           ov_values = zip subindices (map (\<lambda>a. currentValue (nd_cells n a)) as)\<rparr>, n)
                 | None \<Rightarrow> read_each bus index subindices [] n)"

fun sweep_object :: "'w bus \<Rightarrow> u16 \<Rightarrow> u16 \<Rightarrow> u8 option \<Rightarrow> u8 list \<Rightarrow> 'w Node \<Rightarrow> 'w Node" where
  "sweep_object bus index objectCode lastInUse [] n = n"
| "sweep_object bus index objectCode lastInUse (si # sis) n =
     (let aboveCount = above_count lastInUse si; n = bus_others bus n
      in if aboveCount \<and> dev_declaredSubindexReads (nd_device n) = DsrRefused then n
         else let (r, n) = readParameter bus index si n;
                  n = (if aboveCount then recordDeclaredSubindexRead (isOk r) n else n)
              in sweep_object bus index objectCode
                   (case r of Inr v \<Rightarrow> if si = 0 then subindicesInUse objectCode v else lastInUse | Inl _ \<Rightarrow> lastInUse)
                   sis n)"

definition readable_objects :: "'w Node \<Rightarrow> (u16 \<times> u16 \<times> u8 list) list" where
  "readable_objects n =
     (let ps = readable_parameters n
      in map (\<lambda>index. (index, dp_objectCode (last (filter (\<lambda>p. dp_index p = index) ps)), object_subindices index n))
           (sort (remdups (map dp_index ps))))"

fun sweep :: "'w bus \<Rightarrow> bool \<Rightarrow> (u16 \<times> u16 \<times> u8 list) list \<Rightarrow> 'w Node \<Rightarrow> 'w Node" where
  "sweep bus useCompleteAccess [] n = n"
| "sweep bus useCompleteAccess ((index, objectCode, subindices) # objects) n =
     (let (filled, n) = (if length subindices \<ge> 2
                         then readObjectComplete bus index subindices useCompleteAccess (bus_others bus n)
                         else (False, n))
      in sweep bus useCompleteAccess objects
           (if filled then n else sweep_object bus index objectCode None subindices n))"

definition readAllParameters :: "'w bus \<Rightarrow> bool \<Rightarrow> ('w, unit) node_io" where
  "readAllParameters bus useCompleteAccess n =
     (if dev_parameters (nd_device n) = [] then (Inl NoParametersLoaded, n)
      else (Inr (), sweep bus useCompleteAccess (readable_objects n) n))"

section \<open>A read caches what it returns\<close>

lemma currentValue_decoded:
  assumes "decodeSdoBytes (dp_dataType p) bs = Inr v"
  shows "currentValue (setRawValue bs p) = v"
proof (cases "isScalarDataType (dp_dataType p)")
  case True
  have "packLeBits (take n (unpackLeBits (packLeBits bs) 8)) = packLeBits (take n bs)" for n
    by (rule bit_word_eqI) (auto simp: byte_bits)
  moreover have "alternative_size (declared_alternative (dp_dataType p)) \<le> 8"
    using scalar_width_le [of "dp_dataType p"] by (simp add: scalarByteWidth_def)
  ultimately show ?thesis using True assms
    by (auto simp: currentValue_def setRawValue_def storeBits_def loadBits_def decodeSdoBytes_scalar
        decodeScalar_def split: if_splits)
next
  case False
  with assms show ?thesis by (simp add: currentValue_def setRawValue_def)
qed

lemma upd_cell_simps [simp]:
  "nd_cells (upd_cell a f n) = (nd_cells n)(a := f (nd_cells n a))"
  "nd_device (upd_cell a f n) = nd_device n" "nd_processData (upd_cell a f n) = nd_processData n"
  "nd_world (upd_cell a f n) = nd_world n" "nd_next (upd_cell a f n) = nd_next n"
  by (simp_all add: upd_cell_def)

lemma findParameter_upd_cell [simp]: "findParameter i s (upd_cell a f n) = findParameter i s n"
  by (simp add: findParameter_def)

lemma mark_read_failed_at_simps [simp]:
  "nd_device (mark_read_failed_at i s dt n) = nd_device n"
  "nd_world (mark_read_failed_at i s dt n) = nd_world n"
  by (auto simp: mark_read_failed_at_def split: option.splits)

lemma set_sync_simps [simp]:
  "dp_syncState (set_sync s p) = s" "currentValue (set_sync s p) = currentValue p"
  "dp_dataType (set_sync s p) = dp_dataType p" "loadBits (set_sync s p) = loadBits p"
  "rawValueBytes (set_sync s p) = rawValueBytes p" "dp_rawValue (set_sync s p) = dp_rawValue p"
  by (simp_all add: set_sync_def currentValue_def loadBits_def rawValueBytes_def Let_def split: sum.split)

lemma markReadFailed_simps [simp]:
  "dp_syncState (markReadFailed p) \<noteq> Synced" "currentValue (markReadFailed p) = currentValue p"
  "loadBits (markReadFailed p) = loadBits p" "dp_rawValue (markReadFailed p) = dp_rawValue p"
  by (simp_all add: markReadFailed_def currentValue_def loadBits_def Let_def split: sum.split)

lemma store_synced_value:
  "decodeSdoBytes (dp_dataType p) bs = Inr v \<Longrightarrow> currentValue (store_synced bs p) = v"
  by (simp add: store_synced_def currentValue_decoded)

lemma store_synced_state [simp]: "dp_syncState (store_synced bs p) = Synced"
  by (simp add: store_synced_def)

text \<open>
  C28: A successful read caches what it returns, whatever other threads do to the device while the
  mailbox transfer runs with the lock released: afterwards the parameter is present, its current value
  is the value returned, and it is marked as synced; the only exception is a device without a mailbox
  whose object the live image does not serve, where the cached value is returned and nothing changes.
\<close>

theorem readParameter_caches:
  assumes "readParameter bus index subindex n = (Inr v, n')"
  shows "\<exists>a. findParameter index subindex n' = Some a \<and> currentValue (nd_cells n' a) = v
           \<and> (dp_syncState (nd_cells n' a) = Synced
              \<or> n' = n \<and> served_bytes bus index subindex n = None \<and> \<not> mailboxActive bus n)"
  using assms
  by (auto simp: readParameter_def Let_def store_synced_value
      split: option.splits sum.splits if_splits prod.splits)

text \<open>
  A failed read of a parameter the device has is never taken for a value: no cell changes its
  bytes, only the cell of that parameter can change at all, and it is not marked as synced, when no
  other thread interferes; nothing but the parameter's cell and the state of the bus changes.
\<close>

theorem readParameter_failure:
  assumes "readParameter bus index subindex n = (Inl e, n')" and "bus_others bus = id"
    and "findParameter index subindex n = Some a"
  shows "nd_cells n' = (nd_cells n)(a := markReadFailed (nd_cells n a))
       \<and> dp_syncState (nd_cells n' a) \<noteq> Synced \<and> currentValue (nd_cells n' a) = currentValue (nd_cells n a)
       \<and> n' = n\<lparr>nd_cells := nd_cells n', nd_world := nd_world n'\<rparr>"
  using assms
  by (auto simp: readParameter_def Let_def unlocked_def mark_read_failed_at_def findParameter_def upd_cell_def
      split: option.splits sum.splits if_splits prod.splits)

section \<open>A write settles the parameter\<close>

lemma decode_rawValueBytes: "decodeSdoBytes (dp_dataType p) (rawValueBytes p) = Inr (currentValue p)"
proof (cases "isScalarDataType (dp_dataType p)")
  case True
  let ?n = "scalarByteWidth (dp_dataType p)"
  have "packLeBits (take ?n (unpackLeBits (loadBits p) 8)) = packLeBits (unpackLeBits (loadBits p) ?n)"
    by (rule bit_word_eqI) (use scalar_width_le [of "dp_dataType p"] in \<open>auto simp: byte_bits\<close>)
  moreover have "?n = alternative_size (declared_alternative (dp_dataType p))" by (simp add: scalarByteWidth_def)
  ultimately show ?thesis
    using True scalar_width_le [of "dp_dataType p"]
    by (simp add: rawValueBytes_def currentValue_def decodeSdoBytes_scalar decodeScalar_def scalar_width_pos)
next
  case False
  then show ?thesis
    by (auto simp: rawValueBytes_def currentValue_def scalar_width_pos codec_defs split: TypeCase.splits)
qed

lemma setValue_dataType: "setValue v p = Inr p' \<Longrightarrow> dp_dataType p' = dp_dataType p"
  by (auto simp: setValue_def setRawValue_def storeBits_def split: sum.splits)

text \<open>
  A write of a value the parameter accepts ends in one of three ways, when no other thread
  interferes. An object the device is sent cyclically is settled without any bus traffic and is synced;
  a device without a mailbox keeps the value as pending, without bus traffic; otherwise the device is
  sent bytes that decode to the value, and the parameter is synced if it took them and pending, with
  the error reported, if not. In all three the parameter holds the coerced value, and no other
  parameter changes.
\<close>

theorem writeParameter_settles:
  assumes "findParameter index subindex n = Some a" and "setValue v (nd_cells n a) = Inr p"
    and "bus_others bus = id" and "writeParameter bus index subindex v n = (r, n')"
  shows "\<exists>s bs. nd_cells n' = (nd_cells n)(a := set_sync s p)
       \<and> decodeSdoBytes (dp_dataType (nd_cells n a)) bs = Inr (currentValue p)
       \<and> (let sent = bus_writeSdo bus (dev_slavePosition (nd_device n)) index subindex bs (nd_world n)
          in if device_isOutputMapped bus index subindex (upd_cell a (\<lambda>_. p) n)
             then r = Inr () \<and> s = Synced \<and> nd_world n' = nd_world n
             else if \<not> mailboxActive bus n
             then r = Inr () \<and> s = Pending \<and> nd_world n' = nd_world n
             else (case fst sent of Inr _ \<Rightarrow> r = Inr () \<and> s = Synced | Inl e \<Rightarrow> r = Inl (BusError e) \<and> s = Pending)
                \<and> nd_world n' = snd sent)"
proof -
  let ?n = "upd_cell a (\<lambda>_. p) n" and ?bs = "rawValueBytes p"
  have m: "mailboxActive bus ?n = mailboxActive bus n" by (simp add: mailboxActive_def)
  have d: "decodeSdoBytes (dp_dataType (nd_cells n a)) ?bs = Inr (currentValue p)"
    using decode_rawValueBytes [of p] setValue_dataType [OF assms(2)] by simp
  obtain w r0 where sent:
    "bus_writeSdo bus (dev_slavePosition (nd_device n)) index subindex ?bs (nd_world n) = (r0, w)"
    by fastforce
  note w = assms(1,2,4) [unfolded writeParameter_def]
  consider "device_isOutputMapped bus index subindex ?n"
    | "\<not> device_isOutputMapped bus index subindex ?n" "\<not> mailboxActive bus n"
    | "\<not> device_isOutputMapped bus index subindex ?n" "mailboxActive bus n" by blast
  then show ?thesis
  proof cases
    case 3
    let ?s = "if isOk r0 then Synced else Pending"
    have "n' = upd_cell a (set_sync ?s) (?n\<lparr>nd_world := w\<rparr>)"
      and "r = (case r0 of Inl e \<Rightarrow> Inl (BusError e) | Inr _ \<Rightarrow> Inr ())"
      using w 3 sent m assms(3) by (auto simp: Let_def unlocked_def findParameter_def)
    then have "nd_cells n' = (nd_cells n)(a := set_sync ?s p)" "nd_world n' = w"
      "r = (case r0 of Inl e \<Rightarrow> Inl (BusError e) | Inr _ \<Rightarrow> Inr ())"
      by (auto simp: upd_cell_def)
    with 3 d sent show ?thesis
      by (intro exI [of _ ?s] exI [of _ ?bs]) (cases r0; simp add: Let_def)
  qed (use w m d in \<open>intro exI [of _ "dp_syncState (nd_cells n' a)"] exI [of _ ?bs];
      auto simp: Let_def\<close>)+
qed

section \<open>Publishing keeps the cells\<close>

definition node_wf :: "'w Node \<Rightarrow> bool" where
  "node_wf n \<longleftrightarrow>
     distinct (map fst (dev_parameters (nd_device n))) \<and> distinct (map snd (dev_parameters (nd_device n)))
   \<and> list_all (\<lambda>a. a < nd_next n) (map snd (dev_parameters (nd_device n)))"

definition same_type :: "DeviceParameter \<Rightarrow> DeviceParameter \<Rightarrow> bool" where
  "same_type p q \<longleftrightarrow> dp_dataType p = dp_dataType q \<and> dp_bitLength p = dp_bitLength q"

definition same_value :: "DeviceParameter \<Rightarrow> DeviceParameter \<Rightarrow> bool" where
  "same_value p q \<longleftrightarrow> loadBits p = loadBits q \<and> dp_rawValue p = dp_rawValue q \<and> dp_syncState p = dp_syncState q"

lemma adopt_type: "same_type (adopt d p) p"
  by (simp add: adopt_def same_type_def Let_def markReadFailed_def storeBits_def)

lemma adopt_value: "dp_syncState d = Unknown \<Longrightarrow> same_value (adopt d p) p"
  by (simp add: adopt_def same_value_def Let_def loadBits_def)

text \<open>What one step and the whole loop keep: \<open>old\<close> is the map before, \<open>next_map\<close> what was entered so far.\<close>

definition publish_ok :: "'w Node \<Rightarrow> 'w Node \<Rightarrow> bool" where
  "publish_ok n n' \<longleftrightarrow>
     nd_next n \<le> nd_next n' \<and> nd_processData n' = nd_processData n \<and> nd_world n' = nd_world n
   \<and> dev_parameters (nd_device n') = dev_parameters (nd_device n)
   \<and> (\<forall>a<nd_next n. same_type (nd_cells n' a) (nd_cells n a))"

lemma publish_ok_refl: "publish_ok n n"
  by (simp add: publish_ok_def same_type_def)

lemma publish_ok_trans: "publish_ok n n' \<Longrightarrow> publish_ok n' n'' \<Longrightarrow> publish_ok n n''"
  by (fastforce simp: publish_ok_def same_type_def)

lemma publish_one_ok:
  assumes "publish_one old key d n = (a, n')"
  shows "publish_ok n n'"
    and "dp_syncState d = Unknown \<Longrightarrow> b < nd_next n \<Longrightarrow> same_value (nd_cells n' b) (nd_cells n b)"
    and "map_of old key = Some b \<Longrightarrow> same_type (nd_cells n b) d \<Longrightarrow> a = b"
    and "map_of old key = Some a \<or> a = nd_next n \<and> nd_next n' = Suc a"
  using assms adopt_type [of d] adopt_value [of d]
  by (auto simp: publish_one_def publish_ok_def Let_def same_type_def same_value_def upd_cell_def
      split: option.splits if_splits)

lemma publish_loop_ok:
  assumes "publish_loop old built next_map n = (m, n')"
  shows "publish_ok n n' \<and> map fst m = map fst next_map @ map fst built
       \<and> (list_all (\<lambda>kd. dp_syncState (snd kd) = Unknown) built \<longrightarrow>
            (\<forall>b<nd_next n. same_value (nd_cells n' b) (nd_cells n b)))"
  using assms
proof (induction built arbitrary: next_map n)
  case (Cons kd built)
  obtain key d where kd: "kd = (key, d)" by fastforce
  obtain a n1 where one: "publish_one old key d n = (a, n1)" by fastforce
  from Cons.prems kd one have "publish_loop old built (next_map @ [(key, a)]) n1 = (m, n')" by simp
  note ih = Cons.IH [OF this]
  note ok = publish_one_ok [OF one]
  have "publish_ok n n'" using ok(1) ih publish_ok_trans by blast
  moreover have "same_value (nd_cells n' b) (nd_cells n b)"
    if "list_all (\<lambda>kd. dp_syncState (snd kd) = Unknown) (kd # built)" "b < nd_next n" for b
  proof -
    have "same_value (nd_cells n1 b) (nd_cells n b)" using ok(2) that kd by simp
    moreover have "same_value (nd_cells n' b) (nd_cells n1 b)"
      using ih that ok(1) by (auto simp: publish_ok_def)
    ultimately show ?thesis by (simp add: same_value_def)
  qed
  ultimately show ?case using ih kd by simp
qed (auto simp: publish_ok_refl same_value_def)

text \<open>The addresses: a key with an old cell of its type keeps it, the others get fresh ones.\<close>

lemma publish_loop_addresses:
  assumes "publish_loop old built next_map n = (m, n')" and "distinct (map fst built)"
    and "distinct (map snd old)" and "distinct (map fst old)" and "list_all (\<lambda>a. a < nd_next n) (map snd old)"
    and "distinct (map snd next_map)" and "list_all (\<lambda>a. a < nd_next n) (map snd next_map)"
    and "\<And>key a. key \<in> set (map fst built) \<Longrightarrow> map_of old key = Some a \<Longrightarrow> a \<notin> set (map snd next_map)"
  shows "\<exists>ms. m = next_map @ ms \<and> distinct (map snd m) \<and> list_all (\<lambda>a. a < nd_next n') (map snd m)
    \<and> (\<forall>key d a. (key, d) \<in> set built \<longrightarrow> map_of old key = Some a \<longrightarrow> same_type (nd_cells n a) d \<longrightarrow>
          (key, a) \<in> set ms)"
  using assms
proof (induction built arbitrary: next_map n)
  case (Cons kd built)
  obtain key d where kd: "kd = (key, d)" by fastforce
  obtain a n1 where one: "publish_one old key d n = (a, n1)" by fastforce
  from Cons.prems(1) kd one have loop: "publish_loop old built (next_map @ [(key, a)]) n1 = (m, n')" by simp
  note ok = publish_one_ok [OF one]
  have le: "nd_next n \<le> nd_next n1" using ok(1) by (simp add: publish_ok_def)
  have old_lt: "b < nd_next n" if "map_of old k = Some b" for k b
    using Cons.prems(5) that by (auto simp: list_all_iff dest!: map_of_SomeD)
  have fresh: "a \<notin> set (map snd next_map)" "a < nd_next n1"
    using ok(4) Cons.prems(7,8) kd le old_lt [of key a] by (auto simp: list_all_iff)
  have apart: "b \<noteq> a" if "k \<in> set (map fst built)" "map_of old k = Some b" for k b
  proof
    assume "b = a"
    with ok(4) old_lt [OF that(2)] have "map_of old key = Some a" by auto
    with that(2) \<open>b = a\<close> have "(k, a) \<in> set old" "(key, a) \<in> set old" by (auto dest: map_of_SomeD)
    with Cons.prems(3) have "k = key" by (fastforce simp: distinct_map inj_on_def)
    with that(1) Cons.prems(2) kd show False by auto
  qed
  have "\<exists>ms. m = (next_map @ [(key, a)]) @ ms \<and> distinct (map snd m) \<and> list_all (\<lambda>a. a < nd_next n') (map snd m)
    \<and> (\<forall>k d b. (k, d) \<in> set built \<longrightarrow> map_of old k = Some b \<longrightarrow> same_type (nd_cells n1 b) d \<longrightarrow> (k, b) \<in> set ms)"
  proof (rule Cons.IH [OF loop])
    show "distinct (map fst built)" "distinct (map snd old)" "distinct (map fst old)"
      using Cons.prems(2,3,4) by auto
    show "list_all (\<lambda>a. a < nd_next n1) (map snd old)"
      using Cons.prems(5) le by (auto simp: list_all_iff)
    show "distinct (map snd (next_map @ [(key, a)]))" using Cons.prems(6) fresh by auto
    show "list_all (\<lambda>a. a < nd_next n1) (map snd (next_map @ [(key, a)]))"
      using Cons.prems(7) fresh le by (auto simp: list_all_iff)
    show "b \<notin> set (map snd (next_map @ [(key, a)]))"
      if "k \<in> set (map fst built)" "map_of old k = Some b" for k b
      using apart [OF that] Cons.prems(8) [of k b] that by auto
  qed
  then obtain ms where ms: "m = next_map @ (key, a) # ms" "distinct (map snd m)"
    "list_all (\<lambda>a. a < nd_next n') (map snd m)"
    "\<And>k d b. (k, d) \<in> set built \<Longrightarrow> map_of old k = Some b \<Longrightarrow> same_type (nd_cells n1 b) d \<Longrightarrow> (k, b) \<in> set ms"
    by auto
  have "(k, b) \<in> set ((key, a) # ms)"
    if "(k, e) \<in> set (kd # built)" "map_of old k = Some b" "same_type (nd_cells n b) e" for k e b
  proof (cases "(k, e) \<in> set built")
    case True
    have "same_type (nd_cells n1 b) e"
      using ok(1) old_lt [OF that(2)] that(3) by (auto simp: publish_ok_def same_type_def)
    with ms(4) [OF True that(2)] show ?thesis by simp
  next
    case False
    with that(1) kd have "k = key" "e = d" by auto
    with ok(3) that(2,3) show ?thesis by simp
  qed
  with ms show ?case by (intro exI [of _ "(key, a) # ms"]) blast
qed auto

text \<open>
  C29: Re-enumerating a device keeps every cell. The addresses the published image and the cyclic tasks
  hold stay valid, with the data type and width they were declared with; an object whose declared type
  did not change keeps its address, so that it goes on being the one the image reads and writes; a pass
  that read no values changes no value and no sync state; and the new map has exactly the objects of
  the new dictionary, each at an address of its own.
\<close>

theorem publishParameters_keeps_cells:
  assumes "node_wf n" and "distinct (map fst built)"
  shows "let n' = publishParameters drained built n
         in node_wf n' \<and> nd_processData n' = nd_processData n
          \<and> map fst (dev_parameters (nd_device n')) = map fst built
          \<and> (\<forall>a<nd_next n. same_type (nd_cells n' a) (nd_cells n a))
          \<and> (\<forall>key d a. (key, d) \<in> set built \<longrightarrow> map_of (dev_parameters (nd_device n)) key = Some a \<longrightarrow>
               same_type (nd_cells n a) d \<longrightarrow> map_of (dev_parameters (nd_device n')) key = Some a)
          \<and> (list_all (\<lambda>kd. dp_syncState (snd kd) = Unknown) built \<longrightarrow>
               (\<forall>a<nd_next n. same_value (nd_cells n' a) (nd_cells n a)))"
proof -
  let ?old = "dev_parameters (nd_device n)"
  obtain m n1 where loop: "publish_loop ?old built [] n = (m, n1)" by fastforce
  note ok = publish_loop_ok [OF loop]
  have keys: "map fst m = map fst built" using ok by simp
  obtain addr: "distinct (map snd m)" "list_all (\<lambda>a. a < nd_next n1) (map snd m)"
    "\<And>key d a. (key, d) \<in> set built \<Longrightarrow> map_of ?old key = Some a \<Longrightarrow> same_type (nd_cells n a) d \<Longrightarrow> (key, a) \<in> set m"
    using publish_loop_addresses [OF loop assms(2)] assms(1) by (auto simp: node_wf_def)
  have "map_of m key = Some a" if "(key, a) \<in> set m" for key a
    using that keys assms(2) by (simp add: map_of_eq_Some_iff)
  with ok keys addr assms(2) loop show ?thesis
    by (auto simp: publishParameters_def Let_def node_wf_def publish_ok_def)
qed

section \<open>Complete Access\<close>

lemma buf_bit_drop [byte_bits]: "buf_bit (drop n bs) k \<longleftrightarrow> buf_bit bs (8 * n + k)"
  by (auto simp: buf_bit_def less_diff_conv add.commute)

lemma extractBits_aligned:
  assumes "unat off = 8 * m" and "unat len = 8 * k" and "m + k \<le> length src" and "8 * length src \<le> 2 ^ 32"
  shows "extractBits src off len = subspan src m k"
proof (rule bytes_eq_by_bits)
  have sz: "(unat len + 7) div 8 = k" using assms(2) by simp
  show "length (extractBits src off len) = length (subspan src m k)"
    using assms(3) by (simp add: extractBits_def sz)
  fix j
  have "unat off + unat len \<le> 2 ^ 32" using assms by linarith
  from buf_bit_extractBits_into [OF this, of src k j]
  show "buf_bit (extractBits src off len) j = buf_bit (subspan src m k) j"
    by (simp add: extractBits_def sz subspan_def byte_bits assms(1,2))
qed

text \<open>
  What a device sends for an object: the count of subindex 0 in a slot of two bytes, then the values of
  the other subindices one after the other.
\<close>

definition complete_blob :: "bytes list \<Rightarrow> bytes" where
  "complete_blob bss = hd bss @ replicate (2 - length (hd bss)) 0 @ concat (tl bss)"

definition holds_value :: "DeviceParameter \<Rightarrow> bytes \<Rightarrow> bool" where
  "holds_value p bs \<longleftrightarrow> unat (dp_bitLength p) = 8 * length bs \<and> isOk (decodeSdoBytes (dp_dataType p) bs)"

lemma decode_complete_step:
  assumes "holds_value p bs" and "unat cursor = 8 * off" and "subspan blob off (length bs) = bs"
    and "off + length bs \<le> length blob" and "8 * length blob < 2 ^ 32"
  shows "decode_complete_loop blob k cursor (p # ps) =
    (let (r, ps') = decode_complete_loop blob (Suc k) (cursor + (if k = 0 then 16 else ucast (dp_bitLength p))) ps
     in (r, store_synced bs p # ps'))"
proof -
  have len: "unat (dp_bitLength p) = 8 * length bs" and ok: "isOk (decodeSdoBytes (dp_dataType p) bs)"
    using assms(1) by (simp_all add: holds_value_def)
  have u: "unat (ucast (dp_bitLength p) :: u32) = 8 * length bs" using len by simp
  have "unat (cursor + ucast (dp_bitLength p)) = 8 * (off + length bs)"
    using assms(2,4,5) u by (simp add: unat_word_ariths)
  moreover have "unat (of_nat (length blob) * 8 :: u32) = 8 * length blob"
    using assms(5) by (simp add: unat_word_ariths unat_of_nat)
  ultimately have "\<not> of_nat (length blob) * 8 < cursor + ucast (dp_bitLength p)"
    using assms(4) by (simp add: word_less_nat_alt)
  moreover have "extractBits blob cursor (dp_bitLength p) = bs"
    using extractBits_aligned [OF assms(2) len assms(4)] assms(3,5) by simp
  ultimately show ?thesis using ok by (cases "decodeSdoBytes (dp_dataType p) bs") (auto simp: Let_def)
qed

lemma decode_complete_tail:
  assumes "list_all2 holds_value ps bss" and "unat cursor = 8 * off" and "drop off blob = concat bss"
    and "off \<le> length blob" and "8 * length blob < 2 ^ 32" and "0 < k"
  shows "decode_complete_loop blob k cursor ps = (CaFilled, map2 store_synced bss ps)"
  using assms
proof (induction ps bss arbitrary: k cursor off rule: list_all2_induct)
  case (Cons p ps bs bss)
  have len: "unat (dp_bitLength p) = 8 * length bs" using Cons.hyps by (simp add: holds_value_def)
  have split: "subspan blob off (length bs) = bs" using Cons.prems(2) by (simp add: subspan_def)
  have "length bs \<le> length blob - off" using arg_cong [OF Cons.prems(2), of length] by simp
  then have room: "off + length bs \<le> length blob" using Cons.prems(3) by linarith
  have rest: "drop (off + length bs) blob = concat bss"
    using Cons.prems(2) by (metis append_eq_conv_conj concat.simps(2) drop_drop add.commute)
  have "unat (cursor + ucast (dp_bitLength p)) = 8 * (off + length bs)"
    using Cons.prems(1,4) room len by (simp add: unat_word_ariths)
  from Cons.IH [OF this rest room Cons.prems(4)] show ?case
    unfolding decode_complete_step [OF Cons.hyps(1) Cons.prems(1) split room Cons.prems(4)]
    using Cons.prems(5) by simp
qed simp

text \<open>
  An object uploaded as a whole is decoded entry by entry: given the count in its two-byte slot
  followed by the values of the other subindices, every parameter of the object gets its own value,
  is marked as synced, and nothing is left over for the single uploads.
\<close>

theorem decodeCompleteAccess_fills:
  assumes "list_all2 holds_value (p # ps) (bs # bss)" and "length bs \<le> 2"
    and "length (complete_blob (bs # bss)) < 2 ^ 29"
  shows "decodeCompleteAccess (p # ps) (complete_blob (bs # bss)) =
           (CaFilled, map2 store_synced (bs # bss) (p # ps))"
proof -
  let ?blob = "complete_blob (bs # bss)"
  have blob: "?blob = (bs @ replicate (2 - length bs) 0) @ concat bss" by (simp add: complete_blob_def)
  have small: "8 * length ?blob < 2 ^ 32" using assms(3) by simp
  have tail: "decode_complete_loop ?blob 1 16 ps = (CaFilled, map2 store_synced bss ps)"
    using assms(1,2) small by (intro decode_complete_tail [where off = 2]) (simp_all add: blob)
  have "decode_complete_loop ?blob 0 0 (p # ps) =
    (let (r, ps') = decode_complete_loop ?blob (Suc 0) (0 + (if (0 :: nat) = 0 then 16 else ucast (dp_bitLength p))) ps
     in (r, store_synced bs p # ps'))"
    by (rule decode_complete_step [where off = 0])
      (use assms(1) small in \<open>simp_all add: complete_blob_def subspan_def\<close>)
  with tail show ?thesis by (simp add: decodeCompleteAccess_def)
qed

section \<open>From a write to the wire\<close>

lemma compose_outputs_cong:
  assumes "\<And>a. loadBits (c a) = loadBits (d a)"
  shows "compose_outputs c img = compose_outputs d img"
proof -
  have "compose_entry c = compose_entry d" by (intro ext) (simp add: compose_entry_def assms split: option.split)
  then show ?thesis by (simp add: compose_outputs_def)
qed

lemma output_entry_mapped:
  assumes "nd_processData n = Some pd" and "pd_image pd = Some img" and "device_exchanges bus n"
    and "e \<in> set (pi_outputs img)" and "entry_matches (dev_slavePosition (nd_device n)) index subindex e"
  shows "device_isOutputMapped bus index subindex (upd_cell a f n)"
proof -
  have "find_index (entry_matches (dev_slavePosition (nd_device n)) index subindex) (pi_outputs img) \<noteq> None"
    using assms(4,5) by (auto simp: find_index_None)
  with assms(1-3) show ?thesis
    by (auto simp: device_isOutputMapped_def device_exchanges_def isOutputMapped_def image_find_def
        location_of_def)
qed

lemma write_output_mapped:
  assumes "writeParameter bus index subindex v n = (Inr (), n')" and "findParameter index subindex n = Some a"
    and "\<And>f. device_isOutputMapped bus index subindex (upd_cell a f n)"
  shows "\<exists>p. setValue v (nd_cells n a) = Inr p \<and> n' = upd_cell a (set_sync Synced) (upd_cell a (\<lambda>_. p) n)"
  using assms by (auto simp: writeParameter_def Let_def split: sum.splits)


text \<open>
  C35: For an object whose data type is not a scalar (a bit string of more than one bit, a 24-bit integer)
  a write changes nothing of what is sent: it succeeds and marks the parameter as synced, but the
  composed output image is the same as before the write.
\<close>

theorem nonscalar_output_not_sent:
  assumes "writeParameter bus index subindex v n = (Inr (), n')" and "findParameter index subindex n = Some a"
    and "nd_processData n = Some pd" and "pd_image pd = Some img" and "device_exchanges bus n"
    and "e \<in> set (pi_outputs img)" and "entry_matches (dev_slavePosition (nd_device n)) index subindex e"
    and "\<not> isScalarDataType (dp_dataType (nd_cells n a))"
  shows "compose_outputs (nd_cells n') img = compose_outputs (nd_cells n) img
       \<and> dp_syncState (nd_cells n' a) = Synced"
proof -
  obtain p where p: "setValue v (nd_cells n a) = Inr p"
    "n' = upd_cell a (set_sync Synced) (upd_cell a (\<lambda>_. p) n)"
    using write_output_mapped [OF assms(1,2) output_entry_mapped [OF assms(3-5,6,7)]] by blast
  have "loadBits p = loadBits (nd_cells n a)"
    using p(1) assms(8) by (auto simp: setValue_def setRawValue_def loadBits_def split: sum.splits)
  with p(2) show ?thesis by (auto intro: compose_outputs_cong)
qed

section \<open>An example device\<close>

text \<open>A device with a controlword and a statusword, in PRE-OP or in OP with the example image.\<close>

definition example_device :: Device where
  "example_device =
     \<lparr>dev_slavePosition = 1, dev_mailboxProtocols = 0x0C,
      dev_parameters = [(makeParameterKey 0x6040 0, 0x6040), (makeParameterKey 0x6041 0, 0x6041)],
      dev_arena = [0x6040, 0x6041], dev_retiredMaps = [], dev_caSupport = CaUnknown,
      dev_declaredSubindexReads = DsrUnknown\<rparr>"

definition example_node :: "unit Node" where
  "example_node =
     \<lparr>nd_cells = example_cells, nd_next = 0x6042, nd_device = example_device,
      nd_processData = Some example_pd, nd_world = ()\<rparr>"

definition example_dev_bus :: "u16 \<Rightarrow> (string + bytes) \<Rightarrow> unit bus" where
  "example_dev_bus state answer =
     \<lparr>bus_readSdo = (\<lambda>pos i s w. (answer, w)), bus_writeSdo = (\<lambda>pos i s bs w. (Inr (), w)),
      bus_readSdoComplete = (\<lambda>pos i w. (Inl ''no'', w)), bus_slaveState = (\<lambda>w pos. state),
      bus_others = id\<rparr>"

lemmas example_node_defs =
  example_device_def example_node_def example_dev_bus_def findParameter_def makeParameterKey_def

lemma example_found:
  "findParameter 0x6040 0 example_node = Some 0x6040" "findParameter 0x6041 0 example_node = Some 0x6041"
  by (simp_all add: example_node_defs)

lemma example_states:
  "alState 0x0002 = PreOp" "alState 0x0008 = Op" "exchangesProcessData 0x0008" "\<not> exchangesProcessData 0x0002"
  by (simp_all add: alState_def al_of_raw_def exchangesProcessData_def alHasError_def)

lemma example_read:
  "readParameter (example_dev_bus 0x0002 (Inr [0x37, 0x02])) 0x6041 0 example_node =
     (Inr (VUint16 0x0237), upd_cell 0x6041 (store_synced [0x37, 0x02]) example_node)"
  "\<exists>n'. readParameter (example_dev_bus 0x0002 (Inl ''timeout'')) 0x6041 0 example_node = (Inl (BusError ''timeout''), n')"
proof -
  have dec: "decodeSdoBytes 0x0006 [0x37, 0x02] = Inr (VUint16 0x0237)" by code_simp
  have w: "example_node\<lparr>nd_world := ()\<rparr> = example_node" by (simp add: example_node_def)
  have dt: "dp_dataType (nd_cells example_node a) = 0x0006" for a
    by (simp add: example_node_def example_cells_def)
  have mb: "mailboxActive (example_dev_bus 0x0002 r) example_node" for r
    using example_states by (simp add: mailboxActive_def example_dev_bus_def)
  have sv: "served_bytes (example_dev_bus 0x0002 r) i s example_node = None" for r i s
    using example_states by (simp add: served_bytes_def device_exchanges_def example_node_def example_dev_bus_def)
  show "readParameter (example_dev_bus 0x0002 (Inr [0x37, 0x02])) 0x6041 0 example_node =
     (Inr (VUint16 0x0237), upd_cell 0x6041 (store_synced [0x37, 0x02]) example_node)"
    by (simp add: readParameter_def example_found dt sv mb unlocked_def dec) (simp add: example_dev_bus_def dec example_found dt w)
  show "\<exists>n'. readParameter (example_dev_bus 0x0002 (Inl ''timeout'')) 0x6041 0 example_node = (Inl (BusError ''timeout''), n')"
    by (simp add: readParameter_def example_found dt sv mb unlocked_def) (simp add: example_dev_bus_def)
qed

theorem readParameter_caches_witness:
  "\<exists>a. findParameter 0x6041 0 (upd_cell 0x6041 (store_synced [0x37, 0x02]) example_node) = Some a
     \<and> currentValue (nd_cells (upd_cell 0x6041 (store_synced [0x37, 0x02]) example_node) a) = VUint16 0x0237"
  using readParameter_caches [OF example_read(1)] by blast

theorem readParameter_failure_witness:
  "\<exists>n'. readParameter (example_dev_bus 0x0002 (Inl ''timeout'')) 0x6041 0 example_node = (Inl (BusError ''timeout''), n')
     \<and> nd_cells n' = (nd_cells example_node)(0x6041 := markReadFailed (nd_cells example_node 0x6041))"
proof -
  obtain n' where r: "readParameter (example_dev_bus 0x0002 (Inl ''timeout'')) 0x6041 0 example_node
      = (Inl (BusError ''timeout''), n')"
    using example_read(2) by blast
  moreover have "bus_others (example_dev_bus 0x0002 (Inl ''timeout'')) = id" by (simp add: example_dev_bus_def)
  ultimately show ?thesis using readParameter_failure [OF r _ example_found(2)] by blast
qed

lemma example_write:
  "setValue (VUint16 0x0006) (example_cells 0x6040) = Inr ((example_cells 0x6040)\<lparr>dp_cell := 6\<rparr>)"
  by code_simp

lemma example_op:
  "nd_processData example_node = Some example_pd" "pd_image example_pd = Some example_image"
  "device_exchanges (example_dev_bus 0x0008 r) example_node" "bus_others (example_dev_bus s r) = id"
  using example_states by (simp_all add: example_node_def example_pd_def device_exchanges_def example_dev_bus_def)

lemma example_output:
  "pi_outputs example_image ! 0 \<in> set (pi_outputs example_image)"
  "pie_parameter (pi_outputs example_image ! 0) = Some 0x6040"
  "entry_matches (dev_slavePosition (nd_device example_node)) 0x6040 0 (pi_outputs example_image ! 0)"
  by (simp_all add: example_image_def entry_matches_def example_node_def example_device_def)

lemma example_image_ok:
  "image_fields_ok (unat (pi_outputBytes example_image)) (pi_outputs example_image)"
  "unat (pi_outputBytes example_image) \<le> kMaxProcessImageBytes"
  by (rule buildProcessImage_fields_ok(1) [OF example_layout_ok example_devices_ok example_image_built])
    (simp add: example_image_def kMaxProcessImageBytes_def)

theorem writeParameter_settles_witness:
  "\<exists>r n'. writeParameter (example_dev_bus 0x0002 (Inr [])) 0x6040 0 (VUint16 6) example_node = (r, n')
     \<and> (\<exists>s. nd_cells n' = (nd_cells example_node)(0x6040 := set_sync s ((example_cells 0x6040)\<lparr>dp_cell := 6\<rparr>)))"
proof -
  obtain r n' where w: "writeParameter (example_dev_bus 0x0002 (Inr [])) 0x6040 0 (VUint16 6) example_node = (r, n')"
    by fastforce
  have "setValue (VUint16 6) (nd_cells example_node 0x6040) = Inr ((example_cells 0x6040)\<lparr>dp_cell := 6\<rparr>)"
    using example_write by (simp add: example_node_def)
  from writeParameter_settles [OF example_found(1) this example_op(4) w] w show ?thesis by blast
qed

lemma example_write_op:
  "\<exists>n'. writeParameter (example_dev_bus 0x0008 (Inr [])) 0x6040 0 (VUint16 6) example_node = (Inr (), n')"
proof -
  have "device_isOutputMapped (example_dev_bus 0x0008 (Inr [])) 0x6040 0 (upd_cell a f example_node)" for a f
    by (rule output_entry_mapped [OF example_op(1,2,3) example_output(1,3)])
  then show ?thesis
    using example_write by (simp add: writeParameter_def example_found Let_def) (simp add: example_node_def)
qed


theorem publishParameters_keeps_cells_witness:
  "let n' = publishParameters True [(makeParameterKey 0x6040 0, reset_value (example_cells 0x6040))] example_node
   in map_of (dev_parameters (nd_device n')) (makeParameterKey 0x6040 0) = Some 0x6040
    \<and> loadBits (nd_cells n' 0x6040) = 0x000F"
proof -
  have "node_wf example_node" by (simp add: node_wf_def example_node_defs)
  from publishParameters_keeps_cells [OF this,
      of "[(makeParameterKey 0x6040 0, reset_value (example_cells 0x6040))]" True]
  show ?thesis
    by (auto simp: Let_def same_type_def same_value_def reset_value_def storeBits_def example_node_def
        example_device_def example_cells_def loadBits_def)
qed

theorem decodeCompleteAccess_fills_witness:
  "fst (decodeCompleteAccess
     [(example_cells 0)\<lparr>dp_dataType := 0x0005, dp_bitLength := 8\<rparr>, (example_cells 0)\<lparr>dp_subindex := 1\<rparr>]
     (complete_blob [[1], [0x37, 0x02]])) = CaFilled"
proof -
  have "list_all2 holds_value
     [(example_cells 0)\<lparr>dp_dataType := 0x0005, dp_bitLength := 8\<rparr>, (example_cells 0)\<lparr>dp_subindex := 1\<rparr>] [[1], [0x37, 0x02]]"
    by (simp add: holds_value_def example_cells_def) code_simp
  from decodeCompleteAccess_fills [OF this] show ?thesis by (simp add: complete_blob_def)
qed

definition bits_node :: "unit Node" where
  "bits_node = example_node\<lparr>nd_cells := (\<lambda>a. (example_cells a)\<lparr>dp_dataType := 0x0031\<rparr>)\<rparr>"

theorem nonscalar_output_not_sent_witness:
  "\<exists>n'. writeParameter (example_dev_bus 0x0008 (Inr [])) 0x6040 0 (VBytes [3]) bits_node = (Inr (), n')
     \<and> compose_outputs (nd_cells n') example_image = compose_outputs (nd_cells bits_node) example_image"
proof -
  have f: "findParameter 0x6040 0 bits_node = Some 0x6040" by (simp add: bits_node_def example_node_defs)
  have op: "nd_processData bits_node = Some example_pd" "device_exchanges (example_dev_bus 0x0008 (Inr [])) bits_node"
    "entry_matches (dev_slavePosition (nd_device bits_node)) 0x6040 0 (pi_outputs example_image ! 0)"
    using example_op example_output(3) by (simp_all add: bits_node_def device_exchanges_def)
  have "device_isOutputMapped (example_dev_bus 0x0008 (Inr [])) 0x6040 0 (upd_cell a g bits_node)" for a g
    by (rule output_entry_mapped [OF op(1) example_op(2) op(2) example_output(1) op(3)])
  moreover have "setValue (VBytes [3]) ((example_cells 0x6040)\<lparr>dp_dataType := 0x0031\<rparr>)
      = Inr ((example_cells 0x6040)\<lparr>dp_dataType := 0x0031, dp_rawValue := [3]\<rparr>)" by code_simp
  ultimately obtain n' where w:
    "writeParameter (example_dev_bus 0x0008 (Inr [])) 0x6040 0 (VBytes [3]) bits_node = (Inr (), n')"
    by (auto simp: writeParameter_def f Let_def) (simp add: bits_node_def)
  have "\<not> isScalarDataType (dp_dataType (nd_cells bits_node 0x6040))"
    by (simp add: bits_node_def) code_simp
  from nonscalar_output_not_sent [OF w f op(1) example_op(2) op(2) example_output(1) op(3) this] w
  show ?thesis by blast
qed

end
