(* ===== verification/Core_Util.thy ===== *)
theory Core_Util
  imports Byte_Codec
begin

text \<open>
  The helpers of \<^verbatim>\<open>libs/core/util.h\<close> and the path check of \<^verbatim>\<open>libs/core/user_cache.cc\<close>. A character
  is one byte. \<^verbatim>\<open>std::from_chars\<close> and \<^verbatim>\<open>std::toupper\<close> are the standard library's, in the C locale.
\<close>

unbundle bit_operations_syntax

section \<open>Identifiers and numbers\<close>

definition char_in :: "char \<Rightarrow> char \<Rightarrow> char \<Rightarrow> bool" where
  "char_in c lo hi \<longleftrightarrow> of_char lo \<le> (of_char c :: nat) \<and> (of_char c :: nat) \<le> of_char hi"

definition url_safe_char :: "char \<Rightarrow> bool" where
  "url_safe_char c \<longleftrightarrow>
     char_in c CHR ''A'' CHR ''Z'' \<or> char_in c CHR ''a'' CHR ''z'' \<or> char_in c CHR ''0'' CHR ''9''
   \<or> c = CHR ''.'' \<or> c = CHR ''_'' \<or> c = CHR ''-''"

definition isUrlSafeId :: "string \<Rightarrow> bool" where
  "isUrlSafeId s \<longleftrightarrow> (if s = [] \<or> length s > 64 then False else list_all url_safe_char s)"

text \<open>The value of a digit, \<^verbatim>\<open>-1\<close> in the code being \<open>None\<close> here.\<close>

definition hex_digit :: "char \<Rightarrow> nat option" where
  "hex_digit c =
     (if char_in c CHR ''0'' CHR ''9'' then Some (of_char c - of_char CHR ''0'')
      else if char_in c CHR ''a'' CHR ''f'' then Some (of_char c - of_char CHR ''a'' + 10)
      else if char_in c CHR ''A'' CHR ''F'' then Some (of_char c - of_char CHR ''A'' + 10)
      else None)"

definition base_digit :: "nat \<Rightarrow> char \<Rightarrow> nat option" where
  "base_digit b c = (case hex_digit c of Some d \<Rightarrow> if d < b then Some d else None | None \<Rightarrow> None)"

text \<open>\<^verbatim>\<open>std::from_chars\<close> for an unsigned type: the longest prefix of digits, its value, and the rest.\<close>

fun digits_prefix :: "nat \<Rightarrow> string \<Rightarrow> nat list \<times> string" where
  "digits_prefix b [] = ([], [])"
| "digits_prefix b (c # cs) =
     (case base_digit b c of
        None \<Rightarrow> ([], c # cs)
      | Some d \<Rightarrow> (let (ds, rest) = digits_prefix b cs in (d # ds, rest)))"

definition digits_value :: "nat \<Rightarrow> nat list \<Rightarrow> nat" where
  "digits_value b ds = foldl (\<lambda>v d. v * b + d) 0 ds"

definition from_chars :: "nat \<Rightarrow> nat \<Rightarrow> string \<Rightarrow> (nat \<times> string) option" where
  "from_chars bits b s =
     (let (ds, rest) = digits_prefix b s
      in if ds = [] then None
         else if digits_value b ds \<ge> 2 ^ bits then None
         else Some (digits_value b ds, rest))"

definition has_hex_prefix :: "string \<Rightarrow> bool" where
  "has_hex_prefix s \<longleftrightarrow>
     length s \<ge> 2 \<and> (s ! 0 = CHR ''0'' \<or> s ! 0 = CHR ''#'') \<and> (s ! 1 = CHR ''x'' \<or> s ! 1 = CHR ''X'')"

definition parseHexOrDec :: "nat \<Rightarrow> string \<Rightarrow> nat option" where
  "parseHexOrDec bits s =
     (let r = (if has_hex_prefix s then from_chars bits 16 (drop 2 s) else from_chars bits 10 s)
      in case r of
           Some (v, []) \<Rightarrow> Some v
         | _ \<Rightarrow> None)"

section \<open>Hexadecimal and integers as bytes\<close>

definition hex_char :: "nat \<Rightarrow> char" where
  "hex_char d = (if d < 10 then char_of (of_char CHR ''0'' + d) else char_of (of_char CHR ''A'' + (d - 10)))"

definition hex_byte :: "u8 \<Rightarrow> string" where
  "hex_byte b = [hex_char (unat b div 16), hex_char (unat b mod 16)]"

fun toHex :: "bytes \<Rightarrow> string \<Rightarrow> string" where
  "toHex [] separator = []"
| "toHex [b] separator = hex_byte b"
| "toHex (b # bs) separator = hex_byte b @ separator @ toHex bs separator"

fun fromHex_loop :: "string \<Rightarrow> bytes option" where
  "fromHex_loop (h # l # cs) =
     (case (hex_digit h, hex_digit l) of
        (Some hi, Some lo) \<Rightarrow>
          map_option (\<lambda>bs. of_nat (hi * 16 + lo) # bs) (fromHex_loop cs)
      | _ \<Rightarrow> None)"
| "fromHex_loop _ = Some []"

definition fromHex :: "string \<Rightarrow> bytes option" where
  "fromHex hex = (if length hex mod 2 \<noteq> 0 then None else fromHex_loop hex)"

text \<open>\<^verbatim>\<open>toBytes<T>\<close> and \<^verbatim>\<open>fromBytes<T>\<close> for a type of \<open>n\<close> bytes.\<close>

definition toBytes :: "nat \<Rightarrow> bool \<Rightarrow> 'a :: len word \<Rightarrow> bytes" where
  "toBytes n big v =
     fold (\<lambda>i out. out[(if big then n - 1 - i else i) := ucast (drop_bit (8 * i) v AND 0xFF)])
       [0..<n] (replicate n 0)"

definition fromBytes :: "nat \<Rightarrow> bool \<Rightarrow> bytes \<Rightarrow> 'a :: len word" where
  "fromBytes sz big bs =
     (let n = min sz (length bs)
      in fold (\<lambda>i v. v OR push_bit (if big then 8 * (n - 1 - i) else 8 * i) (ucast (bs ! i))) [0..<n] 0)"

section \<open>Relative paths\<close>

definition kWindowsDeviceNames :: "string list" where
  "kWindowsDeviceNames =
     [''CON'', ''PRN'', ''AUX'', ''NUL'', ''COM1'', ''COM2'', ''COM3'', ''COM4'', ''COM5'', ''COM6'',
      ''COM7'', ''COM8'', ''COM9'', ''LPT1'', ''LPT2'', ''LPT3'', ''LPT4'', ''LPT5'', ''LPT6'',
      ''LPT7'', ''LPT8'', ''LPT9'']"

definition isControlCharacter :: "char \<Rightarrow> bool" where
  "isControlCharacter c \<longleftrightarrow> (of_char c :: nat) < 0x20 \<or> (of_char c :: nat) = 0x7F"

definition to_upper :: "char \<Rightarrow> char" where
  "to_upper c = (if char_in c CHR ''a'' CHR ''z'' then char_of (of_char c - 32 :: nat) else c)"

definition isWindowsDeviceName :: "string \<Rightarrow> bool" where
  "isWindowsDeviceName component =
     (let stem = takeWhile (\<lambda>c. c \<noteq> CHR ''.'') component
      in list_ex (\<lambda>device. map to_upper stem = map to_upper device) kWindowsDeviceNames)"

datatype path_error =
  PathEmpty | EmptyComponent | ControlCharacter | DotComponent | TrailingDotOrSpace | DeviceName | ColonInComponent

definition isSeparator :: "char \<Rightarrow> bool" where
  "isSeparator c \<longleftrightarrow> c = CHR ''/'' \<or> c = CHR 0x5C"

definition check_component :: "string \<Rightarrow> path_error option" where
  "check_component part =
     (if part = [] then Some EmptyComponent
      else if list_ex isControlCharacter part then Some ControlCharacter
      else if part = ''.'' \<or> part = ''..'' then Some DotComponent
      else if last part = CHR ''.'' \<or> last part = CHR '' '' then Some TrailingDotOrSpace
      else if isWindowsDeviceName part then Some DeviceName
      else if CHR '':'' \<in> set part then Some ColonInComponent
      else None)"

text \<open>The scan: \<open>part\<close> is the component read so far; a separator or the end of the path closes it.\<close>

fun split_loop :: "string \<Rightarrow> string \<Rightarrow> string list \<Rightarrow> path_error + string list" where
  "split_loop [] part parts =
     (case check_component part of Some e \<Rightarrow> Inl e | None \<Rightarrow> Inr (parts @ [part]))"
| "split_loop (c # cs) part parts =
     (if \<not> isSeparator c then split_loop cs (part @ [c]) parts
      else case check_component part of
             Some e \<Rightarrow> Inl e
           | None \<Rightarrow> split_loop cs [] (parts @ [part]))"

definition splitRelative :: "string \<Rightarrow> path_error + string list" where
  "splitRelative relPath = (if relPath = [] then Inl PathEmpty else split_loop relPath [] [])"

section \<open>Integers as bytes\<close>

lemma low_byte_of: "ucast (v AND 0xFF) = (ucast v :: u8)" for v :: "'a :: len word"
proof -
  have m: "(0xFF :: 'a word) = mask 8" by (simp add: mask_eq_exp_minus_1)
  show ?thesis unfolding m by (rule bit_word_eqI) (auto simp: bit_simps dest: bit_imp_le_length)
qed

lemma toBytes_little: "toBytes n False v = le_bytes n v"
proof -
  have "fold (\<lambda>i out. out[i := f i]) [0..<k] (replicate n 0) = map f [0..<k] @ replicate (n - k) 0"
    if "k \<le> n" for k and f :: "nat \<Rightarrow> u8"
    using that
  proof (induction k)
    case (Suc k)
    then have "replicate (n - k) (0 :: u8) = 0 # replicate (n - Suc k) 0"
      by (metis Suc_diff_Suc Suc_le_lessD replicate_Suc)
    with Suc show ?case by (simp add: list_update_append)
  qed simp
  from this [of n] show ?thesis by (simp add: toBytes_def le_bytes_def low_byte_of)
qed

lemma toBytes_big: "toBytes n True v = be_bytes n v"
proof -
  have "fold (\<lambda>i out. out[n - 1 - i := f i]) [0..<k] (replicate n 0) =
      replicate (n - k) 0 @ rev (map f [0..<k])" if "k \<le> n" for k and f :: "nat \<Rightarrow> u8"
    using that
  proof (induction k)
    case (Suc k)
    then have "replicate (n - k) (0 :: u8) = replicate (n - Suc k) 0 @ [0]"
      by (metis Suc_diff_Suc Suc_le_lessD replicate_Suc replicate_append_same)
    with Suc show ?case by (simp add: list_update_append)
  qed simp
  from this [of n] show ?thesis by (simp add: toBytes_def be_bytes_def le_bytes_def low_byte_of)
qed

lemma bit_ucast_byte_at:
  assumes "n < length bs"
  shows "bit (push_bit (8 * n) (ucast (bs ! n) :: 'a :: len word)) k \<longleftrightarrow>
           k < LENGTH('a) \<and> 8 * n \<le> k \<and> k < 8 * Suc n \<and> buf_bit bs k"
proof (cases "8 * n \<le> k")
  case True
  then obtain m where k: "k = 8 * n + m" using le_Suc_ex by blast
  have "bit (bs ! n) m \<Longrightarrow> m < 8" by (auto dest: bit_imp_le_length)
  then show ?thesis
    using assms buf_bit_byte [of m n bs] unfolding k by (auto simp: bit_simps)
qed (simp add: bit_simps)

lemma bit_fold_bytes:
  "n \<le> length bs \<Longrightarrow>
     bit (fold (\<lambda>i v. v OR push_bit (8 * i) (ucast (bs ! i))) [0..<n] (0 :: 'a :: len word)) k \<longleftrightarrow>
       k < LENGTH('a) \<and> k < 8 * n \<and> buf_bit bs k"
proof (induction n)
  case (Suc n)
  then have n: "n < length bs" by simp
  have "bit (fold (\<lambda>i v. v OR push_bit (8 * i) (ucast (bs ! i))) [0..<Suc n] (0 :: 'a word)) k \<longleftrightarrow>
      (k < LENGTH('a) \<and> k < 8 * n \<and> buf_bit bs k)
      \<or> (k < LENGTH('a) \<and> 8 * n \<le> k \<and> k < 8 * Suc n \<and> buf_bit bs k)"
    using Suc by (simp add: bit_or_iff bit_ucast_byte_at [OF n])
  moreover have "k < 8 * Suc n \<longleftrightarrow> k < 8 * n \<or> (8 * n \<le> k \<and> k < 8 * Suc n)" by auto
  ultimately show ?case by blast
qed simp

lemma fromBytes_little: "fromBytes n False bs = (le_word (take n bs) :: 'a :: len word)"
proof (rule bit_word_eqI)
  fix k
  have "bit (fromBytes n False bs :: 'a word) k \<longleftrightarrow> k < LENGTH('a) \<and> k < 8 * min n (length bs) \<and> buf_bit bs k"
    unfolding fromBytes_def Let_def if_False by (rule bit_fold_bytes) simp
  then show "bit (fromBytes n False bs :: 'a word) k = bit (le_word (take n bs) :: 'a word) k"
    using buf_bit_less [of bs k] by (auto simp: byte_bits)
qed

lemma fromBytes_toBytes_little: "LENGTH('a) = 8 * n \<Longrightarrow> fromBytes n False (toBytes n False v) = (v :: 'a :: len word)"
  by (simp add: fromBytes_little toBytes_little)

section \<open>Hexadecimal\<close>

lemma hex_digit_hex_char:
  assumes "d < 16"
  shows "hex_digit (hex_char d) = Some d"
proof (cases "d < 10")
  case True
  then show ?thesis by (simp add: hex_digit_def hex_char_def char_in_def)
next
  case False
  with assms obtain k where "d = 10 + k" "k < 6" using le_Suc_ex [of 10 d] by auto
  then show ?thesis by (simp add: hex_digit_def hex_char_def char_in_def)
qed

lemma hex_byte_value: "unat b div 16 * 16 + unat b mod 16 = unat (b :: u8)"
  by simp

lemma toHex_Cons: "toHex (b # bs) [] = hex_byte b @ toHex bs []"
  by (cases bs) simp_all

lemma fromHex_loop_toHex: "fromHex_loop (toHex bs []) = Some bs"
proof (induction bs)
  case (Cons b bs)
  have "unat b < 2 ^ 8" using unsigned_less [of b] by simp
  then have "hex_digit (hex_char (unat b div 16)) = Some (unat b div 16)"
    "hex_digit (hex_char (unat b mod 16)) = Some (unat b mod 16)"
    by (intro hex_digit_hex_char; simp)+
  then show ?case using Cons by (simp add: toHex_Cons hex_byte_def)
qed simp

lemma length_toHex: "length (toHex bs []) = 2 * length bs"
  by (induction bs) (simp_all add: toHex_Cons hex_byte_def)

text \<open>
  The hexadecimal printer and parser are inverse: bytes printed without a separator parse back to
  the same bytes, and a string parses to bytes exactly when it has an even number of characters, all
  hexadecimal digits of either case, with as many bytes as half its length.
\<close>

theorem hex_round_trip:
  "fromHex (toHex bs []) = Some bs
   \<and> (case fromHex s of
        Some out \<Rightarrow> even (length s) \<and> list_all (\<lambda>c. hex_digit c \<noteq> None) s \<and> 2 * length out = length s
      | None \<Rightarrow> \<not> (even (length s) \<and> list_all (\<lambda>c. hex_digit c \<noteq> None) s))"
proof
  show "fromHex (toHex bs []) = Some bs"
    by (simp add: fromHex_def length_toHex fromHex_loop_toHex)
  have "case fromHex_loop s of
        Some out \<Rightarrow> list_all (\<lambda>c. hex_digit c \<noteq> None) s \<and> 2 * length out = length s
      | None \<Rightarrow> list_ex (\<lambda>c. hex_digit c = None) s" if "even (length s)"
    using that by (induction s rule: fromHex_loop.induct) (auto split: option.splits)
  then show "case fromHex s of
        Some out \<Rightarrow> even (length s) \<and> list_all (\<lambda>c. hex_digit c \<noteq> None) s \<and> 2 * length out = length s
      | None \<Rightarrow> \<not> (even (length s) \<and> list_all (\<lambda>c. hex_digit c \<noteq> None) s)"
    by (auto simp: fromHex_def odd_iff_mod_2_eq_one even_iff_mod_2_eq_zero list_ex_iff list_all_iff split: option.splits)
qed

section \<open>Numbers\<close>

lemma digits_prefix_append:
  "digits_prefix b s = (ds, rest) \<Longrightarrow> \<exists>p. s = p @ rest \<and> map (base_digit b) p = map Some ds"
proof (induction s arbitrary: ds)
  case (Cons c cs)
  show ?case
  proof (cases "base_digit b c")
    case (Some d)
    obtain ds' rest' where r: "digits_prefix b cs = (ds', rest')" by fastforce
    with Some Cons.prems have ds: "ds = d # ds'" "rest = rest'" by auto
    then obtain p where "cs = p @ rest" "map (base_digit b) p = map Some ds'" using Cons.IH r by blast
    with Some ds show ?thesis by (intro exI [of _ "c # p"]) simp
  qed (use Cons in auto)
qed simp

lemma digits_prefix_all: "map (base_digit b) s = map Some ds \<Longrightarrow> digits_prefix b s = (ds, [])"
  by (induction s arbitrary: ds) auto

lemma from_chars_all:
  "from_chars bits b s = Some (v, []) \<longleftrightarrow>
     (\<exists>ds. ds \<noteq> [] \<and> map (base_digit b) s = map Some ds \<and> v = digits_value b ds \<and> v < 2 ^ bits)"
proof
  assume a: "from_chars bits b s = Some (v, [])"
  obtain ds rest where d: "digits_prefix b s = (ds, rest)" by fastforce
  with a have "ds \<noteq> []" "rest = []" "v = digits_value b ds" "v < 2 ^ bits"
    by (auto simp: from_chars_def Let_def split: if_splits)
  with digits_prefix_append [OF d]
  show "\<exists>ds. ds \<noteq> [] \<and> map (base_digit b) s = map Some ds \<and> v = digits_value b ds \<and> v < 2 ^ bits" by auto
next
  assume "\<exists>ds. ds \<noteq> [] \<and> map (base_digit b) s = map Some ds \<and> v = digits_value b ds \<and> v < 2 ^ bits"
  then show "from_chars bits b s = Some (v, [])"
    by (auto simp: from_chars_def Let_def digits_prefix_all)
qed

section \<open>Paths\<close>

definition component_ok :: "string \<Rightarrow> bool" where
  "component_ok part \<longleftrightarrow> check_component part = None \<and> list_all (\<lambda>c. \<not> isSeparator c) part"

fun join_parts :: "string list \<Rightarrow> string" where
  "join_parts [] = []"
| "join_parts [p] = p"
| "join_parts (p # ps) = p @ CHR ''/'' # join_parts ps"

definition normal_separator :: "char \<Rightarrow> char" where
  "normal_separator c = (if isSeparator c then CHR ''/'' else c)"

lemma normal_plain: "list_all (\<lambda>c. \<not> isSeparator c) s \<Longrightarrow> map normal_separator s = s"
  by (induction s) (auto simp: normal_separator_def)

lemma first_separator_eq:
  "p @ x # r = q @ x # s \<Longrightarrow> x \<notin> set p \<Longrightarrow> x \<notin> set q \<Longrightarrow> p = q \<and> r = s"
  by (induction p arbitrary: q) (auto simp: Cons_eq_append_conv append_eq_Cons_conv)

lemma split_loop_sound:
  assumes "split_loop s part parts = Inr out" and "list_all (\<lambda>c. \<not> isSeparator c) part"
  shows "\<exists>ps. out = parts @ ps \<and> ps \<noteq> [] \<and> list_all component_ok ps
            \<and> join_parts ps = part @ map normal_separator s"
  using assms
proof (induction s part parts rule: split_loop.induct)
  case (1 part parts)
  then show ?case by (intro exI [of _ "[part]"]) (auto simp: component_ok_def split: option.splits)
next
  case (2 c cs part parts)
  show ?case
  proof (cases "isSeparator c")
    case False
    with 2 obtain ps where "out = parts @ ps \<and> ps \<noteq> [] \<and> list_all component_ok ps
        \<and> join_parts ps = (part @ [c]) @ map normal_separator cs" by auto
    with False show ?thesis by (intro exI [of _ ps]) (simp add: normal_separator_def)
  next
    case True
    with 2 have ok: "check_component part = None" by (auto split: option.splits)
    with 2 True obtain ps where ps: "out = (parts @ [part]) @ ps" "ps \<noteq> []" "list_all component_ok ps"
        "join_parts ps = [] @ map normal_separator cs" by auto
    moreover have "join_parts (part # ps) = part @ CHR ''/'' # join_parts ps" using ps(2) by (cases ps) auto
    moreover have "component_ok part" using ok 2(4) by (simp add: component_ok_def)
    ultimately show ?thesis
      using True by (intro exI [of _ "part # ps"]) (simp add: normal_separator_def)
  qed
qed

lemma split_loop_complete:
  assumes "ps \<noteq> []" and "list_all component_ok ps" and "join_parts ps = part @ map normal_separator s"
    and "list_all (\<lambda>c. \<not> isSeparator c) part"
  shows "split_loop s part parts = Inr (parts @ ps)"
  using assms
proof (induction s part parts arbitrary: ps rule: split_loop.induct)
  case (1 part parts)
  have "ps = [part]"
  proof (cases ps rule: join_parts.cases)
    case (3 p q r)
    then have "CHR ''/'' \<in> set part" using 1(3) by auto
    then show ?thesis using 1(4) by (auto simp: list_all_iff isSeparator_def)
  qed (use 1 in auto)
  then show ?case using 1 by (simp add: component_ok_def)
next
  case (2 c cs part parts)
  show ?case
  proof (cases "isSeparator c")
    case False
    then show ?thesis using 2 by (simp add: normal_separator_def)
  next
    case True
    obtain p q where ps: "ps = p # q" using 2(3) by (cases ps) auto
    have eq: "join_parts ps = part @ CHR ''/'' # map normal_separator cs"
      using 2(5) True by (simp add: normal_separator_def)
    have pok: "component_ok p" "CHR ''/'' \<notin> set p" using 2(4) ps by (auto simp: component_ok_def list_all_iff isSeparator_def)
    have "q \<noteq> []"
    proof
      assume "q = []"
      then have "CHR ''/'' \<in> set p" using eq ps by simp
      with pok show False by simp
    qed
    then have "p @ CHR ''/'' # join_parts q = part @ CHR ''/'' # map normal_separator cs"
      using eq ps by (cases q) auto
    moreover have "CHR ''/'' \<notin> set part" using 2(6) by (auto simp: list_all_iff isSeparator_def)
    ultimately have p: "p = part" "join_parts q = map normal_separator cs"
      using pok(2) first_separator_eq by fastforce+
    then have "split_loop cs [] (parts @ [part]) = Inr ((parts @ [part]) @ q)"
      using 2(2) [OF _ _ \<open>q \<noteq> []\<close>] True pok(1) 2(4) ps by (simp add: component_ok_def)
    then show ?thesis using True pok(1) p ps by (simp add: component_ok_def)
  qed
qed


end
