(* ===== verification/Sii.thy ===== *)
theory Sii
  imports Byte_Codec
begin

text \<open>
  The image of a slave's EEPROM (\<^verbatim>\<open>libs/comm/sii.h\<close>, \<^verbatim>\<open>libs/comm/sii.cc\<close>): the decoder of the fixed header
  and of the category chain, and the check an image has to pass before it is written. A signed field
  is its word; the JSON printers are not modelled.
\<close>

unbundle bit_operations_syntax

section \<open>The decoded image\<close>

record SiiInfo =
  sii_pdiControl :: u16
  sii_pdiConfiguration :: u16
  sii_syncImpulseLen :: u16
  sii_pdiConfiguration2 :: u16
  sii_configuredStationAlias :: u16
  sii_checksum :: u16
  sii_vendorId :: u32
  sii_productCode :: u32
  sii_revisionNumber :: u32
  sii_serialNumber :: u32
  sii_bootstrapReceiveMailboxOffset :: u16
  sii_bootstrapReceiveMailboxSize :: u16
  sii_bootstrapSendMailboxOffset :: u16
  sii_bootstrapSendMailboxSize :: u16
  sii_standardReceiveMailboxOffset :: u16
  sii_standardReceiveMailboxSize :: u16
  sii_standardSendMailboxOffset :: u16
  sii_standardSendMailboxSize :: u16
  sii_mailboxProtocol :: u16
  sii_size :: u16
  sii_version :: u16

record SiiCategoryGeneral =
  gen_groupIdx :: u8
  gen_imgIdx :: u8
  gen_orderIdx :: u8
  gen_nameIdx :: u8
  gen_coeDetails :: u8
  gen_foeDetails :: u8
  gen_eoeDetails :: u8
  gen_soeChannels :: u8
  gen_ds402Channels :: u8
  gen_sysmanClass :: u8
  gen_flags :: u8
  gen_currentOnEBus :: u16
  gen_physicalPort :: u16
  gen_physicalMemoryAddress :: u16

record SiiCategorySyncManagerElement =
  sme_physicalStartAddress :: u16
  sme_length :: u16
  sme_controlRegister :: u8
  sme_statusRegister :: u8
  sme_enableSyncManager :: u8
  sme_syncManagerType :: u8

record SiiCategoryPdoEntryElement =
  pee_entryIndex :: u16
  pee_subindex :: u8
  pee_entryNameIdx :: u8
  pee_dataType :: u8
  pee_bitLen :: u8
  pee_flags :: u16

record SiiCategoryPdoElement =
  pdo_pdoIndex :: u16
  pdo_nEntry :: u8
  pdo_syncM :: u8
  pdo_synchronization :: u8
  pdo_nameIdx :: u8
  pdo_flags :: u16
  pdo_entries :: "SiiCategoryPdoEntryElement list"

record SiiCategoryDistributedClockElement =
  dc_cycleTime0 :: u32
  dc_shiftTime0 :: u32
  dc_shiftTime1 :: u32
  dc_sync1CycleFactor :: u16
  dc_assignActivate :: u16
  dc_sync0CycleFactor :: u16
  dc_nameIdx :: u8
  dc_descIdx :: u8

record SiiCategorySection =
  sec_strings :: "bytes list"
  sec_general :: SiiCategoryGeneral
  sec_fmmus :: bytes
  sec_syncManagers :: "SiiCategorySyncManagerElement list"
  sec_rxPdos :: "SiiCategoryPdoElement list"
  sec_txPdos :: "SiiCategoryPdoElement list"
  sec_distributedClocks :: "SiiCategoryDistributedClockElement list"

record SlaveInformationInterface =
  sii_info :: SiiInfo
  sii_category :: SiiCategorySection

datatype SiiCategoryType =
    Nop | DeviceSpecific | Strings | DataTypes | General | Fmmu | SyncM | FmmuX | SyncUnit | TxPdo | RxPdo
  | Dc | Timeouts | Dictionary | Hardware | VendorInformation | Images | VendorSpecific
  | ApplicationSpecific | End

fun category_word :: "SiiCategoryType \<Rightarrow> u16" where
  "category_word Nop = 0"
| "category_word DeviceSpecific = 1"
| "category_word Strings = 10"
| "category_word DataTypes = 20"
| "category_word General = 30"
| "category_word Fmmu = 40"
| "category_word SyncM = 41"
| "category_word FmmuX = 42"
| "category_word SyncUnit = 43"
| "category_word TxPdo = 50"
| "category_word RxPdo = 51"
| "category_word Dc = 60"
| "category_word Timeouts = 70"
| "category_word Dictionary = 80"
| "category_word Hardware = 90"
| "category_word VendorInformation = 100"
| "category_word Images = 110"
| "category_word VendorSpecific = 0x0800"
| "category_word ApplicationSpecific = 0x2000"
| "category_word End = 0xFFFF"

section \<open>Field readers\<close>

definition rdU8 :: "bytes \<Rightarrow> nat \<Rightarrow> u8" where
  "rdU8 b off = (if off < length b then b ! off else 0)"

definition rdU16 :: "bytes \<Rightarrow> nat \<Rightarrow> u16" where
  "rdU16 b off = (if off + 2 > length b then 0 else le_word (subspan b off 2))"

definition rdI16 :: "bytes \<Rightarrow> nat \<Rightarrow> u16" where
  "rdI16 b off = rdU16 b off"

definition rdU32 :: "bytes \<Rightarrow> nat \<Rightarrow> u32" where
  "rdU32 b off = (if off + 4 > length b then 0 else le_word (subspan b off 4))"

definition kHeaderBytes :: nat where
  "kHeaderBytes = 128"

section \<open>Decoders\<close>

definition parseHeader :: "bytes \<Rightarrow> SiiInfo" where
  "parseHeader b =
     \<lparr>sii_pdiControl = rdU16 b 0, sii_pdiConfiguration = rdU16 b 2, sii_syncImpulseLen = rdU16 b 4,
      sii_pdiConfiguration2 = rdU16 b 6, sii_configuredStationAlias = rdU16 b 8,
      sii_checksum = rdU16 b 14, sii_vendorId = rdU32 b 16, sii_productCode = rdU32 b 20,
      sii_revisionNumber = rdU32 b 24, sii_serialNumber = rdU32 b 28,
      sii_bootstrapReceiveMailboxOffset = rdU16 b 40, sii_bootstrapReceiveMailboxSize = rdU16 b 42,
      sii_bootstrapSendMailboxOffset = rdU16 b 44, sii_bootstrapSendMailboxSize = rdU16 b 46,
      sii_standardReceiveMailboxOffset = rdU16 b 48, sii_standardReceiveMailboxSize = rdU16 b 50,
      sii_standardSendMailboxOffset = rdU16 b 52, sii_standardSendMailboxSize = rdU16 b 54,
      sii_mailboxProtocol = rdU16 b 56, sii_size = rdU16 b 124, sii_version = rdU16 b 126\<rparr>"

fun strings_loop :: "bytes \<Rightarrow> nat \<Rightarrow> nat \<Rightarrow> bytes list" where
  "strings_loop p cursor 0 = []"
| "strings_loop p cursor (Suc remaining) =
     (if cursor \<ge> length p then []
      else let len = unat (p ! cursor); cursor = cursor + 1;
               taken = min len (length p - cursor)
           in subspan p cursor taken # strings_loop p (cursor + len) remaining)"

definition parseStrings :: "bytes \<Rightarrow> bytes list" where
  "parseStrings p = (if p = [] then [] else strings_loop p 1 (unat (p ! 0)))"

definition parseGeneral :: "bytes \<Rightarrow> SiiCategoryGeneral" where
  "parseGeneral p =
     \<lparr>gen_groupIdx = rdU8 p 0, gen_imgIdx = rdU8 p 1, gen_orderIdx = rdU8 p 2, gen_nameIdx = rdU8 p 3,
      gen_coeDetails = rdU8 p 5, gen_foeDetails = rdU8 p 6, gen_eoeDetails = rdU8 p 7,
      gen_soeChannels = rdU8 p 8, gen_ds402Channels = rdU8 p 9, gen_sysmanClass = rdU8 p 10,
      gen_flags = rdU8 p 11, gen_currentOnEBus = rdI16 p 12, gen_physicalPort = rdU16 p 16,
      gen_physicalMemoryAddress = rdU16 p 18\<rparr>"

definition parseFmmu :: "bytes \<Rightarrow> bytes" where
  "parseFmmu p = map (rdU8 p) [0..<length p]"

definition sync_manager_at :: "bytes \<Rightarrow> nat \<Rightarrow> SiiCategorySyncManagerElement" where
  "sync_manager_at p i =
     \<lparr>sme_physicalStartAddress = rdU16 p i, sme_length = rdU16 p (i + 2),
      sme_controlRegister = rdU8 p (i + 4), sme_statusRegister = rdU8 p (i + 5),
      sme_enableSyncManager = rdU8 p (i + 6), sme_syncManagerType = rdU8 p (i + 7)\<rparr>"

definition parseSyncManagers :: "bytes \<Rightarrow> SiiCategorySyncManagerElement list" where
  "parseSyncManagers p = map (\<lambda>k. sync_manager_at p (8 * k)) [0..<length p div 8]"

definition pdo_entry_at :: "bytes \<Rightarrow> nat \<Rightarrow> SiiCategoryPdoEntryElement" where
  "pdo_entry_at p offset =
     \<lparr>pee_entryIndex = rdU16 p offset, pee_subindex = rdU8 p (offset + 2),
      pee_entryNameIdx = rdU8 p (offset + 3), pee_dataType = rdU8 p (offset + 4),
      pee_bitLen = rdU8 p (offset + 5), pee_flags = rdU16 p (offset + 6)\<rparr>"

fun pdo_entries_loop :: "bytes \<Rightarrow> nat \<Rightarrow> nat \<Rightarrow> SiiCategoryPdoEntryElement list \<times> nat" where
  "pdo_entries_loop p offset 0 = ([], offset)"
| "pdo_entries_loop p offset (Suc remaining) =
     (if offset + 8 > length p then ([], offset)
      else let (entries, end_offset) = pdo_entries_loop p (offset + 8) remaining
           in (pdo_entry_at p offset # entries, end_offset))"

lemma pdo_entries_loop_advances: "offset \<le> snd (pdo_entries_loop p offset n)"
  by (induction p offset n rule: pdo_entries_loop.induct) (auto simp: Let_def split: prod.splits)

definition pdo_at :: "bytes \<Rightarrow> nat \<Rightarrow> SiiCategoryPdoElement" where
  "pdo_at p offset =
     \<lparr>pdo_pdoIndex = rdU16 p offset, pdo_nEntry = rdU8 p (offset + 2), pdo_syncM = rdU8 p (offset + 3),
      pdo_synchronization = rdU8 p (offset + 4), pdo_nameIdx = rdU8 p (offset + 5),
      pdo_flags = rdU16 p (offset + 6),
      pdo_entries = fst (pdo_entries_loop p (offset + 8) (unat (rdU8 p (offset + 2))))\<rparr>"

function parsePdo_loop :: "bytes \<Rightarrow> nat \<Rightarrow> SiiCategoryPdoElement list" where
  "parsePdo_loop p offset =
     (if offset + 8 \<le> length p
      then pdo_at p offset
             # parsePdo_loop p (snd (pdo_entries_loop p (offset + 8) (unat (rdU8 p (offset + 2)))))
      else [])"
  by auto
termination
proof (relation "measure (\<lambda>(p, offset). length p - offset)")
  show "((p, snd (pdo_entries_loop p (offset + 8) (unat (rdU8 p (offset + 2))))), p, offset)
    \<in> measure (\<lambda>(p, offset). length p - offset)" if "offset + 8 \<le> length p" for p offset
    using that pdo_entries_loop_advances [of "offset + 8" p "unat (rdU8 p (offset + 2))"] by auto
qed simp

declare parsePdo_loop.simps [simp del]

definition parsePdo :: "bytes \<Rightarrow> SiiCategoryPdoElement list" where
  "parsePdo p = parsePdo_loop p 0"

definition dc_at :: "bytes \<Rightarrow> nat \<Rightarrow> SiiCategoryDistributedClockElement" where
  "dc_at p i =
     \<lparr>dc_cycleTime0 = rdU32 p i, dc_shiftTime0 = rdU32 p (i + 4), dc_shiftTime1 = rdU32 p (i + 8),
      dc_sync1CycleFactor = rdI16 p (i + 12), dc_assignActivate = rdU16 p (i + 14),
      dc_sync0CycleFactor = rdI16 p (i + 16), dc_nameIdx = rdU8 p (i + 18), dc_descIdx = rdU8 p (i + 19)\<rparr>"

definition parseDc :: "bytes \<Rightarrow> SiiCategoryDistributedClockElement list" where
  "parseDc p = map (\<lambda>k. dc_at p (24 * k)) [0..<length p div 24]"

section \<open>The category chain\<close>

definition single_categories :: "SiiCategoryType list" where
  "single_categories =
     [Nop, Strings, DataTypes, General, Fmmu, SyncM, FmmuX, SyncUnit, TxPdo, RxPdo, Dc, Timeouts,
      Dictionary, Hardware, VendorInformation, Images, End]"

definition resolveSiiCategoryType :: "u16 \<Rightarrow> SiiCategoryType option" where
  "resolveSiiCategoryType v =
     (if v \<ge> 1 \<and> v \<le> 9 then Some DeviceSpecific
      else if v \<ge> 0x0800 \<and> v \<le> 0x1FFF then Some VendorSpecific
      else if v \<ge> 0x2000 \<and> v \<le> 0x2FFF then Some ApplicationSpecific
      else if v \<ge> 0x3000 \<and> v \<le> 0xFFFE then Some VendorSpecific
      else find (\<lambda>c. category_word c = v) single_categories)"

definition add_category :: "SiiCategoryType option \<Rightarrow> bytes \<Rightarrow> SiiCategorySection \<Rightarrow> SiiCategorySection" where
  "add_category type payload sec =
     (if type = Some Strings then sec\<lparr>sec_strings := parseStrings payload\<rparr>
      else if type = Some General then sec\<lparr>sec_general := parseGeneral payload\<rparr>
      else if type = Some Fmmu then sec\<lparr>sec_fmmus := parseFmmu payload\<rparr>
      else if type = Some SyncM then sec\<lparr>sec_syncManagers := parseSyncManagers payload\<rparr>
      else if type = Some RxPdo then sec\<lparr>sec_rxPdos := sec_rxPdos sec @ parsePdo payload\<rparr>
      else if type = Some TxPdo then sec\<lparr>sec_txPdos := sec_txPdos sec @ parsePdo payload\<rparr>
      else if type = Some Dc then sec\<lparr>sec_distributedClocks := parseDc payload\<rparr>
      else sec)"

function parse_categories :: "bytes \<Rightarrow> nat \<Rightarrow> SiiCategorySection \<Rightarrow> SiiCategorySection" where
  "parse_categories categories offset sec =
     (if offset + 4 \<le> length categories
      then let typeValue = rdU16 categories offset
           in if typeValue = category_word End then sec
              else let wordSize = rdU16 categories (offset + 2);
                       type = resolveSiiCategoryType typeValue;
                       payloadStart = offset + 4;
                       declared = unat wordSize * 2;
                       available = length categories - payloadStart;
                       payload = subspan categories payloadStart (min declared available);
                       sec = add_category type payload sec
                   in if type = Some Nop \<or> type = Some End then sec
                      else parse_categories categories (payloadStart + declared) sec
      else sec)"
  by auto
termination by (relation "measure (\<lambda>(categories, offset, sec). length categories - offset)") auto

declare parse_categories.simps [simp del]

definition empty_section :: SiiCategorySection where
  "empty_section =
     \<lparr>sec_strings = [],
      sec_general =
        \<lparr>gen_groupIdx = 0, gen_imgIdx = 0, gen_orderIdx = 0, gen_nameIdx = 0, gen_coeDetails = 0,
         gen_foeDetails = 0, gen_eoeDetails = 0, gen_soeChannels = 0, gen_ds402Channels = 0,
         gen_sysmanClass = 0, gen_flags = 0, gen_currentOnEBus = 0, gen_physicalPort = 0,
         gen_physicalMemoryAddress = 0\<rparr>,
      sec_fmmus = [], sec_syncManagers = [], sec_rxPdos = [], sec_txPdos = [], sec_distributedClocks = []\<rparr>"

datatype sii_error =
    ImageTooSmall nat
  | OddLength nat
  | ChecksumMismatch u8 u8
  | NoEndMarker
  | NoSizeWord nat
  | CategoryPastEnd nat u16

definition parseSii :: "bytes \<Rightarrow> sii_error + SlaveInformationInterface" where
  "parseSii buffer =
     (if length buffer < kHeaderBytes then Inl (ImageTooSmall (length buffer))
      else Inr \<lparr>sii_info = parseHeader buffer,
                sii_category = parse_categories (drop kHeaderBytes buffer) 0 empty_section\<rparr>)"

section \<open>The check before a write\<close>

definition crc_shift :: "u8 \<Rightarrow> u8" where
  "crc_shift crc = (if crc AND 0x80 \<noteq> 0 then push_bit 1 crc XOR 0x07 else push_bit 1 crc)"

definition crc_byte :: "u8 \<Rightarrow> u8 \<Rightarrow> u8" where
  "crc_byte b crc = (crc_shift ^^ 8) (crc XOR b)"

definition sii_crc :: "bytes \<Rightarrow> u8" where
  "sii_crc bs = fold crc_byte bs 0xFF"

function check_chain :: "bytes \<Rightarrow> nat \<Rightarrow> nat \<Rightarrow> sii_error + unit" where
  "check_chain buffer words word =
     (if word \<ge> words then Inl NoEndMarker
      else if le_word (subspan buffer (word * 2) 2) = (0xFFFF :: u16) then Inr ()
      else if word + 1 \<ge> words then Inl (NoSizeWord word)
      else let size = le_word (subspan buffer ((word + 1) * 2) 2) :: u16;
               next_word = word + 2 + unat size
           in if next_word \<le> word \<or> next_word > words then Inl (CategoryPastEnd word size)
              else check_chain buffer words next_word)"
  by auto
termination by (relation "measure (\<lambda>(buffer, words, word). words - word)") auto

declare check_chain.simps [simp del]

definition validateSiiImage :: "bytes \<Rightarrow> sii_error + unit" where
  "validateSiiImage buffer =
     (let words = length buffer div 2; crc = sii_crc (take 14 buffer)
      in if length buffer mod 2 \<noteq> 0 then Inl (OddLength (length buffer))
         else if words < 0x40 + 1 then Inl (ImageTooSmall words)
         else if crc \<noteq> buffer ! 14 then Inl (ChecksumMismatch (buffer ! 14) crc)
         else check_chain buffer words 0x40)"

section \<open>The chain as a list of categories\<close>

definition category_ok :: "u16 \<times> bytes \<Rightarrow> bool" where
  "category_ok c \<longleftrightarrow> fst c \<noteq> 0xFFFF \<and> even (length (snd c)) \<and> length (snd c) div 2 < 2 ^ 16"

definition category_bytes :: "u16 \<times> bytes \<Rightarrow> bytes" where
  "category_bytes c = le_bytes 2 (fst c) @ le_bytes 2 (of_nat (length (snd c) div 2) :: u16) @ snd c"

definition chain_bytes :: "(u16 \<times> bytes) list \<Rightarrow> bytes" where
  "chain_bytes cats = concat (map category_bytes cats)"

definition end_marker :: bytes where
  "end_marker = [0xFF, 0xFF]"

definition holds_chain :: "bytes \<Rightarrow> (u16 \<times> bytes) list \<Rightarrow> bool" where
  "holds_chain bs cats \<longleftrightarrow>
     list_all category_ok cats
   \<and> take (length (chain_bytes cats) + 2) bs = chain_bytes cats @ end_marker"

lemma end_marker_bytes: "end_marker = le_bytes 2 (0xFFFF :: u16)"
proof -
  have "[0..<2] = [0, 1 :: nat]" by code_simp
  then show ?thesis by (simp add: end_marker_def le_bytes_def)
qed

lemma end_marker_word: "le_word end_marker = (0xFFFF :: u16)"
  by (simp add: end_marker_bytes)

lemma end_marker_unique:
  assumes "length bs = 2"
  shows "le_word bs = (0xFFFF :: u16) \<longleftrightarrow> bs = end_marker"
proof
  assume w: "le_word bs = (0xFFFF :: u16)"
  have "le_bytes 2 (le_word bs :: u16) = bs" using assms by (intro le_bytes_le_word) simp_all
  then show "bs = end_marker" unfolding w end_marker_bytes by (rule sym)
next
  assume "bs = end_marker"
  then show "le_word bs = (0xFFFF :: u16)" by (simp only: end_marker_word)
qed

lemma holds_chain_split:
  "holds_chain bs cats \<longleftrightarrow> list_all category_ok cats \<and> (\<exists>rest. bs = chain_bytes cats @ end_marker @ rest)"
proof -
  have "take (length (chain_bytes cats) + 2) bs = chain_bytes cats @ end_marker
    \<longleftrightarrow> (\<exists>rest. bs = chain_bytes cats @ end_marker @ rest)" (is "?l = ?r")
  proof
    assume ?l
    then have "bs = (chain_bytes cats @ end_marker) @ drop (length (chain_bytes cats) + 2) bs"
      by (metis append_take_drop_id)
    then show ?r by (metis append_assoc)
  next
    assume ?r
    then show ?l by (auto simp: end_marker_def)
  qed
  then show ?thesis by (simp add: holds_chain_def)
qed

lemma holds_chain_Nil: "holds_chain bs [] \<longleftrightarrow> take 2 bs = end_marker"
  by (simp add: holds_chain_def chain_bytes_def numeral_2_eq_2)

lemma chain_bytes_Cons: "chain_bytes (c # cats) = category_bytes c @ chain_bytes cats"
  by (simp add: chain_bytes_def)

lemma length_category_bytes: "length (category_bytes c) = 4 + length (snd c)"
  by (simp add: category_bytes_def)

text \<open>A chain that starts with a category: its type, its size in words, its payload, then the rest.\<close>

lemma holds_chain_Cons:
  "holds_chain bs (c # cats) \<longleftrightarrow>
     category_ok c
   \<and> 4 + length (snd c) \<le> length bs
   \<and> le_word (take 2 bs) = fst c \<and> unat (le_word (subspan bs 2 2) :: u16) * 2 = length (snd c)
   \<and> subspan bs 4 (length (snd c)) = snd c
   \<and> holds_chain (drop (4 + length (snd c)) bs) cats"
proof (cases "category_ok c")
  case True
  obtain t p where c: "c = (t, p)" by (cases c)
  let ?n = "of_nat (length p div 2) :: u16"
  have n: "unat ?n * 2 = length p" using True by (simp add: category_ok_def c unat_of_nat)
  show ?thesis
  proof
    assume "holds_chain bs (c # cats)"
    then obtain rest where bs: "bs = le_bytes 2 t @ le_bytes 2 ?n @ p @ chain_bytes cats @ end_marker @ rest"
      and ok: "list_all category_ok cats"
      by (auto simp: holds_chain_split chain_bytes_Cons category_bytes_def c)
    have "take 2 bs = le_bytes 2 t" "subspan bs 2 2 = le_bytes 2 ?n" "subspan bs 4 (length p) = p"
      "drop (4 + length p) bs = chain_bytes cats @ end_marker @ rest"
      by (simp_all add: bs subspan_def)
    then show "category_ok c \<and> 4 + length (snd c) \<le> length bs \<and> le_word (take 2 bs) = fst c
      \<and> unat (le_word (subspan bs 2 2) :: u16) * 2 = length (snd c)
      \<and> subspan bs 4 (length (snd c)) = snd c \<and> holds_chain (drop (4 + length (snd c)) bs) cats"
      using True n ok by (auto simp: c bs holds_chain_split)
  next
    assume r: "category_ok c \<and> 4 + length (snd c) \<le> length bs \<and> le_word (take 2 bs) = fst c
      \<and> unat (le_word (subspan bs 2 2) :: u16) * 2 = length (snd c)
      \<and> subspan bs 4 (length (snd c)) = snd c \<and> holds_chain (drop (4 + length (snd c)) bs) cats"
    have t: "take 2 bs = le_bytes 2 t"
    proof -
      have "le_bytes 2 (le_word (take 2 bs) :: u16) = take 2 bs" using r by (intro le_bytes_le_word) auto
      with r c show ?thesis by simp
    qed
    have s: "subspan bs 2 2 = le_bytes 2 ?n"
    proof -
      have "le_bytes 2 (le_word (subspan bs 2 2) :: u16) = subspan bs 2 2" using r by (intro le_bytes_le_word) auto
      moreover have "(le_word (subspan bs 2 2) :: u16) = ?n"
        using r n c by (intro word_unat_eq_iff [THEN iffD2]) auto
      ultimately show ?thesis by simp
    qed
    have "bs = take 2 bs @ subspan bs 2 2 @ subspan bs 4 (length p) @ drop (4 + length p) bs"
    proof -
      have "bs = take 2 bs @ take 2 (drop 2 bs) @ drop 2 (drop 2 bs)" by (metis append_take_drop_id)
      moreover have "drop 2 (drop 2 bs) = take (length p) (drop 4 bs) @ drop (length p) (drop 4 bs)"
        using append_take_drop_id [of "length p" "drop 4 bs"] by simp
      ultimately show ?thesis by (simp add: subspan_def add.commute)
    qed
    with t s r show "holds_chain bs (c # cats)"
      by (auto simp: holds_chain_split chain_bytes_Cons category_bytes_def c)
  qed
qed (simp add: holds_chain_def)

lemma chain_step: "s * 2 = l \<Longrightarrow> 4 + l + 2 * w = 2 * (w + 2 + s)" for s l w :: nat
  by simp

lemma chain_payload:
  "w + 2 + s \<le> W \<Longrightarrow> length bs = 2 * W - 2 * w \<Longrightarrow>
     length (subspan bs 4 (s * 2)) = s * 2 \<and> 4 + s * 2 \<le> length bs"
  by simp

lemma check_chain_iff:
  assumes "length buffer = 2 * words"
  shows "check_chain buffer words word = Inr () \<longleftrightarrow> (\<exists>cats. holds_chain (drop (2 * word) buffer) cats)"
  using assms
proof (induction buffer words word rule: check_chain.induct)
  case (1 buffer words word)
  let ?bs = "drop (2 * word) buffer"
  let ?t = "le_word (subspan buffer (word * 2) 2) :: u16"
  let ?size = "le_word (subspan buffer ((word + 1) * 2) 2) :: u16"
  have len: "length ?bs = 2 * words - 2 * word" using 1 by simp
  have t: "subspan buffer (word * 2) 2 = take 2 ?bs" by (simp add: subspan_def mult.commute)
  have s: "subspan buffer ((word + 1) * 2) 2 = subspan ?bs 2 2"
    by (simp add: subspan_def mult.commute add.commute)
  show ?case
  proof (cases "word \<ge> words \<or> ?t = 0xFFFF")
    case True
    show ?thesis
    proof (cases "word \<ge> words")
      case True
      then have "?bs = []" using 1 by simp
      moreover have "\<not> holds_chain [] cats" for cats by (simp add: holds_chain_split end_marker_def)
      ultimately show ?thesis using True by (simp add: check_chain.simps [of buffer])
    next
      case False
      with True have "?t = 0xFFFF" by simp
      moreover have "length (take 2 ?bs) = 2" using False len by simp
      ultimately have "take 2 ?bs = end_marker" using t end_marker_unique by metis
      then have "holds_chain ?bs []" by (simp add: holds_chain_Nil)
      with False \<open>?t = 0xFFFF\<close> show ?thesis by (auto simp: check_chain.simps [of buffer])
    qed
  next
    case False
    let ?next = "word + 2 + unat ?size"
    have notNil: "\<not> holds_chain ?bs []"
      using False t end_marker_word by (auto simp: holds_chain_Nil)
    have Cons: "(\<exists>cats. holds_chain ?bs cats) \<longleftrightarrow>
        word + 1 < words \<and> ?next \<le> words \<and> (\<exists>cats. holds_chain (drop (2 * ?next) buffer) cats)"
    proof
      assume "\<exists>cats. holds_chain ?bs cats"
      then obtain c cats where h: "holds_chain ?bs (c # cats)" using notNil by (metis neq_Nil_conv)
      then have sz: "unat ?size * 2 = length (snd c)" "4 + length (snd c) \<le> length ?bs"
        "holds_chain (drop (4 + length (snd c)) ?bs) cats" unfolding holds_chain_Cons s by blast+
      have "4 + length (snd c) + 2 * word = 2 * ?next" by (rule chain_step [OF sz(1)])
      then have "drop (4 + length (snd c)) ?bs = drop (2 * ?next) buffer" by (simp only: drop_drop)
      with sz len show "word + 1 < words \<and> ?next \<le> words \<and> (\<exists>cats. holds_chain (drop (2 * ?next) buffer) cats)"
        by auto
    next
      assume a: "word + 1 < words \<and> ?next \<le> words \<and> (\<exists>cats. holds_chain (drop (2 * ?next) buffer) cats)"
      then obtain cats where h: "holds_chain (drop (2 * ?next) buffer) cats" by blast
      let ?p = "subspan ?bs 4 (unat ?size * 2)"
      have lp: "length ?p = unat ?size * 2" "4 + unat ?size * 2 \<le> length ?bs"
        using chain_payload [OF conjunct1 [OF conjunct2 [OF a]] len] by blast+
      have "4 + length ?p + 2 * word = 2 * ?next" by (rule chain_step [OF lp(1) [symmetric]])
      then have d: "drop (4 + length ?p) ?bs = drop (2 * ?next) buffer" by (simp only: drop_drop)
      have "category_ok (?t, ?p)"
        using False unsigned_less [of ?size] unfolding category_ok_def fst_conv snd_conv lp(1) by simp
      then have "holds_chain ?bs ((?t, ?p) # cats)"
        unfolding holds_chain_Cons fst_conv snd_conv d using h lp by (simp only: t s)
      then show "\<exists>cats. holds_chain ?bs cats" by blast
    qed
    have "check_chain buffer words word = Inr () \<longleftrightarrow>
        word + 1 < words \<and> ?next \<le> words \<and> check_chain buffer words ?next = Inr ()"
      using False by (auto simp: check_chain.simps [of buffer words word] Let_def)
    moreover have "word + 1 < words \<and> ?next \<le> words \<Longrightarrow>
        check_chain buffer words ?next = Inr () \<longleftrightarrow> (\<exists>cats. holds_chain (drop (2 * ?next) buffer) cats)"
      using False 1(2) by (intro 1(1)) auto
    ultimately show ?thesis using Cons by blast
  qed
qed

lemma validate_accepts_iff:
  "validateSiiImage buffer = Inr () \<longleftrightarrow>
     even (length buffer) \<and> 130 \<le> length buffer \<and> sii_crc (take 14 buffer) = buffer ! 14
   \<and> (\<exists>cats. holds_chain (drop 128 buffer) cats)"
proof (cases "even (length buffer)")
  case True
  then have "length buffer = 2 * (length buffer div 2)" by simp
  from check_chain_iff [OF this, of "0x40"]
  have "check_chain buffer (length buffer div 2) 0x40 = Inr () \<longleftrightarrow> (\<exists>cats. holds_chain (drop 128 buffer) cats)"
    by simp
  moreover have "(length buffer div 2 < 0x40 + 1) \<longleftrightarrow> \<not> 130 \<le> length buffer" using True by auto
  ultimately show ?thesis using True by (simp add: validateSiiImage_def Let_def)
next
  case False
  then show ?thesis by (simp add: validateSiiImage_def odd_iff_mod_2_eq_one Let_def)
qed

text \<open>
  The check before an EEPROM write accepts exactly the well-formed images: an even number of bytes,
  room for the fixed header and one category word, the checksum of words 0 to 6 in byte 14, and from
  byte 128 on a chain of complete categories closed by the end marker.
\<close>

theorem validateSiiImage_iff:
  "validateSiiImage buffer = Inr () \<longleftrightarrow>
     even (length buffer) \<and> 130 \<le> length buffer \<and> sii_crc (take 14 buffer) = buffer ! 14
   \<and> (\<exists>cats. holds_chain (drop 128 buffer) cats)"
  by (rule validate_accepts_iff)

text \<open>An image with a string table of one string.\<close>

definition example_sii :: bytes where
  "example_sii =
     replicate 14 0 @ [sii_crc (replicate 14 0)] @ replicate 113 0
       @ chain_bytes [(10, [1, 2, 0x41, 0x42])] @ end_marker"

lemma example_sii_accepted: "validateSiiImage example_sii = Inr ()"
proof -
  have "take 14 example_sii = replicate 14 0" "example_sii ! 14 = sii_crc (replicate 14 0)"
    by (simp_all add: example_sii_def nth_append)
  moreover have "drop 128 example_sii = chain_bytes [(10, [1, 2, 0x41, 0x42])] @ end_marker"
    by (simp add: example_sii_def)
  then have "holds_chain (drop 128 example_sii) [(10, [1, 2, 0x41, 0x42])]"
    by (auto simp: holds_chain_split category_ok_def)
  moreover have "length example_sii = 138"
    by (simp add: example_sii_def chain_bytes_def length_category_bytes end_marker_def)
  ultimately show ?thesis unfolding validate_accepts_iff by auto
qed

section \<open>The decoder follows the chain\<close>

lemma resolve_Nop: "resolveSiiCategoryType t = Some Nop \<longleftrightarrow> t = 0"
  by (auto simp: resolveSiiCategoryType_def single_categories_def)

lemma resolve_End: "resolveSiiCategoryType t = Some End \<longleftrightarrow> t = 0xFFFF"
  by (auto simp: resolveSiiCategoryType_def single_categories_def)

definition parsed :: "(u16 \<times> bytes) list \<Rightarrow> SiiCategorySection \<Rightarrow> SiiCategorySection" where
  "parsed cats sec =
     fold (\<lambda>c. add_category (resolveSiiCategoryType (fst c)) (snd c)) (takeWhile (\<lambda>c. fst c \<noteq> 0) cats) sec"

lemma parsed_Cons:
  "parsed (c # cats) sec =
     (if fst c = 0 then sec else parsed cats (add_category (resolveSiiCategoryType (fst c)) (snd c) sec))"
  by (simp add: parsed_def)

lemma add_category_Nop: "add_category (Some Nop) p sec = sec"
  by (simp add: add_category_def)

lemma parse_categories_chain:
  "holds_chain (drop offset categories) cats \<Longrightarrow> parse_categories categories offset sec = parsed cats sec"
proof (induction cats arbitrary: offset sec)
  case Nil
  then have e: "subspan categories offset 2 = end_marker" by (simp add: holds_chain_Nil subspan_def)
  then have "length (subspan categories offset 2) = 2" by (simp add: end_marker_def)
  then have "offset + 2 \<le> length categories" by simp
  with e have "rdU16 categories offset = 0xFFFF" by (simp add: rdU16_def end_marker_word)
  then show ?case by (simp add: parse_categories.simps [of categories] parsed_def)
next
  case (Cons c cats)
  let ?bs = "drop offset categories"
  from Cons.prems have ok: "category_ok c" and len: "4 + length (snd c) \<le> length ?bs"
    and t: "le_word (take 2 ?bs) = fst c"
    and s: "unat (le_word (subspan ?bs 2 2) :: u16) * 2 = length (snd c)"
    and p: "subspan ?bs 4 (length (snd c)) = snd c"
    and rest: "holds_chain (drop (4 + length (snd c)) ?bs) cats"
    unfolding holds_chain_Cons by blast+
  have bound: "offset + 4 + length (snd c) \<le> length categories" using len by auto
  have t': "rdU16 categories offset = fst c"
    using t bound by (simp add: rdU16_def subspan_def)
  have s': "unat (rdU16 categories (offset + 2)) * 2 = length (snd c)"
    using s bound by (simp add: rdU16_def subspan_def add.commute)
  have p': "subspan categories (offset + 4) (length (snd c)) = snd c"
    using p by (simp add: subspan_def add.commute)
  have next_chain: "holds_chain (drop (offset + 4 + length (snd c)) categories) cats"
    using rest by (simp add: drop_drop add.commute add.left_commute)
  have notEnd: "fst c \<noteq> 0xFFFF" using ok by (simp add: category_ok_def)
  have "parse_categories categories offset sec =
    (let sec = add_category (resolveSiiCategoryType (fst c)) (snd c) sec
     in if fst c = 0 then sec else parse_categories categories (offset + 4 + length (snd c)) sec)"
    using bound notEnd
    by (subst parse_categories.simps) (simp add: t' s' p' Let_def resolve_Nop resolve_End del: add_2_eq_Suc')
  then show ?case
    using Cons.IH [OF next_chain] resolve_Nop [of 0] by (simp add: parsed_Cons Let_def add_category_Nop)
qed

text \<open>
  C26: An image that passed the check is decoded completely: its categories are those of the chain, each
  with its whole payload, applied in order up to the first one of type 0, where the decoder stops
  although the check walks on; nothing after the end marker is read.
\<close>

theorem parseSii_reads_chain:
  assumes "validateSiiImage buffer = Inr ()"
  shows "\<exists>cats. holds_chain (drop 128 buffer) cats
           \<and> parseSii buffer = Inr \<lparr>sii_info = parseHeader buffer, sii_category = parsed cats empty_section\<rparr>"
proof -
  from assms obtain cats where "holds_chain (drop 128 buffer) cats" "130 \<le> length buffer"
    unfolding validate_accepts_iff by blast
  moreover from this parse_categories_chain [of 0 "drop 128 buffer" cats empty_section]
  have "parseSii buffer = Inr \<lparr>sii_info = parseHeader buffer, sii_category = parsed cats empty_section\<rparr>"
    by (simp add: parseSii_def kHeaderBytes_def)
  ultimately show ?thesis by blast
qed

theorem parseSii_reads_chain_witness:
  "validateSiiImage example_sii = Inr ()
   \<and> (\<exists>cats. holds_chain (drop 128 example_sii) cats
        \<and> parseSii example_sii
            = Inr \<lparr>sii_info = parseHeader example_sii, sii_category = parsed cats empty_section\<rparr>)"
  using example_sii_accepted parseSii_reads_chain [OF example_sii_accepted] by blast

section \<open>The checksum\<close>

lemma crc_shift_eq: "crc_shift c = push_bit 1 c XOR (if bit c 7 then 7 else 0)"
proof -
  have "(c AND 0x80 \<noteq> 0) \<longleftrightarrow> bit c 7"
  proof -
    have "(0x80 :: u8) = push_bit 7 1" by simp
    then show ?thesis by (metis and_exp_eq_0_iff_not_bit push_bit_of_1)
  qed
  then show ?thesis by (simp add: crc_shift_def)
qed

lemma xor_cancel: "a XOR c = b XOR c \<longleftrightarrow> a = b" "c XOR a = c XOR b \<longleftrightarrow> a = b" for a b c :: u8
  by (metis xor.assoc xor_self_eq xor.left_neutral xor.commute)+

lemma inj_crc_shift: "inj crc_shift"
proof (rule injI)
  fix c d :: u8
  assume e: "crc_shift c = crc_shift d"
  have low: "bit (crc_shift x) 0 = bit x 7" for x
    unfolding crc_shift_eq bit_xor_iff bit_push_bit_iff by (simp add: bit_0)
  then have top: "bit c 7 = bit d 7" using e by metis
  with e have p: "push_bit 1 c = push_bit 1 d"
    by (simp add: crc_shift_eq xor_cancel split: if_splits)
  show "c = d"
  proof (rule bit_word_eqI)
    fix n assume "n < LENGTH(8)"
    then consider "n = 7" | "n < 7" by fastforce
    then show "bit c n = bit d n"
    proof cases
      case 2
      have "bit (push_bit 1 c) (Suc n) = bit (push_bit 1 d) (Suc n)" by (simp only: p)
      with 2 show ?thesis unfolding bit_push_bit_iff by simp
    qed (use top in simp)
  qed
qed

lemma crc_byte_inj: "crc_byte b c = crc_byte b' c \<longleftrightarrow> b = b'" "crc_byte b c = crc_byte b c' \<longleftrightarrow> c = c'"
proof -
  have i: "inj (crc_shift ^^ 8)" by (rule inj_fn [OF inj_crc_shift])
  show "crc_byte b c = crc_byte b' c \<longleftrightarrow> b = b'" "crc_byte b c = crc_byte b c' \<longleftrightarrow> c = c'"
    by (simp_all add: crc_byte_def inj_eq [OF i] xor_cancel)
qed

lemma fold_crc_inj: "fold crc_byte bs c = fold crc_byte bs c' \<longleftrightarrow> c = c'"
  by (induction bs arbitrary: c c') (simp_all add: crc_byte_inj)

lemma sii_crc_update:
  assumes "i < length bs"
  shows "sii_crc (bs[i := b]) = sii_crc bs \<longleftrightarrow> b = bs ! i"
proof -
  have "bs = take i bs @ bs ! i # drop (Suc i) bs" using assms by (simp add: id_take_nth_drop)
  then have "sii_crc bs = fold crc_byte (take i bs @ bs ! i # drop (Suc i) bs) 0xFF"
    unfolding sii_crc_def by simp
  moreover have "sii_crc (bs[i := b]) = fold crc_byte (take i bs @ b # drop (Suc i) bs) 0xFF"
    using assms by (simp add: sii_crc_def upd_conv_take_nth_drop)
  ultimately show ?thesis by (simp add: fold_crc_inj crc_byte_inj)
qed

text \<open>
  The check catches every corruption of a single byte of words 0 to 6 or of the checksum itself,
  whatever the byte is changed to.
\<close>

theorem validateSiiImage_detects_byte_errors:
  assumes "validateSiiImage buffer = Inr ()" and "i < 15" and "b \<noteq> buffer ! i"
  shows "\<exists>stored computed. validateSiiImage (buffer[i := b]) = Inl (ChecksumMismatch stored computed)"
proof -
  from assms(1) have len: "even (length buffer)" "130 \<le> length buffer"
    and crc: "sii_crc (take 14 buffer) = buffer ! 14"
    unfolding validate_accepts_iff by blast+
  have "sii_crc (take 14 (buffer[i := b])) \<noteq> buffer[i := b] ! 14"
  proof (cases "i = 14")
    case True
    then show ?thesis using crc assms(3) len by (auto simp: take_update_swap list_update_beyond)
  next
    case False
    then have "i < length (take 14 buffer)" using assms(2) len by simp
    from sii_crc_update [OF this, of b] False assms(2,3) len crc show ?thesis by (simp add: take_update_swap)
  qed
  then show ?thesis using len by (auto simp: validateSiiImage_def Let_def)
qed

theorem validateSiiImage_detects_byte_errors_witness:
  "validateSiiImage example_sii = Inr () \<and> (1 :: u8) \<noteq> example_sii ! 3
   \<and> (\<exists>stored computed. validateSiiImage (example_sii[3 := 1]) = Inl (ChecksumMismatch stored computed))"
proof -
  have "(1 :: u8) \<noteq> example_sii ! 3" by (simp add: example_sii_def nth_append)
  with validateSiiImage_detects_byte_errors [OF example_sii_accepted, of 3 1] example_sii_accepted
  show ?thesis by simp
qed

end
