(* ===== verification/Cycle_Handshake.thy ===== *)
theory Cycle_Handshake
  imports Step_System
begin

text \<open>
  The handshake between the real-time loop and the control plane (\<^verbatim>\<open>libs/node/device_manager.cc\<close>,
  \<^verbatim>\<open>libs/node/process_data.h\<close>, \<^verbatim>\<open>apps/motion_master/game_loop.cc\<close>): a published image, a depth counter
  the loop raises before it loads the image, and a pause that unpublishes the image and waits for the
  counter. Every access is one step of a relation, in the total order the sequentially consistent
  operations have; images are numbered. Control-plane calls are numbered threads, each running
  \<^verbatim>\<open>pauseCycle\<close>, its own work, and then one of the three ways to end it.
\<close>

section \<open>State and steps\<close>

datatype rt_pc =
    RtIdle                   \<comment> \<open>between two cycles\<close>
  | RtRaised                 \<comment> \<open>\<^verbatim>\<open>CycleGuard\<close>: depth raised, image not loaded yet\<close>
  | RtInCycle                \<comment> \<open>the task list runs\<close>
  | RtExchangeRaised         \<comment> \<open>\<^verbatim>\<open>exchangeProcessData\<close>: depth raised again\<close>
  | RtExchanging nat         \<comment> \<open>the exchange runs on an image\<close>

datatype cp_pc =
    CpIdle
  | CpUnpublished "nat option"   \<comment> \<open>\<^verbatim>\<open>pauseCycle\<close> waits; the image it took down\<close>
  | CpDrained "nat option"       \<comment> \<open>\<^verbatim>\<open>drained\<close> is true: the caller mutates\<close>
  | CpTimedOut "nat option"      \<comment> \<open>\<^verbatim>\<open>drained\<close> is false\<close>

record handshake =
  hs_image :: "nat option"
  hs_inCycle :: int
  hs_rt :: rt_pc
  hs_cp :: "cp_pc list"

text \<open>
  The first argument tells whether a pause is taken only while no other control-plane call is under
  way, as under \<^verbatim>\<open>busOperationMutex_\<close>.
\<close>

inductive hs_step :: "bool \<Rightarrow> handshake \<Rightarrow> handshake \<Rightarrow> bool" for locked where
  guard_raise:
    "hs_rt s = RtIdle \<Longrightarrow>
     hs_step locked s (s\<lparr>hs_rt := RtRaised, hs_inCycle := hs_inCycle s + 1\<rparr>)"
| guard_enter:
    "hs_rt s = RtRaised \<Longrightarrow> hs_image s = Some i \<Longrightarrow> hs_step locked s (s\<lparr>hs_rt := RtInCycle\<rparr>)"
| guard_back_out:
    "hs_rt s = RtRaised \<Longrightarrow> hs_image s = None \<Longrightarrow>
     hs_step locked s (s\<lparr>hs_rt := RtIdle, hs_inCycle := hs_inCycle s - 1\<rparr>)"
| exchange_raise:
    "hs_rt s = RtInCycle \<Longrightarrow>
     hs_step locked s (s\<lparr>hs_rt := RtExchangeRaised, hs_inCycle := hs_inCycle s + 1\<rparr>)"
| exchange_load:
    "hs_rt s = RtExchangeRaised \<Longrightarrow> hs_image s = Some i \<Longrightarrow>
     hs_step locked s (s\<lparr>hs_rt := RtExchanging i\<rparr>)"
| exchange_back_out:
    "hs_rt s = RtExchangeRaised \<Longrightarrow> hs_image s = None \<Longrightarrow>
     hs_step locked s (s\<lparr>hs_rt := RtInCycle, hs_inCycle := hs_inCycle s - 1\<rparr>)"
| exchange_done:
    "hs_rt s = RtExchanging i \<Longrightarrow>
     hs_step locked s (s\<lparr>hs_rt := RtInCycle, hs_inCycle := hs_inCycle s - 1\<rparr>)"
| guard_leave:
    "hs_rt s = RtInCycle \<Longrightarrow>
     hs_step locked s (s\<lparr>hs_rt := RtIdle, hs_inCycle := hs_inCycle s - 1\<rparr>)"
| pause_unpublish:
    "t < length (hs_cp s) \<Longrightarrow> hs_cp s ! t = CpIdle \<Longrightarrow>
     locked \<longrightarrow> list_all (\<lambda>c. c = CpIdle) (hs_cp s) \<Longrightarrow>
     hs_step locked s (s\<lparr>hs_cp := (hs_cp s)[t := CpUnpublished (hs_image s)], hs_image := None\<rparr>)"
| pause_drained:
    "t < length (hs_cp s) \<Longrightarrow> hs_cp s ! t = CpUnpublished prev \<Longrightarrow> hs_inCycle s = 0 \<Longrightarrow>
     hs_step locked s (s\<lparr>hs_cp := (hs_cp s)[t := CpDrained prev]\<rparr>)"
| pause_timeout:
    "t < length (hs_cp s) \<Longrightarrow> hs_cp s ! t = CpUnpublished prev \<Longrightarrow> hs_inCycle s \<noteq> 0 \<Longrightarrow>
     hs_step locked s (s\<lparr>hs_cp := (hs_cp s)[t := CpTimedOut prev]\<rparr>)"
| resume:
    "t < length (hs_cp s) \<Longrightarrow> hs_cp s ! t = CpDrained prev \<or> hs_cp s ! t = CpTimedOut prev \<Longrightarrow>
     hs_step locked s (s\<lparr>hs_cp := (hs_cp s)[t := CpIdle], hs_image := prev\<rparr>)"
| publish:
    "t < length (hs_cp s) \<Longrightarrow> hs_cp s ! t = CpDrained prev \<Longrightarrow>
     hs_step locked s (s\<lparr>hs_cp := (hs_cp s)[t := CpIdle], hs_image := Some i\<rparr>)"
| stay_unpublished:
    "t < length (hs_cp s) \<Longrightarrow> hs_cp s ! t = CpDrained prev \<or> hs_cp s ! t = CpTimedOut prev \<Longrightarrow>
     hs_step locked s (s\<lparr>hs_cp := (hs_cp s)[t := CpIdle]\<rparr>)"

inductive_cases hs_stepE: "hs_step locked s s'"

definition hs_initial :: "nat \<Rightarrow> nat option \<Rightarrow> handshake" where
  "hs_initial threads img =
     \<lparr>hs_image = img, hs_inCycle = 0, hs_rt = RtIdle, hs_cp = replicate threads CpIdle\<rparr>"

section \<open>The invariant\<close>

fun rt_depth :: "rt_pc \<Rightarrow> int" where
  "rt_depth RtIdle = 0"
| "rt_depth RtRaised = 1"
| "rt_depth RtInCycle = 1"
| "rt_depth RtExchangeRaised = 2"
| "rt_depth (RtExchanging i) = 2"

fun rt_inside :: "rt_pc \<Rightarrow> bool" where
  "rt_inside RtIdle = False"
| "rt_inside RtRaised = False"
| "rt_inside _ = True"

fun cp_prev :: "cp_pc \<Rightarrow> bool" where
  "cp_prev CpIdle = False"
| "cp_prev _ = True"

text \<open>A call between its unpublish and its end is alone, and the image is down.\<close>

definition cp_alone :: "nat option \<Rightarrow> cp_pc list \<Rightarrow> bool" where
  "cp_alone img cp \<longleftrightarrow>
     (\<forall>t<length cp. cp_prev (cp ! t) \<longrightarrow> img = None \<and> (\<forall>u<length cp. u \<noteq> t \<longrightarrow> cp ! u = CpIdle))"

definition drained_outside :: "rt_pc \<Rightarrow> cp_pc list \<Rightarrow> bool" where
  "drained_outside rt cp \<longleftrightarrow> (\<forall>t<length cp. \<forall>prev. cp ! t = CpDrained prev \<longrightarrow> \<not> rt_inside rt)"

definition hs_inv :: "handshake \<Rightarrow> bool" where
  "hs_inv s \<longleftrightarrow>
     hs_inCycle s = rt_depth (hs_rt s) \<and> cp_alone (hs_image s) (hs_cp s) \<and> drained_outside (hs_rt s) (hs_cp s)"

lemma rt_depth_0: "rt_depth r = 0 \<longleftrightarrow> r = RtIdle"
  by (cases r) simp_all

lemma cp_alone_none: "cp_alone (Some i) cp \<Longrightarrow> t < length cp \<Longrightarrow> cp ! t = CpIdle"
  by (cases "cp ! t") (auto simp: cp_alone_def)

lemma cp_alone_idle: "(\<And>t. t < length cp \<Longrightarrow> cp ! t = CpIdle) \<Longrightarrow> cp_alone img cp"
  by (simp add: cp_alone_def)

lemma cp_alone_start:
  "list_all (\<lambda>c. c = CpIdle) cp \<Longrightarrow> t < length cp \<Longrightarrow> cp_alone None (cp[t := CpUnpublished prev])"
  by (simp add: cp_alone_def nth_list_update list_all_length)

lemma cp_alone_others:
  assumes "cp_alone img cp" and "t < length cp" and "cp_prev (cp ! t)"
  shows "img = None" and "u < length cp \<Longrightarrow> u \<noteq> t \<Longrightarrow> cp ! u = CpIdle"
  using assms unfolding cp_alone_def by blast+

lemma cp_alone_change:
  assumes "cp_alone img cp" and "t < length cp" and "cp_prev (cp ! t)"
  shows "cp_alone img (cp[t := c])"
proof -
  have "img = None" by (rule cp_alone_others(1) [OF assms])
  moreover have "cp[t := c] ! u = CpIdle" if "u < length cp" "u \<noteq> t" for u
    using cp_alone_others(2) [OF assms that] that by simp
  ultimately show ?thesis unfolding cp_alone_def length_list_update by (metis cp_prev.simps(1))
qed

lemma cp_alone_end:
  assumes "cp_alone img cp" and "t < length cp" and "cp_prev (cp ! t)"
  shows "cp_alone img' (cp[t := CpIdle])"
proof (rule cp_alone_idle)
  fix u assume "u < length (cp[t := CpIdle])"
  then show "cp[t := CpIdle] ! u = CpIdle"
    using cp_alone_others(2) [OF assms, of u] assms(2) by (cases "u = t") simp_all
qed

lemma drained_outside_update:
  "drained_outside rt cp \<Longrightarrow> \<not> rt_inside rt \<or> (\<forall>prev. c \<noteq> CpDrained prev) \<Longrightarrow> drained_outside rt (cp[t := c])"
  by (auto simp: drained_outside_def) (metis nth_list_update_eq nth_list_update_neq)

lemma drained_outside_enter: "cp_alone (Some i) cp \<Longrightarrow> drained_outside rt cp"
  using cp_alone_none by (fastforce simp: drained_outside_def)

lemma drained_outside_rt:
  "drained_outside rt cp \<Longrightarrow> rt_inside rt' \<longrightarrow> rt_inside rt \<Longrightarrow> drained_outside rt' cp"
  by (auto simp: drained_outside_def)

lemma hs_inv_step:
  assumes "hs_step True s s'" and "hs_inv s"
  shows "hs_inv s'"
proof -
  have d: "hs_inCycle s = rt_depth (hs_rt s)" and a: "cp_alone (hs_image s) (hs_cp s)"
    and o: "drained_outside (hs_rt s) (hs_cp s)"
    using assms(2) by (simp_all add: hs_inv_def)
  from assms(1) show ?thesis
  proof cases
    case (guard_enter i)
    with d a drained_outside_enter [of i] show ?thesis by (simp add: hs_inv_def)
  next
    case (exchange_load i)
    with d a drained_outside_enter [of i] show ?thesis by (simp add: hs_inv_def)
  next
    case (pause_unpublish t)
    with d o cp_alone_start drained_outside_update show ?thesis by (simp add: hs_inv_def)
  next
    case (pause_drained t prev)
    then have "hs_rt s = RtIdle" using d by (simp add: rt_depth_0)
    with d o cp_alone_change [OF a pause_drained(2)] drained_outside_update pause_drained show ?thesis
      by (simp add: hs_inv_def)
  next
    case (pause_timeout t prev)
    with d o cp_alone_change [OF a pause_timeout(2)] drained_outside_update show ?thesis
      by (simp add: hs_inv_def)
  next
    case (resume t prev)
    with d o cp_alone_end [OF a resume(2)] drained_outside_update show ?thesis by (auto simp: hs_inv_def)
  next
    case (publish t prev i)
    with d o cp_alone_end [OF a publish(2)] drained_outside_update show ?thesis by (simp add: hs_inv_def)
  next
    case (stay_unpublished t prev)
    with d o cp_alone_end [OF a stay_unpublished(2)] drained_outside_update show ?thesis
      by (auto simp: hs_inv_def)
  qed (use d a o drained_outside_rt [OF o] in \<open>simp_all add: hs_inv_def\<close>)
qed

interpretation hs: step_system "hs_step True" hs_inv "\<lambda>s. True"
  by unfold_locales (rule hs_inv_step)

lemma hs_inv_initial: "hs_inv (hs_initial threads img)"
  by (simp add: hs_inv_def hs_initial_def cp_alone_def drained_outside_def)

text \<open>
  C6: When control-plane calls exclude each other, a caller that was told the cycle is drained works
  alone: until it publishes, resumes or gives up, the real-time thread is outside its task list and
  outside the exchange, and no other call has an image published. This holds in every interleaving of
  the accesses to the image and to the depth counter.
\<close>

theorem drained_excludes_cycle:
  assumes "(hs_step True)\<^sup>*\<^sup>* (hs_initial threads img) s"
    and "t < length (hs_cp s)" and "hs_cp s ! t = CpDrained prev"
  shows "(hs_rt s = RtIdle \<or> hs_rt s = RtRaised) \<and> hs_image s = None
       \<and> (\<forall>u<length (hs_cp s). u \<noteq> t \<longrightarrow> hs_cp s ! u = CpIdle)"
proof -
  have "hs_inv s" by (rule hs.reachable_inv [OF assms(1) hs_inv_initial]) simp
  then have a: "cp_alone (hs_image s) (hs_cp s)" and "\<not> rt_inside (hs_rt s)"
    using assms(2,3) by (auto simp: hs_inv_def drained_outside_def)
  moreover have "cp_prev (hs_cp s ! t)" using assms(3) by simp
  note alone = cp_alone_others [OF a assms(2) this]
  ultimately show ?thesis using alone by (cases "hs_rt s") auto
qed

text \<open>A call paused, the loop raised the depth and backed out: the drained call is undisturbed.\<close>

definition paused :: handshake where
  "paused = \<lparr>hs_image = None, hs_inCycle = 1, hs_rt = RtRaised, hs_cp = [CpDrained (Some 0)]\<rparr>"

lemma paused_reached: "(hs_step True)\<^sup>*\<^sup>* (hs_initial 1 (Some 0)) paused"
proof -
  let ?st = "\<lambda>img n rt c. \<lparr>hs_image = img, hs_inCycle = n, hs_rt = rt, hs_cp = [c]\<rparr>"
  have 1: "hs_step True (hs_initial 1 (Some 0)) (?st None 0 RtIdle (CpUnpublished (Some 0)))"
    using pause_unpublish [of 0 "hs_initial 1 (Some 0)" True] by (simp add: hs_initial_def)
  have 2: "hs_step True (?st None 0 RtIdle (CpUnpublished (Some 0))) (?st None 0 RtIdle (CpDrained (Some 0)))"
    using pause_drained [of 0 "?st None 0 RtIdle (CpUnpublished (Some 0))" "Some 0" True] by simp
  have 3: "hs_step True (?st None 0 RtIdle (CpDrained (Some 0))) paused"
    using guard_raise [of "?st None 0 RtIdle (CpDrained (Some 0))" True] by (simp add: paused_def)
  show ?thesis
    by (rule rtranclp.rtrancl_into_rtrancl [where r = "hs_step True", OF _ 3],
        rule rtranclp.rtrancl_into_rtrancl [where r = "hs_step True", OF _ 2],
        rule r_into_rtranclp [where r = "hs_step True", OF 1])
qed

theorem drained_excludes_cycle_witness:
  "hs_cp paused ! 0 = CpDrained (Some 0) \<and> (hs_rt paused = RtIdle \<or> hs_rt paused = RtRaised) \<and> hs_image paused = None"
  using drained_excludes_cycle [OF paused_reached, of 0 "Some 0"] by (simp add: paused_def)

section \<open>Without the lock\<close>

text \<open>The state of a run of two calls that overlap: the second believes it is alone.\<close>

definition raced :: handshake where
  "raced = \<lparr>hs_image = Some 0, hs_inCycle = 2, hs_rt = RtExchanging 0, hs_cp = [CpIdle, CpDrained None]\<rparr>"

text \<open>
  C36: Re-enumerating a device pauses the cycle without the lock the other control-plane calls hold,
  and then the pause does not exclude the cycle: one call takes the image down and drains, a second one
  drains too, the first resumes by publishing the image it took down, and the real-time thread runs an
  exchange on that image while the second call is at work with the cycle reported as drained.
\<close>

theorem unlocked_pause_lets_cycle_in:
  "(hs_step False)\<^sup>*\<^sup>* (hs_initial 2 (Some 0)) raced
   \<and> hs_cp raced ! 1 = CpDrained None \<and> hs_rt raced = RtExchanging 0"
proof -
  let ?st = "\<lambda>img n rt a b. \<lparr>hs_image = img, hs_inCycle = n, hs_rt = rt, hs_cp = [a, b]\<rparr>"
  let ?S = "hs_step False"
  let ?p = "Some 0 :: nat option"
  have 1: "?S (hs_initial 2 ?p) (?st None 0 RtIdle (CpUnpublished ?p) CpIdle)"
    using pause_unpublish [of 0 "hs_initial 2 ?p" False] by (simp add: hs_initial_def numeral_2_eq_2)
  have 2: "?S (?st None 0 RtIdle (CpUnpublished ?p) CpIdle) (?st None 0 RtIdle (CpUnpublished ?p) (CpUnpublished None))"
    using pause_unpublish [of 1 "?st None 0 RtIdle (CpUnpublished ?p) CpIdle" False] by simp
  have 3: "?S (?st None 0 RtIdle (CpUnpublished ?p) (CpUnpublished None)) (?st None 0 RtIdle (CpDrained ?p) (CpUnpublished None))"
    using pause_drained [of 0 "?st None 0 RtIdle (CpUnpublished ?p) (CpUnpublished None)" ?p False] by simp
  have 4: "?S (?st None 0 RtIdle (CpDrained ?p) (CpUnpublished None)) (?st None 0 RtIdle (CpDrained ?p) (CpDrained None))"
    using pause_drained [of 1 "?st None 0 RtIdle (CpDrained ?p) (CpUnpublished None)" None False] by simp
  have 5: "?S (?st None 0 RtIdle (CpDrained ?p) (CpDrained None)) (?st ?p 0 RtIdle CpIdle (CpDrained None))"
    using resume [of 0 "?st None 0 RtIdle (CpDrained ?p) (CpDrained None)" ?p False] by simp
  have 6: "?S (?st ?p 0 RtIdle CpIdle (CpDrained None)) (?st ?p 1 RtRaised CpIdle (CpDrained None))"
    using guard_raise [of "?st ?p 0 RtIdle CpIdle (CpDrained None)" False] by simp
  have 7: "?S (?st ?p 1 RtRaised CpIdle (CpDrained None)) (?st ?p 1 RtInCycle CpIdle (CpDrained None))"
    using guard_enter [of "?st ?p 1 RtRaised CpIdle (CpDrained None)" 0 False] by simp
  have 8: "?S (?st ?p 1 RtInCycle CpIdle (CpDrained None)) (?st ?p 2 RtExchangeRaised CpIdle (CpDrained None))"
    using exchange_raise [of "?st ?p 1 RtInCycle CpIdle (CpDrained None)" False] by simp
  have 9: "?S (?st ?p 2 RtExchangeRaised CpIdle (CpDrained None)) raced"
    using exchange_load [of "?st ?p 2 RtExchangeRaised CpIdle (CpDrained None)" 0 False] by (simp add: raced_def)
  note trans = rtranclp.rtrancl_into_rtrancl [where r = ?S]
  have "?S\<^sup>*\<^sup>* (hs_initial 2 ?p) raced"
    by (rule trans [OF _ 9], rule trans [OF _ 8], rule trans [OF _ 7], rule trans [OF _ 6], rule trans [OF _ 5],
        rule trans [OF _ 4], rule trans [OF _ 3], rule trans [OF _ 2], rule r_into_rtranclp [where r = ?S, OF 1])
  then show ?thesis by (simp add: raced_def)
qed

end
