(* ===== verification/Device_Mapping.thy ===== *)
theory Device_Mapping
  imports Device Core_Util Sii
begin

text \<open>
  The PDO mapping of a device (\<^verbatim>\<open>libs/node/device.cc\<close>): reading it over CoE or from the EEPROM, writing
  it with read-back and retries, the parameter definitions an EEPROM gives, and the reconciliation of
  the module lists. Every call is a mailbox transfer of the bus; nothing of the parameter map is
  touched. An error text of the bus is kept, because one of them is inspected.
\<close>

unbundle bit_operations_syntax

section \<open>Reading the mapping\<close>

datatype mapping_error =
    AssignmentRead u16 u8 string
  | MappingRead u16 string
  | EntryRead u16 u8 string
  | SiiRead string
  | SiiParse sii_error
  | WriteFailed u16 u8 string
  | FewerEntries nat nat
  | EntryDiffers nat
  | MoreEntries nat nat
  | NotPreOp EtherCatState
  | TooManyObjects nat
  | TooManyEntries u16 nat
  | ReadBack mapping_error
  | AttemptsFailed "mapping_error option"

definition contains :: "string \<Rightarrow> string \<Rightarrow> bool" where
  "contains needle s = list_ex (\<lambda>i. take (length needle) (drop i s) = needle) [0..<Suc (length s)]"

definition isObjectDoesNotExistAbort :: "string \<Rightarrow> bool" where
  "isObjectDoesNotExistAbort error = contains ''0x06020000'' error"

text \<open>
  The entries of one mapping object, with the offset each starts at. The counters of the code are
  wider than a subindex, so the loops run over \<open>[1..<n + 1]\<close> and narrow the subindex at the call.
\<close>

fun read_entries ::
  "'w bus \<Rightarrow> u16 \<Rightarrow> u16 \<Rightarrow> nat list \<Rightarrow> u32 \<Rightarrow> ('w, mapping_error, PdoMappingEntry list \<times> u32) io" where
  "read_entries bus pos mappingIndex [] totalBits w = (Inr ([], totalBits), w)"
| "read_entries bus pos mappingIndex (e # es) totalBits w =
     (case bus_readSdo bus pos mappingIndex (of_nat e) w of
        (Inl err, w) \<Rightarrow> (Inl (EntryRead mappingIndex (of_nat e) err), w)
      | (Inr entryBytes, w) \<Rightarrow>
          let entry = (unpackMappingEntry (fromBytes 4 False entryBytes))\<lparr>pme_bitOffset := totalBits\<rparr>
          in case read_entries bus pos mappingIndex es (totalBits + ucast (pme_bitLength entry)) w of
               (Inl err, w) \<Rightarrow> (Inl err, w)
             | (Inr (entries, totalBits), w) \<Rightarrow> (Inr (entry # entries, totalBits), w))"

fun read_assigned ::
  "'w bus \<Rightarrow> u16 \<Rightarrow> u16 \<Rightarrow> nat list \<Rightarrow> u32 \<Rightarrow> ('w, mapping_error, PdoMappingObject list) io" where
  "read_assigned bus pos assignmentIndex [] totalBits w = (Inr [], w)"
| "read_assigned bus pos assignmentIndex (i # is) totalBits w =
     (case bus_readSdo bus pos assignmentIndex (of_nat i) w of
        (Inl err, w) \<Rightarrow> (Inl (AssignmentRead assignmentIndex (of_nat i) err), w)
      | (Inr pdoIndexBytes, w) \<Rightarrow>
          let mappingIndex = fromBytes 2 False pdoIndexBytes
          in if mappingIndex = 0 then read_assigned bus pos assignmentIndex is totalBits w
             else case bus_readSdo bus pos mappingIndex 0 w of
                    (Inl err, w) \<Rightarrow>
                      if isObjectDoesNotExistAbort err then read_assigned bus pos assignmentIndex is totalBits w
                      else (Inl (MappingRead mappingIndex err), w)
                  | (Inr entryCountBytes, w) \<Rightarrow>
                      let entryCount = unat (fromBytes 1 False entryCountBytes :: u8)
                      in case read_entries bus pos mappingIndex [1..<entryCount + 1] totalBits w of
                           (Inl err, w) \<Rightarrow> (Inl err, w)
                         | (Inr (entries, totalBits), w) \<Rightarrow>
                             (case read_assigned bus pos assignmentIndex is totalBits w of
                                (Inl err, w) \<Rightarrow> (Inl err, w)
                              | (Inr objects, w) \<Rightarrow>
                                  (Inr (\<lparr>pmo_pdoIndex = mappingIndex, pmo_entries = entries\<rparr> # objects), w)))"

definition readPdoAssignment :: "'w bus \<Rightarrow> u16 \<Rightarrow> u16 \<Rightarrow> ('w, mapping_error, PdoMappingObject list) io" where
  "readPdoAssignment bus pos assignmentIndex w =
     (case bus_readSdo bus pos assignmentIndex 0 w of
        (Inl _, w) \<Rightarrow> (Inr [], w)
      | (Inr countBytes, w) \<Rightarrow>
          let pdoCount = unat (fromBytes 1 False countBytes :: u8)
          in read_assigned bus pos assignmentIndex [1..<pdoCount + 1] 0 w)"

definition readPdoMapping :: "'w bus \<Rightarrow> u16 \<Rightarrow> ('w, mapping_error, PdoMapping) io" where
  "readPdoMapping bus pos =
     io_bind (readPdoAssignment bus pos 0x1C12) (\<lambda>outputs.
       io_bind (readPdoAssignment bus pos 0x1C13) (\<lambda>inputs.
         io_return \<lparr>pm_outputs = outputs, pm_inputs = inputs\<rparr>))"

text \<open>The flat view: the entries in order, and the sum of their widths.\<close>

definition flat_entries :: "PdoMappingObject list \<Rightarrow> PdoMappingEntry list" where
  "flat_entries objects = concat (map pmo_entries objects)"

definition sum_bits :: "PdoMappingEntry list \<Rightarrow> u32" where
  "sum_bits es = fold (\<lambda>e bits. bits + ucast (pme_bitLength e)) es 0"

text \<open>The EEPROM of a slave without CoE.\<close>

fun flatten_entries ::
  "SiiCategoryPdoEntryElement list \<Rightarrow> PdoMappingEntry list \<times> u32 \<Rightarrow> PdoMappingEntry list \<times> u32" where
  "flatten_entries [] acc = acc"
| "flatten_entries (e # es) (out, totalBits) =
     flatten_entries es
       (out @ [\<lparr>pme_index = pee_entryIndex e, pme_subindex = pee_subindex e, pme_bitLength = pee_bitLen e,
               pme_bitOffset = totalBits\<rparr>],
        totalBits + ucast (pee_bitLen e))"

fun sii_flatten ::
  "SiiCategoryPdoElement list \<Rightarrow> PdoMappingEntry list \<times> u32 \<Rightarrow> PdoMappingEntry list \<times> u32" where
  "sii_flatten [] acc = acc"
| "sii_flatten (pdo # pdos) acc =
     sii_flatten pdos (if pdo_pdoIndex pdo = 0 then acc else flatten_entries (pdo_entries pdo) acc)"

type_synonym 'w sii_reader = "u16 \<Rightarrow> ('w, string, bytes) io"

definition readSiiPdoMapping :: "'w sii_reader \<Rightarrow> u16 \<Rightarrow> ('w, mapping_error, FlatPdoMapping) io" where
  "readSiiPdoMapping readSii pos w =
     (case readSii pos w of
        (Inl e, w) \<Rightarrow> (Inl (SiiRead e), w)
      | (Inr raw, w) \<Rightarrow>
          (case parseSii raw of
             Inl e \<Rightarrow> (Inl (SiiParse e), w)
           | Inr sii \<Rightarrow>
               let (outs, outBits) = sii_flatten (sec_rxPdos (sii_category sii)) ([], 0);
                   (ins, inBits) = sii_flatten (sec_txPdos (sii_category sii)) ([], 0)
               in (Inr \<lparr>fpm_outputs = outs, fpm_inputs = ins, fpm_outputBits = outBits, fpm_inputBits = inBits\<rparr>, w)))"

definition readFlatPdoMapping ::
  "'w bus \<Rightarrow> 'w sii_reader \<Rightarrow> Device \<Rightarrow> ('w, mapping_error, FlatPdoMapping) io" where
  "readFlatPdoMapping bus readSii d =
     (if \<not> supportsCoe d then readSiiPdoMapping readSii (dev_slavePosition d)
      else io_bind (readPdoMapping bus (dev_slavePosition d)) (\<lambda>grouped.
             let outs = flat_entries (pm_outputs grouped); ins = flat_entries (pm_inputs grouped)
             in io_return \<lparr>fpm_outputs = outs, fpm_inputs = ins, fpm_outputBits = sum_bits outs,
                           fpm_inputBits = sum_bits ins\<rparr>))"

section \<open>Definitions from the EEPROM\<close>

definition sii_name :: "bytes list \<Rightarrow> u8 \<Rightarrow> bytes" where
  "sii_name strings idx = (if idx > 0 \<and> unat idx \<le> length strings then strings ! (unat idx - 1) else [])"

definition sii_definition :: "bytes list \<Rightarrow> u16 \<Rightarrow> SiiCategoryPdoEntryElement \<Rightarrow> DeviceParameter" where
  "sii_definition strings access e =
     \<lparr>dp_index = pee_entryIndex e, dp_subindex = pee_subindex e, dp_name = sii_name strings (pee_entryNameIdx e),
      dp_objectCode = 0x0007, dp_dataType = ucast (pee_dataType e), dp_bitLength = ucast (pee_bitLen e),
      dp_access = access, dp_origin = Sii, dp_cell = 0, dp_rawValue = [], dp_syncState = Unknown,
      dp_unit = None, dp_defaultValue = None, dp_minValue = None, dp_maxValue = None\<rparr>"

definition sii_definitions :: "bytes list \<Rightarrow> SiiCategoryPdoElement list \<Rightarrow> u16 \<Rightarrow> DeviceParameter list" where
  "sii_definitions strings pdos access =
     concat (map (\<lambda>pdo. map (sii_definition strings access)
                          (filter (\<lambda>e. pee_entryIndex e \<noteq> 0) (pdo_entries pdo))) pdos)"

definition buildSiiParameterDefinitions ::
  "'w sii_reader \<Rightarrow> u16 \<Rightarrow> ('w, mapping_error, DeviceParameter list) io" where
  "buildSiiParameterDefinitions readSii pos w =
     (case readSii pos w of
        (Inl e, w) \<Rightarrow> (Inl (SiiRead e), w)
      | (Inr raw, w) \<Rightarrow>
          (case parseSii raw of
             Inl e \<Rightarrow> (Inl (SiiParse e), w)
           | Inr sii \<Rightarrow>
               let strings = sec_strings (sii_category sii)
               in (Inr (sii_definitions strings (sec_rxPdos (sii_category sii)) 0x3F
                        @ sii_definitions strings (sec_txPdos (sii_category sii)) 0x07), w)))"

section \<open>Writing the mapping\<close>

fun match_loop :: "nat \<Rightarrow> PdoMappingEntry list \<Rightarrow> PdoMappingEntry list \<Rightarrow> mapping_error + nat" where
  "match_loop r readBack [] = Inr r"
| "match_loop r readBack (want # wants) =
     (if r \<ge> length readBack then Inl (FewerEntries (length readBack) (r + 1))
      else let got = readBack ! r
           in if pme_index got \<noteq> pme_index want \<or> pme_subindex got \<noteq> pme_subindex want
                 \<or> pme_bitLength got \<noteq> pme_bitLength want
              then Inl (EntryDiffers r)
              else match_loop (r + 1) readBack wants)"

definition matchesRequest :: "PdoMappingEntry list \<Rightarrow> PdoMappingObject list \<Rightarrow> mapping_error + unit" where
  "matchesRequest readBack requested =
     (case match_loop 0 readBack (flat_entries requested) of
        Inl e \<Rightarrow> Inl e
      | Inr r \<Rightarrow> if r \<noteq> length readBack then Inl (MoreEntries (length readBack) r) else Inr ())"

definition write_object :: "'w bus \<Rightarrow> u16 \<Rightarrow> u16 \<Rightarrow> u8 \<Rightarrow> bytes \<Rightarrow> ('w, mapping_error, unit) io" where
  "write_object bus pos index subindex bs w =
     (case bus_writeSdo bus pos index subindex bs w of
        (Inl e, w) \<Rightarrow> (Inl (WriteFailed index subindex e), w)
      | (Inr _, w) \<Rightarrow> (Inr (), w))"

fun write_all :: "'w bus \<Rightarrow> u16 \<Rightarrow> (u16 \<times> u8 \<times> bytes) list \<Rightarrow> ('w, mapping_error, unit) io" where
  "write_all bus pos [] = io_return ()"
| "write_all bus pos ((index, subindex, bs) # ws) =
     io_bind (write_object bus pos index subindex bs) (\<lambda>_. write_all bus pos ws)"

text \<open>The writes of one direction, in the order they are made.\<close>

definition object_writes :: "PdoMappingObject \<Rightarrow> (u16 \<times> u8 \<times> bytes) list" where
  "object_writes obj =
     (pmo_pdoIndex obj, 0, toBytes 1 False (0 :: u8))
     # map (\<lambda>e. (pmo_pdoIndex obj, of_nat (e + 1), toBytes 4 False (packMappingEntry (pmo_entries obj ! e))))
         [0..<length (pmo_entries obj)]
     @ [(pmo_pdoIndex obj, 0, toBytes 1 False (of_nat (length (pmo_entries obj)) :: u8))]"

definition direction_writes :: "u16 \<Rightarrow> PdoMappingObject list \<Rightarrow> (u16 \<times> u8 \<times> bytes) list" where
  "direction_writes assignmentIndex objects =
     (assignmentIndex, 0, toBytes 1 False (0 :: u8))
     # concat (map object_writes objects)
     @ map (\<lambda>i. (assignmentIndex, of_nat (i + 1), toBytes 2 False (pmo_pdoIndex (objects ! i)))) [0..<length objects]
     @ [(assignmentIndex, 0, toBytes 1 False (of_nat (length objects) :: u8))]"

definition writePdoDirection :: "'w bus \<Rightarrow> u16 \<Rightarrow> u16 \<Rightarrow> PdoMappingObject list \<Rightarrow> ('w, mapping_error, unit) io" where
  "writePdoDirection bus pos assignmentIndex objects = write_all bus pos (direction_writes assignmentIndex objects)"

definition validate_direction :: "PdoMappingObject list \<Rightarrow> mapping_error + unit" where
  "validate_direction objs =
     (if length objs > 255 then Inl (TooManyObjects (length objs))
      else case find (\<lambda>obj. length (pmo_entries obj) > 255) objs of
             Some obj \<Rightarrow> Inl (TooManyEntries (pmo_pdoIndex obj) (length (pmo_entries obj)))
           | None \<Rightarrow> Inr ())"

text \<open>One attempt; the flat mapping read back is kept even when it does not match.\<close>

definition apply_mapping ::
  "'w bus \<Rightarrow> 'w sii_reader \<Rightarrow> Device \<Rightarrow> PdoMapping \<Rightarrow> FlatPdoMapping \<Rightarrow> 'w
     \<Rightarrow> (mapping_error + unit) \<times> FlatPdoMapping \<times> 'w" where
  "apply_mapping bus readSii d mapping flat w =
     (case writePdoDirection bus (dev_slavePosition d) 0x1C12 (pm_outputs mapping) w of
        (Inl e, w) \<Rightarrow> (Inl e, flat, w)
      | (Inr _, w) \<Rightarrow>
          (case writePdoDirection bus (dev_slavePosition d) 0x1C13 (pm_inputs mapping) w of
             (Inl e, w) \<Rightarrow> (Inl e, flat, w)
           | (Inr _, w) \<Rightarrow>
               (case readFlatPdoMapping bus readSii d w of
                  (Inl e, w) \<Rightarrow> (Inl (ReadBack e), flat, w)
                | (Inr flat, w) \<Rightarrow>
                    (case matchesRequest (fpm_outputs flat) (pm_outputs mapping) of
                       Inl e \<Rightarrow> (Inl e, flat, w)
                     | Inr _ \<Rightarrow> (matchesRequest (fpm_inputs flat) (pm_inputs mapping), flat, w)))))"

fun mapping_attempts ::
  "'w bus \<Rightarrow> 'w sii_reader \<Rightarrow> Device \<Rightarrow> PdoMapping \<Rightarrow> nat \<Rightarrow> mapping_error option \<Rightarrow> FlatPdoMapping \<Rightarrow> 'w
     \<Rightarrow> (mapping_error + unit) \<times> FlatPdoMapping \<times> 'w" where
  "mapping_attempts bus readSii d mapping 0 lastError flat w = (Inl (AttemptsFailed lastError), flat, w)"
| "mapping_attempts bus readSii d mapping (Suc left) lastError flat w =
     (case apply_mapping bus readSii d mapping flat w of
        (Inr _, flat, w) \<Rightarrow> (Inr (), flat, w)
      | (Inl e, flat, w) \<Rightarrow> mapping_attempts bus readSii d mapping left (Some e) flat w)"

definition writePdoMapping ::
  "'w bus \<Rightarrow> 'w sii_reader \<Rightarrow> Device \<Rightarrow> PdoMapping \<Rightarrow> FlatPdoMapping \<Rightarrow> 'w
     \<Rightarrow> (mapping_error + unit) \<times> FlatPdoMapping \<times> 'w" where
  "writePdoMapping bus readSii d mapping flat w =
     (let state = alState (bus_slaveState bus w (dev_slavePosition d))
      in if state \<noteq> PreOp then (Inl (NotPreOp state), flat, w)
         else case validate_direction (pm_outputs mapping) of
                Inl e \<Rightarrow> (Inl e, flat, w)
              | Inr _ \<Rightarrow>
                  (case validate_direction (pm_inputs mapping) of
                     Inl e \<Rightarrow> (Inl e, flat, w)
                   | Inr _ \<Rightarrow> mapping_attempts bus readSii d mapping 3 None flat w))"

section \<open>Modules\<close>

definition decodeEntryCount :: "bytes \<Rightarrow> u16" where
  "decodeEntryCount bs =
     (if length bs \<ge> 2 then ucast (bs ! 0) OR push_bit 8 (ucast (bs ! 1))
      else if length bs = 1 then ucast (bs ! 0)
      else 0)"

fun reconcile_loop ::
  "'w bus \<Rightarrow> u16 \<Rightarrow> nat list \<Rightarrow> int \<Rightarrow> (nat \<times> string) list \<Rightarrow> 'w \<Rightarrow> (int \<times> (nat \<times> string) list) \<times> 'w" where
  "reconcile_loop bus pos [] written failures w = ((written, failures), w)"
| "reconcile_loop bus pos (sub # subs) written failures w =
     (case bus_readSdo bus pos 0xF050 (of_nat sub) w of
        (Inl _, w) \<Rightarrow> reconcile_loop bus pos subs written failures w
      | (Inr detected, w) \<Rightarrow>
          if length detected \<noteq> 4 then reconcile_loop bus pos subs written failures w
          else if list_all (\<lambda>b. b = 0) detected then reconcile_loop bus pos subs written failures w
          else case bus_readSdo bus pos 0xF030 (of_nat sub) w of
                 (configured, w) \<Rightarrow>
                   if configured = Inr detected then reconcile_loop bus pos subs written failures w
                   else case bus_writeSdo bus pos 0xF030 (of_nat sub) detected w of
                          (Inl e, w) \<Rightarrow> reconcile_loop bus pos subs written (failures @ [(sub, e)]) w
                        | (Inr _, w) \<Rightarrow> reconcile_loop bus pos subs (written + 1) failures w)"

definition reconcileDetectedModules :: "'w bus \<Rightarrow> u16 \<Rightarrow> 'w \<Rightarrow> ((nat \<times> string) list + int) \<times> 'w" where
  "reconcileDetectedModules bus pos w =
     (case bus_readSdo bus pos 0xF050 0 w of
        (Inl _, w) \<Rightarrow> (Inr 0, w)
      | (Inr count, w) \<Rightarrow>
          let slotCount = min (unat (decodeEntryCount count)) 0xFF;
              ((written, failures), w) = reconcile_loop bus pos [1..<slotCount + 1] 0 [] w
          in (if failures \<noteq> [] then Inl failures else Inr written, w))"

section \<open>What a read gives\<close>

text \<open>
  The offsets of a mapping are the running sums of its widths. At most 255 objects of 255 entries of
  255 bits are read, so the 32-bit counters never wrap.
\<close>

lemma running_offsets_append:
  "running_offsets n (xs @ ys) = Option.bind (running_offsets n xs) (\<lambda>m. running_offsets m ys)"
  by (induction xs arbitrary: n) auto

lemma unat_u8_le: "unat (b :: u8) \<le> 255"
proof -
  have "unat b < 2 ^ LENGTH(8)" by (rule unsigned_less)
  then show ?thesis by simp
qed

lemma unat_add_width:
  assumes "unat (t :: u32) + unat (b :: u8) < 2 ^ 32"
  shows "unat (t + ucast b) = unat t + unat b"
proof -
  have "unat (ucast b :: u32) = unat b" by transfer simp
  then show ?thesis using assms by (simp add: unat_word_ariths)
qed

lemma read_entries_offsets:
  "read_entries bus pos m es t w = (Inr (entries, t'), w') \<Longrightarrow> unat t + 255 * length es < 2 ^ 32 \<Longrightarrow>
     running_offsets (unat t) entries = Some (unat t') \<and> unat t' \<le> unat t + 255 * length es"
proof (induction es arbitrary: t w entries)
  case (Cons e es)
  then obtain bs w1 rest where rd: "bus_readSdo bus pos m (of_nat e) w = (Inr bs, w1)"
    and rest: "read_entries bus pos m es
                 (t + ucast (pme_bitLength (unpackMappingEntry (fromBytes 4 False bs)))) w1 = (Inr (rest, t'), w')"
    and entries: "entries = (unpackMappingEntry (fromBytes 4 False bs))\<lparr>pme_bitOffset := t\<rparr> # rest"
    by (auto simp: Let_def split: prod.splits sum.splits)
  let ?b = "pme_bitLength (unpackMappingEntry (fromBytes 4 False bs))"
  have b: "unat ?b \<le> 255" by (rule unat_u8_le)
  have t: "unat (t + ucast ?b) = unat t + unat ?b"
    by (rule unat_add_width) (use Cons.prems b in simp)
  show ?case
    using Cons.IH[OF rest] Cons.prems(2) b by (simp add: entries t)
qed simp

lemma read_assigned_offsets:
  "read_assigned bus pos a is t w = (Inr objects, w') \<Longrightarrow> unat t + 65025 * length is < 2 ^ 32 \<Longrightarrow>
     \<exists>m. running_offsets (unat t) (flat_entries objects) = Some m \<and> m \<le> unat t + 65025 * length is"
proof (induction "is" arbitrary: t w objects)
  case (Cons i "is")
  note skip = Cons.IH[of t _ objects]
  from Cons.prems(1) consider
      (skipped) w1 where "read_assigned bus pos a is t w1 = (Inr objects, w')"
    | (mapped) m n w1 w2 entries t1 rest where
        "read_entries bus pos m [1..<unat (n :: u8) + 1] t w1 = (Inr (entries, t1), w2)"
        "read_assigned bus pos a is t1 w2 = (Inr rest, w')"
        "objects = \<lparr>pmo_pdoIndex = m, pmo_entries = entries\<rparr> # rest"
    by (auto simp: Let_def split: prod.splits sum.splits if_splits)
  then show ?case
  proof cases
    case skipped
    then show ?thesis using skip[of w1] Cons.prems(2) by force
  next
    case mapped
    have n: "unat n \<le> 255" by (rule unat_u8_le)
    have e: "running_offsets (unat t) entries = Some (unat t1)" "unat t1 \<le> unat t + 255 * unat n"
      using read_entries_offsets[OF mapped(1)] Cons.prems(2) n by (auto simp del: upt_Suc)
    then have "unat t1 + 65025 * length is < 2 ^ 32" using Cons.prems(2) n by simp
    from Cons.IH[OF mapped(2) this] e n show ?thesis
      by (fastforce simp: mapped(3) flat_entries_def running_offsets_append)
  qed
qed (simp add: flat_entries_def)

lemma readPdoAssignment_offsets:
  assumes "readPdoAssignment bus pos a w = (Inr objects, w')"
  shows "\<exists>m. running_offsets 0 (flat_entries objects) = Some m \<and> m < 2 ^ 32"
proof (cases "fst (bus_readSdo bus pos a 0 w)")
  case (Inl e)
  then show ?thesis using assms
    by (auto simp: readPdoAssignment_def flat_entries_def split: prod.splits sum.splits)
next
  case (Inr bs)
  let ?n = "unat (fromBytes 1 False bs :: u8)"
  have n: "?n \<le> 255" by (rule unat_u8_le)
  obtain w1 where "read_assigned bus pos a [1..<?n + 1] 0 w1 = (Inr objects, w')"
    using assms Inr by (auto simp: readPdoAssignment_def Let_def simp del: upt_Suc split: prod.splits sum.splits)
  moreover have "length [1..<?n + 1] = ?n" by simp
  ultimately obtain m where "running_offsets 0 (flat_entries objects) = Some m" "m \<le> 65025 * ?n"
    using read_assigned_offsets[of bus pos a "[1..<?n + 1]" 0 w1 objects w'] n by (auto simp del: upt_Suc)
  with n show ?thesis by auto
qed

lemma fold_bits:
  "running_offsets (unat t) es = Some m \<Longrightarrow> m < 2 ^ 32 \<Longrightarrow>
     unat (fold (\<lambda>e bits. bits + ucast (pme_bitLength e)) es (t :: u32)) = m"
proof (induction es arbitrary: t)
  case (Cons e es)
  then have r: "running_offsets (unat t + unat (pme_bitLength e)) es = Some m" by (simp split: if_splits)
  then have "unat t + unat (pme_bitLength e) < 2 ^ 32"
    using running_offsets_le Cons.prems(2) le_less_trans by blast
  then have "unat (t + ucast (pme_bitLength e)) = unat t + unat (pme_bitLength e)"
    by (rule unat_add_width)
  with Cons.IH[of "t + ucast (pme_bitLength e)"] r Cons.prems(2) show ?case by simp
qed simp

lemma sum_bits_running:
  "running_offsets 0 es = Some m \<Longrightarrow> m < 2 ^ 32 \<Longrightarrow> running_offsets 0 es = Some (unat (sum_bits es))"
  using fold_bits[of 0 es m] by (simp add: sum_bits_def)

lemma readFlatPdoMapping_coe:
  assumes "supportsCoe d" "readFlatPdoMapping bus readSii d w = (Inr flat, w')"
  shows "mapping_ok flat"
proof -
  obtain outs ins w1 where
    o: "readPdoAssignment bus (dev_slavePosition d) 0x1C12 w = (Inr outs, w1)" and
    i: "readPdoAssignment bus (dev_slavePosition d) 0x1C13 w1 = (Inr ins, w')" and
    flat: "flat = \<lparr>fpm_outputs = flat_entries outs, fpm_inputs = flat_entries ins,
                   fpm_outputBits = sum_bits (flat_entries outs), fpm_inputBits = sum_bits (flat_entries ins)\<rparr>"
    using assms
    by (auto simp: readFlatPdoMapping_def readPdoMapping_def io_bind_def io_return_def Let_def
             split: prod.splits sum.splits)
  show ?thesis
    using readPdoAssignment_offsets[OF o] readPdoAssignment_offsets[OF i] sum_bits_running
    by (auto simp: mapping_ok_def flat)
qed

section \<open>What a successful write leaves\<close>

definition request_of :: "PdoMappingEntry \<Rightarrow> u16 \<times> u8 \<times> u8" where
  "request_of e = (pme_index e, pme_subindex e, pme_bitLength e)"

lemma match_loop_iff:
  "match_loop r readBack wants = Inr k \<longleftrightarrow>
     k = r + length wants \<and> (wants = [] \<or> k \<le> length readBack)
     \<and> map request_of (take (length wants) (drop r readBack)) = map request_of wants"
proof (induction wants arbitrary: r)
  case (Cons want wants)
  show ?case
  proof (cases "r < length readBack")
    case True
    then have "drop r readBack = readBack ! r # drop (Suc r) readBack" by (simp add: Cons_nth_drop_Suc)
    with True Cons.IH[of "r + 1"] show ?thesis
      by (cases "wants = []") (auto simp: Let_def request_of_def)
  qed auto
qed auto

lemma matchesRequest_iff:
  "matchesRequest readBack requested = Inr () \<longleftrightarrow>
     map request_of readBack = map request_of (flat_entries requested)"
proof -
  let ?want = "flat_entries requested"
  have fits: "map request_of readBack = map request_of ?want \<Longrightarrow> length readBack = length ?want"
    by (rule map_eq_imp_length_eq)
  show ?thesis
  proof (cases "match_loop 0 readBack ?want")
    case (Inl e)
    then have "match_loop 0 readBack ?want \<noteq> Inr (length ?want)" by simp
    then have "map request_of readBack \<noteq> map request_of ?want"
      unfolding match_loop_iff using fits by auto
    then show ?thesis using Inl by (simp add: matchesRequest_def)
  next
    case (Inr k)
    then have "k = length ?want" "map request_of (take (length ?want) readBack) = map request_of ?want"
      by (simp_all add: match_loop_iff)
    then show ?thesis using Inr fits by (cases "k = length readBack") (auto simp: matchesRequest_def)
  qed
qed

text \<open>A mapping from the EEPROM keeps the running offsets as long as its entries fit the counter.\<close>

definition flat_ok :: "PdoMappingEntry list \<times> u32 \<Rightarrow> bool" where
  "flat_ok acc \<longleftrightarrow> running_offsets 0 (fst acc) = Some (unat (snd acc)) \<and> unat (snd acc) \<le> 255 * length (fst acc)"

lemma flatten_entries_ok:
  "flat_ok acc \<Longrightarrow> length (fst (flatten_entries es acc)) < 2 ^ 24 \<Longrightarrow>
     flat_ok (flatten_entries es acc) \<and> length (fst acc) \<le> length (fst (flatten_entries es acc))"
proof (induction es acc rule: flatten_entries.induct)
  case (2 e es out t)
  let ?acc = "(out @ [\<lparr>pme_index = pee_entryIndex e, pme_subindex = pee_subindex e, pme_bitLength = pee_bitLen e,
               pme_bitOffset = t\<rparr>], t + ucast (pee_bitLen e))"
  have longer: "length (fst acc) \<le> length (fst (flatten_entries es acc))" for es acc
    by (induction es acc rule: flatten_entries.induct) auto
  have "length out < 2 ^ 24" using longer[of ?acc es] "2.prems"(2) by simp
  then have "unat t + unat (pee_bitLen e) < 2 ^ 32"
    using "2.prems"(1) unat_u8_le[of "pee_bitLen e"] by (simp add: flat_ok_def)
  then have "flat_ok ?acc"
    using "2.prems"(1) unat_u8_le[of "pee_bitLen e"]
    by (simp add: flat_ok_def running_offsets_append unat_add_width)
  with "2.IH" "2.prems"(2) longer[of ?acc es] show ?case by simp
qed simp

lemma sii_flatten_longer: "length (fst acc) \<le> length (fst (sii_flatten pdos acc))"
proof (induction pdos acc rule: sii_flatten.induct)
  case (2 pdo pdos acc)
  have "length (fst acc) \<le> length (fst (flatten_entries es acc))" for es
    by (induction es acc rule: flatten_entries.induct) auto
  from this[of "pdo_entries pdo"] 2 show ?case by auto
qed simp

lemma sii_flatten_ok:
  "flat_ok acc \<Longrightarrow> length (fst (sii_flatten pdos acc)) < 2 ^ 24 \<Longrightarrow> flat_ok (sii_flatten pdos acc)"
proof (induction pdos acc rule: sii_flatten.induct)
  case (2 pdo pdos acc)
  let ?acc = "if pdo_pdoIndex pdo = 0 then acc else flatten_entries (pdo_entries pdo) acc"
  have "length (fst ?acc) < 2 ^ 24" using sii_flatten_longer[of ?acc pdos] "2.prems"(2) by simp
  then have "flat_ok ?acc" using flatten_entries_ok[of acc "pdo_entries pdo"] "2.prems"(1) by (auto split: if_splits)
  with "2.IH" "2.prems"(2) show ?case by simp
qed simp

lemma readFlatPdoMapping_sii:
  assumes "\<not> supportsCoe d" "readFlatPdoMapping bus readSii d w = (Inr flat, w')"
    "length (fpm_outputs flat) < 2 ^ 24" "length (fpm_inputs flat) < 2 ^ 24"
  shows "mapping_ok flat"
proof -
  let ?outs = "\<lambda>sii. sii_flatten (sec_rxPdos (sii_category sii)) ([], 0)"
  let ?ins = "\<lambda>sii. sii_flatten (sec_txPdos (sii_category sii)) ([], 0)"
  obtain raw sii where read: "readSii (dev_slavePosition d) w = (Inr raw, w')" "parseSii raw = Inr sii"
    using assms(1,2) by (auto simp: readFlatPdoMapping_def readSiiPdoMapping_def Let_def split: prod.splits sum.splits)
  have flat: "flat = \<lparr>fpm_outputs = fst (?outs sii), fpm_inputs = fst (?ins sii),
                      fpm_outputBits = snd (?outs sii), fpm_inputBits = snd (?ins sii)\<rparr>"
    using assms(1,2) read by (simp add: readFlatPdoMapping_def readSiiPdoMapping_def Let_def split_beta)
  have start: "flat_ok ([], 0)" by (simp add: flat_ok_def)
  show ?thesis
    using sii_flatten_ok[OF start] assms(3,4) by (auto simp: flat mapping_ok_def flat_ok_def)
qed

lemma validate_direction_iff:
  "validate_direction objs = Inr () \<longleftrightarrow>
     length objs \<le> 255 \<and> list_all (\<lambda>obj. length (pmo_entries obj) \<le> 255) objs"
  by (auto simp: validate_direction_def find_None_iff list_all_iff not_less split: option.splits)
     (metis find_Some_iff nth_mem not_less)

lemma validated_entries:
  assumes "validate_direction objs = Inr ()"
  shows "length (flat_entries objs) < 2 ^ 24"
proof -
  have "list_all (\<lambda>obj. length (pmo_entries obj) \<le> 255) os \<Longrightarrow> length (flat_entries os) \<le> 255 * length os" for os
    by (induction os) (auto simp: flat_entries_def)
  then have "length (flat_entries objs) \<le> 255 * length objs" using assms validate_direction_iff by blast
  moreover have "length objs \<le> 255" using assms by (simp add: validate_direction_iff)
  ultimately show ?thesis by simp
qed

definition as_requested :: "PdoMapping \<Rightarrow> FlatPdoMapping \<Rightarrow> bool" where
  "as_requested mapping flat \<longleftrightarrow>
     map request_of (fpm_outputs flat) = map request_of (flat_entries (pm_outputs mapping))
   \<and> map request_of (fpm_inputs flat) = map request_of (flat_entries (pm_inputs mapping))"

lemma apply_mapping_success:
  assumes "apply_mapping bus readSii d mapping flat w = (Inr (), flat', w')"
  shows "as_requested mapping flat' \<and> (\<exists>w1. readFlatPdoMapping bus readSii d w1 = (Inr flat', w'))"
  using assms matchesRequest_iff
  by (fastforce simp: apply_mapping_def as_requested_def split: prod.splits sum.splits)

lemma mapping_attempts_success:
  "mapping_attempts bus readSii d mapping n lastError flat w = (Inr (), flat', w') \<Longrightarrow>
     as_requested mapping flat' \<and> (\<exists>w1. readFlatPdoMapping bus readSii d w1 = (Inr flat', w'))"
  by (induction n arbitrary: lastError flat w)
     (auto split: prod.splits sum.splits dest: apply_mapping_success)

lemma writePdoMapping_success:
  assumes "writePdoMapping bus readSii d mapping flat w = (Inr (), flat', w')"
  shows "alState (bus_slaveState bus w (dev_slavePosition d)) = PreOp"
    "as_requested mapping flat'" "mapping_ok flat'"
proof -
  have v: "validate_direction (pm_outputs mapping) = Inr ()" "validate_direction (pm_inputs mapping) = Inr ()"
    and m: "mapping_attempts bus readSii d mapping 3 None flat w = (Inr (), flat', w')"
    and s: "alState (bus_slaveState bus w (dev_slavePosition d)) = PreOp"
    using assms by (auto simp: writePdoMapping_def Let_def split: sum.splits if_splits)
  show "alState (bus_slaveState bus w (dev_slavePosition d)) = PreOp" by (rule s)
  obtain w1 where r: "as_requested mapping flat'" "readFlatPdoMapping bus readSii d w1 = (Inr flat', w')"
    using mapping_attempts_success[OF m] by blast
  show "as_requested mapping flat'" by (rule r)
  have "length (fpm_outputs flat') < 2 ^ 24" "length (fpm_inputs flat') < 2 ^ 24"
    using r(1) validated_entries[OF v(1)] validated_entries[OF v(2)]
    unfolding as_requested_def by (metis length_map)+
  then show "mapping_ok flat'"
    using readFlatPdoMapping_coe[OF _ r(2)] readFlatPdoMapping_sii[OF _ r(2)] by blast
qed

section \<open>A device that obeys the write order\<close>

text \<open>
  The documented behaviour of a CoE slave in PRE-OP: a sync manager's assignment takes entries only
  while its count is zero, and a mapping object takes writes only while the sync manager of its
  direction is cleared, entries only while the object's own count is zero. An accepted write is what
  the next read returns.
\<close>

type_synonym sdo_memory = "u16 \<times> u8 \<Rightarrow> bytes option"

definition is_rx :: "u16 \<Rightarrow> bool" where
  "is_rx i \<longleftrightarrow> 0x1600 \<le> i \<and> i \<le> 0x17FF"

definition is_tx :: "u16 \<Rightarrow> bool" where
  "is_tx i \<longleftrightarrow> 0x1A00 \<le> i \<and> i \<le> 0x1BFF"

definition pdo_of :: "u16 \<Rightarrow> u16 \<Rightarrow> bool" where
  "pdo_of a i = (if a = 0x1C12 then is_rx i else a = 0x1C13 \<and> is_tx i)"

definition cleared :: "sdo_memory \<Rightarrow> u16 \<Rightarrow> bool" where
  "cleared m i \<longleftrightarrow> m (i, 0) = Some [0]"

definition permits :: "sdo_memory \<Rightarrow> u16 \<Rightarrow> u8 \<Rightarrow> bool" where
  "permits m i s \<longleftrightarrow>
     (s = 0 \<or> cleared m i)
   \<and> (i = 0x1C12 \<or> i = 0x1C13 \<or> is_rx i \<and> cleared m 0x1C12 \<or> is_tx i \<and> cleared m 0x1C13)"

definition pdo_slave :: "'w bus \<Rightarrow> u16 \<Rightarrow> ('w \<Rightarrow> sdo_memory) \<Rightarrow> bool" where
  "pdo_slave bus pos mem \<longleftrightarrow>
     (\<forall>w i s bs. mem w (i, s) = Some bs \<longrightarrow> bus_readSdo bus pos i s w = (Inr bs, w))
   \<and> (\<forall>w i s bs. permits (mem w) i s \<longrightarrow>
        (\<exists>w'. bus_writeSdo bus pos i s bs w = (Inr (), w') \<and> mem w' = (mem w)((i, s) \<mapsto> bs)))"

fun mem_writes :: "(u16 \<times> u8 \<times> bytes) list \<Rightarrow> sdo_memory \<Rightarrow> sdo_memory" where
  "mem_writes [] m = m"
| "mem_writes ((i, s, bs) # ws) m = mem_writes ws (m((i, s) \<mapsto> bs))"

fun all_permitted :: "(u16 \<times> u8 \<times> bytes) list \<Rightarrow> sdo_memory \<Rightarrow> bool" where
  "all_permitted [] m = True"
| "all_permitted ((i, s, bs) # ws) m \<longleftrightarrow> permits m i s \<and> all_permitted ws (m((i, s) \<mapsto> bs))"

lemma mem_writes_append [simp]: "mem_writes (xs @ ys) m = mem_writes ys (mem_writes xs m)"
  by (induction xs arbitrary: m) auto

lemma all_permitted_append [simp]:
  "all_permitted (xs @ ys) m \<longleftrightarrow> all_permitted xs m \<and> all_permitted ys (mem_writes xs m)"
  by (induction xs arbitrary: m) auto

lemma mem_writes_other: "k \<notin> (\<lambda>(i, s, bs). (i, s)) ` set ws \<Longrightarrow> mem_writes ws m k = m k"
  by (induction ws arbitrary: m) auto

lemma write_all_permitted:
  "pdo_slave bus pos mem \<Longrightarrow> all_permitted ws (mem w) \<Longrightarrow>
     \<exists>w'. write_all bus pos ws w = (Inr (), w') \<and> mem w' = mem_writes ws (mem w)"
proof (induction ws arbitrary: w)
  case (Cons x ws)
  obtain i s bs where x: "x = (i, s, bs)" by (cases x)
  from Cons.prems x obtain w1 where
    "bus_writeSdo bus pos i s bs w = (Inr (), w1)" "mem w1 = (mem w)((i, s) \<mapsto> bs)"
    unfolding pdo_slave_def by fastforce
  with Cons.IH[of w1] Cons.prems x show ?case
    by (simp add: write_object_def io_bind_def del: fun_upd_apply)
qed simp

text \<open>A run of entries written at subindices 1 to \<open>n\<close>.\<close>

definition numbered :: "u16 \<Rightarrow> (nat \<Rightarrow> bytes) \<Rightarrow> nat \<Rightarrow> (u16 \<times> u8 \<times> bytes) list" where
  "numbered i f n = map (\<lambda>e. (i, of_nat (e + 1), f e)) [0..<n]"

lemma sub_inj: "a \<le> 255 \<Longrightarrow> b \<le> 255 \<Longrightarrow> (of_nat a :: u8) = of_nat b \<longleftrightarrow> a = b"
  by (simp add: word_of_nat_eq_iff take_bit_nat_eq_self)

lemma sub_nonzero: "e < 255 \<Longrightarrow> (of_nat (e + 1) :: u8) \<noteq> 0"
  using sub_inj[of "e + 1" 0] by simp

lemma numbered_Suc: "numbered i f (Suc n) = numbered i f n @ [(i, of_nat (n + 1), f n)]"
  by (simp add: numbered_def)

lemma numbered_keys: "n \<le> 255 \<Longrightarrow> (\<lambda>(i, s, bs). (i, s)) ` set (numbered i f n) \<subseteq> {i} \<times> {s. s \<noteq> 0}"
  unfolding numbered_def using sub_nonzero by fastforce

lemma mem_numbered_zero: "n \<le> 255 \<Longrightarrow> mem_writes (numbered i f n) m (j, 0) = m (j, 0)"
  by (rule mem_writes_other) (use numbered_keys in blast)

lemma mem_numbered_other: "n \<le> 255 \<Longrightarrow> j \<noteq> i \<Longrightarrow> mem_writes (numbered i f n) m (j, s) = m (j, s)"
  by (rule mem_writes_other) (use numbered_keys in blast)

lemma mem_numbered:
  "n \<le> 255 \<Longrightarrow> e < n \<Longrightarrow> mem_writes (numbered i f n) m (i, of_nat (Suc e)) = Some (f e)"
proof (induction n)
  case (Suc n)
  then show ?case using sub_inj[of "Suc e" "Suc n"] by (cases "e = n") (auto simp: numbered_Suc simp del: of_nat_Suc)
qed simp

lemma numbered_permitted:
  "n \<le> 255 \<Longrightarrow> (\<And>s. permits m i s) \<Longrightarrow> cleared m i \<Longrightarrow> all_permitted (numbered i f n) m"
proof (induction n)
  case (Suc n)
  let ?m = "mem_writes (numbered i f n) m"
  have "cleared ?m j = cleared m j" for j using Suc.prems(1) by (simp add: cleared_def mem_numbered_zero)
  then have "permits ?m i s = permits m i s" for s by (simp add: permits_def)
  with Suc show ?case by (simp add: numbered_Suc)
qed (simp add: numbered_def)

definition stored_object :: "sdo_memory \<Rightarrow> PdoMappingObject \<Rightarrow> bool" where
  "stored_object m obj \<longleftrightarrow>
     m (pmo_pdoIndex obj, 0) = Some (toBytes 1 False (of_nat (length (pmo_entries obj)) :: u8))
   \<and> (\<forall>e < length (pmo_entries obj).
        m (pmo_pdoIndex obj, of_nat (e + 1)) = Some (toBytes 4 False (packMappingEntry (pmo_entries obj ! e))))"

definition stored_direction :: "sdo_memory \<Rightarrow> u16 \<Rightarrow> PdoMappingObject list \<Rightarrow> bool" where
  "stored_direction m a objs \<longleftrightarrow>
     m (a, 0) = Some (toBytes 1 False (of_nat (length objs) :: u8))
   \<and> (\<forall>i < length objs. m (a, of_nat (i + 1)) = Some (toBytes 2 False (pmo_pdoIndex (objs ! i))))
   \<and> list_all (stored_object m) objs"

lemma zero_byte: "toBytes 1 False (0 :: u8) = [0]"
  by (simp add: toBytes_def)

lemma pdo_index_apart: "pdo_of a i \<Longrightarrow> i \<noteq> 0 \<and> i \<noteq> 0x1C12 \<and> i \<noteq> 0x1C13"
  by (auto simp: pdo_of_def is_rx_def is_tx_def split: if_splits)

lemma pdo_of_neq: "pdo_of a i \<Longrightarrow> i \<noteq> a"
  by (auto simp: pdo_of_def is_rx_def is_tx_def split: if_splits)

lemma pdo_of_disjoint: "pdo_of 0x1C12 i \<Longrightarrow> \<not> pdo_of 0x1C13 i"
  by (auto simp: pdo_of_def is_rx_def is_tx_def word_le_nat_alt)

lemma permits_pdo: "pdo_of a i \<Longrightarrow> cleared m a \<Longrightarrow> permits m i s \<longleftrightarrow> s = 0 \<or> cleared m i"
  by (auto simp: permits_def pdo_of_def split: if_splits)

lemma object_writes_numbered:
  "object_writes obj =
     (pmo_pdoIndex obj, 0, [0])
     # numbered (pmo_pdoIndex obj) (\<lambda>e. toBytes 4 False (packMappingEntry (pmo_entries obj ! e))) (length (pmo_entries obj))
     @ [(pmo_pdoIndex obj, 0, toBytes 1 False (of_nat (length (pmo_entries obj)) :: u8))]"
  by (simp add: object_writes_def numbered_def zero_byte[unfolded One_nat_def])

lemma object_writes_other:
  "length (pmo_entries obj) \<le> 255 \<Longrightarrow> j \<noteq> pmo_pdoIndex obj \<Longrightarrow> mem_writes (object_writes obj) m (j, s) = m (j, s)"
  by (simp add: object_writes_numbered mem_numbered_other)

lemma object_writes_stored:
  "length (pmo_entries obj) \<le> 255 \<Longrightarrow> stored_object (mem_writes (object_writes obj) m) obj"
  using sub_nonzero by (auto simp: stored_object_def object_writes_numbered mem_numbered simp del: of_nat_Suc)

lemma object_writes_permitted:
  assumes "pdo_of a (pmo_pdoIndex obj)" "cleared m a" "length (pmo_entries obj) \<le> 255"
  shows "all_permitted (object_writes obj) m"
proof -
  let ?i = "pmo_pdoIndex obj" and ?m = "m((pmo_pdoIndex obj, 0) \<mapsto> [0])"
  have "?i \<noteq> a" by (rule pdo_of_neq[OF assms(1)])
  then have c: "cleared ?m a" "cleared ?m ?i" using assms(2) by (simp_all add: cleared_def)
  have c': "cleared (mem_writes (numbered ?i f n) ?m) a" if "n \<le> 255" for f n
    using c(1) that by (simp add: cleared_def mem_numbered_zero)
  show ?thesis
    using numbered_permitted[OF assms(3), of ?m ?i] c c'[OF assms(3)] assms(1,2)
    by (simp add: object_writes_numbered permits_pdo del: fun_upd_apply)
qed

definition direction_ok :: "u16 \<Rightarrow> PdoMappingObject list \<Rightarrow> bool" where
  "direction_ok a objs \<longleftrightarrow>
     list_all (\<lambda>obj. pdo_of a (pmo_pdoIndex obj) \<and> length (pmo_entries obj) \<le> 255) objs
   \<and> distinct (map pmo_pdoIndex objs) \<and> length objs \<le> 255"

lemma objects_other:
  "list_all (\<lambda>obj. length (pmo_entries obj) \<le> 255) objs \<Longrightarrow> j \<notin> pmo_pdoIndex ` set objs \<Longrightarrow>
     mem_writes (concat (map object_writes objs)) m (j, s) = m (j, s)"
  by (induction objs arbitrary: m) (auto simp: object_writes_other)

lemma stored_object_cong:
  "(\<And>s. m (pmo_pdoIndex obj, s) = m' (pmo_pdoIndex obj, s)) \<Longrightarrow> stored_object m obj = stored_object m' obj"
  by (simp add: stored_object_def)

lemma objects_stored:
  "list_all (\<lambda>obj. length (pmo_entries obj) \<le> 255) objs \<Longrightarrow> distinct (map pmo_pdoIndex objs) \<Longrightarrow>
     list_all (stored_object (mem_writes (concat (map object_writes objs)) m)) objs"
proof (induction objs arbitrary: m)
  case (Cons obj objs)
  let ?m = "mem_writes (object_writes obj) m"
  have "stored_object (mem_writes (concat (map object_writes objs)) ?m) obj = stored_object ?m obj"
    by (rule stored_object_cong) (use Cons.prems in \<open>simp add: objects_other\<close>)
  then show ?case using Cons object_writes_stored[of obj m] by simp
qed simp

lemma objects_permitted:
  "list_all (\<lambda>obj. pdo_of a (pmo_pdoIndex obj) \<and> length (pmo_entries obj) \<le> 255) objs \<Longrightarrow> cleared m a \<Longrightarrow>
     all_permitted (concat (map object_writes objs)) m"
proof (induction objs arbitrary: m)
  case (Cons obj objs)
  have "pmo_pdoIndex obj \<noteq> a" using Cons.prems(1) by (simp add: pdo_of_neq)
  then have "cleared (mem_writes (object_writes obj) m) a"
    using Cons.prems by (simp add: cleared_def object_writes_other)
  moreover have "all_permitted (object_writes obj) m"
    by (rule object_writes_permitted[of a]) (use Cons.prems in simp_all)
  ultimately show ?case using Cons by simp
qed simp

lemma direction_writes_numbered:
  "direction_writes a objs =
     (a, 0, [0]) # concat (map object_writes objs)
     @ numbered a (\<lambda>i. toBytes 2 False (pmo_pdoIndex (objs ! i))) (length objs)
     @ [(a, 0, toBytes 1 False (of_nat (length objs) :: u8))]"
  by (simp add: direction_writes_def numbered_def zero_byte[unfolded One_nat_def])

lemma direction_okD:
  assumes "direction_ok a objs"
  shows "list_all (\<lambda>obj. length (pmo_entries obj) \<le> 255) objs" "distinct (map pmo_pdoIndex objs)"
    "length objs \<le> 255" "list_all (\<lambda>obj. pdo_of a (pmo_pdoIndex obj) \<and> length (pmo_entries obj) \<le> 255) objs"
    "a \<notin> pmo_pdoIndex ` set objs"
  using assms pdo_of_neq by (fastforce simp: direction_ok_def list_all_iff)+

lemma direction_permitted:
  assumes "direction_ok a objs" "a = 0x1C12 \<or> a = 0x1C13"
  shows "all_permitted (direction_writes a objs) m"
proof -
  note ok = direction_okD[OF assms(1)]
  let ?m1 = "m((a, 0) \<mapsto> [0])"
  let ?m2 = "mem_writes (concat (map object_writes objs)) ?m1"
  have c1: "cleared ?m1 a" by (simp add: cleared_def)
  have c2: "cleared ?m2 a" using c1 objects_other[OF ok(1,5)] by (simp add: cleared_def)
  have p: "permits m' a s \<longleftrightarrow> s = 0 \<or> cleared m' a" for m' s using assms(2) by (auto simp: permits_def)
  have "all_permitted (numbered a f (length objs)) ?m2" for f
    by (rule numbered_permitted[OF ok(3)]) (simp_all add: p c2)
  then show ?thesis
    using objects_permitted[OF ok(4) c1] by (simp add: direction_writes_numbered p del: fun_upd_apply)
qed

lemma direction_stored:
  assumes "direction_ok a objs"
  shows "stored_direction (mem_writes (direction_writes a objs) m) a objs"
proof -
  note ok = direction_okD[OF assms]
  let ?m2 = "mem_writes (concat (map object_writes objs)) (m((a, 0) \<mapsto> [0]))"
  let ?m = "mem_writes (direction_writes a objs) m"
  have same: "?m (j, s) = ?m2 (j, s)" if "j \<noteq> a" for j s
    using that ok(3) by (simp add: direction_writes_numbered mem_numbered_other)
  have "stored_object ?m obj" if "obj \<in> set objs" for obj
  proof -
    have "stored_object ?m obj = stored_object ?m2 obj"
      by (rule stored_object_cong, rule same) (use that ok(5) in blast)
    then show ?thesis using objects_stored[OF ok(1,2)] that by (simp add: list_all_iff)
  qed
  then show ?thesis
    using ok(3) sub_nonzero
    by (auto simp: stored_direction_def list_all_iff direction_writes_numbered mem_numbered simp del: of_nat_Suc)
qed

lemma direction_writes_other:
  assumes "direction_ok a objs" "j \<noteq> a" "\<not> pdo_of a j"
  shows "mem_writes (direction_writes a objs) m (j, s) = m (j, s)"
proof -
  note ok = direction_okD[OF assms(1)]
  have "j \<notin> pmo_pdoIndex ` set objs" using ok(4) assms(3) by (auto simp: list_all_iff)
  then show ?thesis using assms(2) ok(1,3) by (simp add: direction_writes_numbered mem_numbered_other objects_other)
qed

text \<open>Reading what is stored gives the entries that were written.\<close>

lemma read_stored_word:
  "pdo_slave bus pos mem \<Longrightarrow> mem w (i, s) = Some bs \<Longrightarrow> bus_readSdo bus pos i s w = (Inr bs, w)"
  by (simp add: pdo_slave_def)

lemma request_of_word:
  "request_of ((unpackMappingEntry (fromBytes 4 False (toBytes 4 False (packMappingEntry e))))\<lparr>pme_bitOffset := t\<rparr>)
     = request_of e"
  using mapping_word_round_trip[of e] by (simp add: fromBytes_toBytes_little request_of_def)

lemma read_entries_stored:
  assumes "pdo_slave bus pos mem"
  shows "(\<And>e. e \<in> set es \<Longrightarrow> mem w (i, of_nat e) = Some (toBytes 4 False (packMappingEntry (f e)))) \<Longrightarrow>
     \<exists>entries t'. read_entries bus pos i es t w = (Inr (entries, t'), w)
                  \<and> map request_of entries = map (\<lambda>e. request_of (f e)) es"
proof (induction es arbitrary: t)
  case (Cons e es)
  let ?entry = "(unpackMappingEntry (fromBytes 4 False (toBytes 4 False (packMappingEntry (f e)))))\<lparr>pme_bitOffset := t\<rparr>"
  have rd: "bus_readSdo bus pos i (of_nat e) w = (Inr (toBytes 4 False (packMappingEntry (f e))), w)"
    by (rule read_stored_word[OF assms]) (simp add: Cons.prems)
  obtain entries t' where
    "read_entries bus pos i es (t + ucast (pme_bitLength ?entry)) w = (Inr (entries, t'), w)"
    "map request_of entries = map (\<lambda>e. request_of (f e)) es"
    using Cons.IH[of "t + ucast (pme_bitLength ?entry)"] Cons.prems by auto
  then show ?case by (simp add: rd Let_def request_of_word)
qed simp

lemma stored_entries:
  "stored_object m obj \<Longrightarrow> e \<in> set [1..<length (pmo_entries obj) + 1] \<Longrightarrow>
     m (pmo_pdoIndex obj, of_nat e) = Some (toBytes 4 False (packMappingEntry (pmo_entries obj ! (e - 1))))"
  by (cases e) (auto simp: stored_object_def simp del: of_nat_Suc upt_Suc)

lemma map_shift: "map (\<lambda>e. f (xs ! (e - 1))) [1..<length xs + 1] = map f xs"
  by (rule nth_equalityI) (simp_all del: upt_Suc)

lemma count_byte: "n \<le> 255 \<Longrightarrow> unat (fromBytes 1 False (toBytes 1 False (of_nat n :: u8)) :: u8) = n"
  by (simp add: fromBytes_toBytes_little unat_of_nat)

lemma read_assigned_stored:
  assumes "pdo_slave bus pos mem"
  shows "(\<And>i. i \<in> set is \<Longrightarrow> mem w (a, of_nat i) = Some (toBytes 2 False (pmo_pdoIndex (g i)))
            \<and> stored_object (mem w) (g i) \<and> pmo_pdoIndex (g i) \<noteq> 0 \<and> length (pmo_entries (g i)) \<le> 255) \<Longrightarrow>
     \<exists>objects. read_assigned bus pos a is t w = (Inr objects, w)
               \<and> map request_of (flat_entries objects) = concat (map (\<lambda>i. map request_of (pmo_entries (g i))) is)"
proof (induction "is" arbitrary: t)
  case (Cons i "is")
  let ?g = "g i" and ?n = "length (pmo_entries (g i))"
  have g: "stored_object (mem w) ?g" "pmo_pdoIndex ?g \<noteq> 0" "?n \<le> 255"
    "mem w (a, of_nat i) = Some (toBytes 2 False (pmo_pdoIndex ?g))"
    using Cons.prems[of i] by simp_all
  have rd: "bus_readSdo bus pos a (of_nat i) w = (Inr (toBytes 2 False (pmo_pdoIndex ?g)), w)"
    "bus_readSdo bus pos (pmo_pdoIndex ?g) 0 w = (Inr (toBytes 1 False (of_nat ?n :: u8)), w)"
    using read_stored_word[OF assms g(4)] read_stored_word[OF assms, of w "pmo_pdoIndex ?g" 0] g(1)
    by (simp_all add: stored_object_def)
  have "\<exists>entries t'. read_entries bus pos (pmo_pdoIndex ?g) [1..<?n + 1] t w = (Inr (entries, t'), w)
      \<and> map request_of entries = map (\<lambda>e. request_of (pmo_entries ?g ! (e - 1))) [1..<?n + 1]"
    by (rule read_entries_stored[OF assms]) (rule stored_entries[OF g(1)])
  then obtain entries t1 where e: "read_entries bus pos (pmo_pdoIndex ?g) [1..<?n + 1] t w = (Inr (entries, t1), w)"
    "map request_of entries = map request_of (pmo_entries ?g)"
    unfolding map_shift by (elim exE conjE)
  obtain objects where o: "read_assigned bus pos a is t1 w = (Inr objects, w)"
    "map request_of (flat_entries objects) = concat (map (\<lambda>i. map request_of (pmo_entries (g i))) is)"
    using Cons.IH[OF Cons.prems[OF list.set_intros(2)], of t1] by blast
  have idx: "fromBytes 2 False (toBytes 2 False (pmo_pdoIndex ?g)) = pmo_pdoIndex ?g"
    by (simp add: fromBytes_toBytes_little)
  have "read_assigned bus pos a (i # is) t w
      = (Inr (\<lparr>pmo_pdoIndex = pmo_pdoIndex ?g, pmo_entries = entries\<rparr> # objects), w)"
    unfolding read_assigned.simps rd prod.case sum.case Let_def idx count_byte[OF g(3)] e(1) o(1)
    by (simp add: g(2))
  then show ?case using e(2) o(2) by (simp add: flat_entries_def)
qed (simp add: flat_entries_def)

lemma readPdoAssignment_stored:
  assumes "pdo_slave bus pos mem" "direction_ok a objs" "stored_direction (mem w) a objs"
  shows "\<exists>objects. readPdoAssignment bus pos a w = (Inr objects, w)
                   \<and> map request_of (flat_entries objects) = map request_of (flat_entries objs)"
proof -
  note ok = direction_okD[OF assms(2)]
  let ?n = "length objs"
  have rd: "bus_readSdo bus pos a 0 w = (Inr (toBytes 1 False (of_nat ?n :: u8)), w)"
    by (rule read_stored_word[OF assms(1)]) (use assms(3) in \<open>simp add: stored_direction_def\<close>)
  have slot: "mem w (a, of_nat i) = Some (toBytes 2 False (pmo_pdoIndex (objs ! (i - 1))))
        \<and> stored_object (mem w) (objs ! (i - 1)) \<and> pmo_pdoIndex (objs ! (i - 1)) \<noteq> 0
        \<and> length (pmo_entries (objs ! (i - 1))) \<le> 255" if i: "i \<in> set [1..<?n + 1]" for i
  proof -
    have "1 \<le> i \<and> i < ?n + 1" using i by (simp del: upt_Suc)
    then obtain k where k: "i = Suc k" "k < ?n" by (cases i) auto
    then have "pdo_of a (pmo_pdoIndex (objs ! k))" "length (pmo_entries (objs ! k)) \<le> 255"
      using ok(4) by (auto simp: list_all_length)
    with k assms(3) pdo_index_apart show ?thesis
      by (simp add: stored_direction_def list_all_length del: of_nat_Suc)
  qed
  have flat: "concat (map (\<lambda>i. map request_of (pmo_entries (objs ! (i - 1)))) [1..<?n + 1])
      = map request_of (flat_entries objs)"
    unfolding map_shift[of "\<lambda>obj. map request_of (pmo_entries obj)" objs] by (simp add: flat_entries_def map_concat comp_def)
  have "\<exists>objects. read_assigned bus pos a [1..<?n + 1] 0 w = (Inr objects, w)
      \<and> map request_of (flat_entries objects)
          = concat (map (\<lambda>i. map request_of (pmo_entries (objs ! (i - 1)))) [1..<?n + 1])"
    by (rule read_assigned_stored[OF assms(1)]) (rule slot)
  then obtain objects where
    "read_assigned bus pos a [1..<?n + 1] 0 w = (Inr objects, w)"
    "map request_of (flat_entries objects) = map request_of (flat_entries objs)"
    unfolding flat by (elim exE conjE)
  then show ?thesis
    unfolding readPdoAssignment_def rd prod.case sum.case Let_def count_byte[OF ok(3)] by blast
qed

lemma matches_of_requests:
  "map request_of xs = map request_of (flat_entries objs) \<Longrightarrow> matchesRequest xs objs = Inr ()"
  by (simp add: matchesRequest_iff)

lemma apply_mapping_accepted:
  assumes slave: "pdo_slave bus (dev_slavePosition d) mem" and coe: "supportsCoe d"
    and ok: "direction_ok 0x1C12 (pm_outputs mapping)" "direction_ok 0x1C13 (pm_inputs mapping)"
  shows "\<exists>flat' w'. apply_mapping bus readSii d mapping flat w = (Inr (), flat', w')"
proof -
  let ?pos = "dev_slavePosition d"
  obtain w1 where w1: "writePdoDirection bus ?pos 0x1C12 (pm_outputs mapping) w = (Inr (), w1)"
    "mem w1 = mem_writes (direction_writes 0x1C12 (pm_outputs mapping)) (mem w)"
    using write_all_permitted[OF slave direction_permitted[OF ok(1), of "mem w"]] unfolding writePdoDirection_def by auto
  obtain w2 where w2: "writePdoDirection bus ?pos 0x1C13 (pm_inputs mapping) w1 = (Inr (), w2)"
    "mem w2 = mem_writes (direction_writes 0x1C13 (pm_inputs mapping)) (mem w1)"
    using write_all_permitted[OF slave direction_permitted[OF ok(2), of "mem w1"]] unfolding writePdoDirection_def by auto
  have ins: "stored_direction (mem w2) 0x1C13 (pm_inputs mapping)"
    unfolding w2(2) by (rule direction_stored[OF ok(2)])
  have outs1: "stored_direction (mem w1) 0x1C12 (pm_outputs mapping)"
    unfolding w1(2) by (rule direction_stored[OF ok(1)])
  have apart: "j \<noteq> 0x1C13 \<and> \<not> pdo_of 0x1C13 j" if "j = 0x1C12 \<or> pdo_of 0x1C12 j" for j
    using that pdo_of_disjoint[of j] pdo_index_apart[of "0x1C12" j] pdo_index_apart[of "0x1C13" j] by auto
  have keep: "mem w2 (j, s) = mem w1 (j, s)" if "j = 0x1C12 \<or> pdo_of 0x1C12 j" for j s
    unfolding w2(2) by (rule direction_writes_other[OF ok(2)]) (use that apart in blast)+
  have "stored_object (mem w2) obj = stored_object (mem w1) obj" if "obj \<in> set (pm_outputs mapping)" for obj
    by (rule stored_object_cong, rule keep) (use that direction_okD(4)[OF ok(1)] in \<open>simp add: list_all_iff\<close>)
  then have outs: "stored_direction (mem w2) 0x1C12 (pm_outputs mapping)"
    using outs1 keep by (simp add: stored_direction_def list_all_iff)
  obtain os qs where
    r: "readPdoAssignment bus ?pos 0x1C12 w2 = (Inr os, w2)" "readPdoAssignment bus ?pos 0x1C13 w2 = (Inr qs, w2)"
    and q: "map request_of (flat_entries os) = map request_of (flat_entries (pm_outputs mapping))"
      "map request_of (flat_entries qs) = map request_of (flat_entries (pm_inputs mapping))"
    using readPdoAssignment_stored[OF slave ok(1) outs] readPdoAssignment_stored[OF slave ok(2) ins] by blast
  show ?thesis
    using coe w1(1) w2(1) q[THEN matches_of_requests]
    by (simp add: apply_mapping_def readFlatPdoMapping_def readPdoMapping_def io_bind_def r Let_def)
qed

lemma writePdoMapping_accepted:
  assumes slave: "pdo_slave bus (dev_slavePosition d) mem" and coe: "supportsCoe d"
    and ok: "direction_ok 0x1C12 (pm_outputs mapping)" "direction_ok 0x1C13 (pm_inputs mapping)"
    and preop: "alState (bus_slaveState bus w (dev_slavePosition d)) = PreOp"
  shows "\<exists>flat' w'. writePdoMapping bus readSii d mapping flat w = (Inr (), flat', w')"
proof -
  have v: "validate_direction (pm_outputs mapping) = Inr ()" "validate_direction (pm_inputs mapping) = Inr ()"
    using direction_okD(1,3)[OF ok(1)] direction_okD(1,3)[OF ok(2)] by (simp_all add: validate_direction_iff)
  from apply_mapping_accepted[OF slave coe ok] obtain flat' w' where
    "apply_mapping bus readSii d mapping flat w = (Inr (), flat', w')" by blast
  then show ?thesis by (simp add: writePdoMapping_def preop v numeral_3_eq_3)
qed

section \<open>Settled module slots\<close>

definition settled :: "sdo_memory \<Rightarrow> nat \<Rightarrow> bool" where
  "settled m sub =
     (case m (0xF050, of_nat sub) of
        None \<Rightarrow> True
      | Some detected \<Rightarrow>
          length detected \<noteq> 4 \<or> list_all (\<lambda>b. b = 0) detected \<or> m (0xF030, of_nat sub) = Some detected)"

definition module_slave :: "'w bus \<Rightarrow> u16 \<Rightarrow> ('w \<Rightarrow> sdo_memory) \<Rightarrow> bool" where
  "module_slave bus pos mem \<longleftrightarrow>
     (\<forall>w i s. case mem w (i, s) of
                Some bs \<Rightarrow> bus_readSdo bus pos i s w = (Inr bs, w)
              | None \<Rightarrow> \<exists>e. bus_readSdo bus pos i s w = (Inl e, w))
   \<and> (\<forall>w i s bs w'. bus_writeSdo bus pos i s bs w = (Inr (), w') \<longrightarrow> mem w' = (mem w)((i, s) \<mapsto> bs))"

lemma module_read:
  assumes "module_slave bus pos mem"
  obtains e where "mem w (i, s) = None" "bus_readSdo bus pos i s w = (Inl e, w)"
    | bs where "mem w (i, s) = Some bs" "bus_readSdo bus pos i s w = (Inr bs, w)"
proof -
  have "case mem w (i, s) of
          Some bs \<Rightarrow> bus_readSdo bus pos i s w = (Inr bs, w)
        | None \<Rightarrow> \<exists>e. bus_readSdo bus pos i s w = (Inl e, w)"
    using assms unfolding module_slave_def by (elim conjE allE)
  then show ?thesis using that by (cases "mem w (i, s)") auto
qed

lemma reconcile_failures:
  "length failures \<le> length (snd (fst (reconcile_loop bus pos subs written failures w)))"
proof (induction subs arbitrary: written failures w)
  case (Cons sub subs)
  have more: "length failures \<le> length (snd (fst (reconcile_loop bus pos subs written (failures @ [x]) w)))" for x w
    using Cons[of "failures @ [x]" written w] by simp
  show ?case by (simp add: Cons more split: prod.split sum.split)
qed simp

text \<open>One slot: it either needs nothing, or its detected ident is written.\<close>

lemma reconcile_step:
  assumes slave: "module_slave bus pos mem"
  shows "settled (mem w) sub \<Longrightarrow>
      reconcile_loop bus pos (sub # subs) written failures w = reconcile_loop bus pos subs written failures w"
    and "\<not> settled (mem w) sub \<Longrightarrow>
      \<exists>detected. mem w (0xF050, of_nat sub) = Some detected \<and>
        reconcile_loop bus pos (sub # subs) written failures w =
          (case bus_writeSdo bus pos 0xF030 (of_nat sub) detected w of
             (Inl e, w) \<Rightarrow> reconcile_loop bus pos subs written (failures @ [(sub, e)]) w
           | (Inr _, w) \<Rightarrow> reconcile_loop bus pos subs (written + 1) failures w)"
  by (rule module_read[OF slave, of w "0xF050" "of_nat sub"];
      rule module_read[OF slave, of w "0xF030" "of_nat sub"]; auto simp: settled_def)+

lemma reconcile_settled:
  "module_slave bus pos mem \<Longrightarrow> \<forall>sub \<in> set subs. settled (mem w) sub \<Longrightarrow>
     reconcile_loop bus pos subs written failures w = ((written, failures), w)"
  by (induction subs) (simp_all add: reconcile_step(1) del: reconcile_loop.simps(2))

lemma reconcile_settles_all:
  assumes slave: "module_slave bus pos mem"
  shows "reconcile_loop bus pos subs written [] w = ((n, []), w') \<Longrightarrow>
     (\<forall>s. mem w' (0xF050, s) = mem w (0xF050, s)) \<and> (\<forall>sub. settled (mem w) sub \<longrightarrow> settled (mem w') sub)
     \<and> (\<forall>sub \<in> set subs. settled (mem w') sub)"
proof (induction subs arbitrary: written w)
  case (Cons sub subs)
  show ?case
  proof (cases "settled (mem w) sub")
    case True
    then show ?thesis using Cons reconcile_step(1)[OF slave] by fastforce
  next
    case False
    then obtain detected where d: "mem w (0xF050, of_nat sub) = Some detected"
      and l: "reconcile_loop bus pos (sub # subs) written [] w =
          (case bus_writeSdo bus pos 0xF030 (of_nat sub) detected w of
             (Inl e, w) \<Rightarrow> reconcile_loop bus pos subs written ([] @ [(sub, e)]) w
           | (Inr _, w) \<Rightarrow> reconcile_loop bus pos subs (written + 1) [] w)"
      using reconcile_step(2)[OF slave] by blast
    obtain w1 where w1: "bus_writeSdo bus pos 0xF030 (of_nat sub) detected w = (Inr (), w1)"
      "reconcile_loop bus pos subs (written + 1) [] w1 = ((n, []), w')"
    proof (cases "bus_writeSdo bus pos 0xF030 (of_nat sub) detected w")
      case (Pair r w1)
      have "reconcile_loop bus pos subs written [(sub, e)] w1 \<noteq> ((n, []), w')" for e
        using reconcile_failures[of "[(sub, e)]" bus pos subs written w1] by (rule contrapos_pn) simp
      then show thesis
        using Cons.prems l that Pair by (cases r) (auto simp del: reconcile_loop.simps)
    qed
    have m: "mem w1 = (mem w)((0xF030, of_nat sub) \<mapsto> detected)"
      using slave w1(1) unfolding module_slave_def by blast
    have "settled (mem w1) sub" using d by (simp add: settled_def m)
    moreover have "settled (mem w) j \<longrightarrow> settled (mem w1) j" for j
      using d by (auto simp: settled_def m split: option.splits)
    moreover have "mem w1 (0xF050, s) = mem w (0xF050, s)" for s by (simp add: m)
    ultimately show ?thesis using Cons.IH[OF w1(2)] by simp
  qed
qed simp

section \<open>Properties\<close>

text \<open>
  C9: A mapping write that reports success was made in PRE-OP, and the mapping then held for the device
  is the requested one, entry by entry and in order, with every bit offset the exact running sum of the
  widths before it: the 32-bit counters have not wrapped. This is the precondition of the process image.
\<close>

theorem writePdoMapping_verified:
  assumes "writePdoMapping bus readSii d mapping flat w = (Inr (), flat', w')"
  shows "alState (bus_slaveState bus w (dev_slavePosition d)) = PreOp
       \<and> as_requested mapping flat' \<and> mapping_ok flat'"
  using writePdoMapping_success[OF assms] by blast

text \<open>
  C3: The write order is the one a slave demands. On a device that takes entries only while the count
  above them is zero and mapping objects only while their sync manager is cleared, whatever was
  configured before, writing any mapping with distinct objects of the two PDO ranges, at most 255 per
  direction and 255 entries each, succeeds and reads back as requested.
\<close>

theorem writePdoMapping_round_trip:
  assumes "pdo_slave bus (dev_slavePosition d) mem" "supportsCoe d"
    "direction_ok 0x1C12 (pm_outputs mapping)" "direction_ok 0x1C13 (pm_inputs mapping)"
    "alState (bus_slaveState bus w (dev_slavePosition d)) = PreOp"
  shows "\<exists>flat' w'. writePdoMapping bus readSii d mapping flat w = (Inr (), flat', w') \<and> as_requested mapping flat'"
  using writePdoMapping_accepted[OF assms, of readSii flat] by (auto dest: writePdoMapping_success(2))

text \<open>
  Reconciling the module lists is idempotent. After a call that reports success every detected slot
  is configured to its ident, and a second call writes nothing and leaves the device as it is.
\<close>

theorem reconcileDetectedModules_idempotent:
  assumes "module_slave bus pos mem" "reconcileDetectedModules bus pos w = (Inr n, w1)"
  shows "reconcileDetectedModules bus pos w1 = (Inr 0, w1)
       \<and> (\<forall>count. mem w (0xF050, 0) = Some count \<longrightarrow>
            (\<forall>sub \<in> {1..min (unat (decodeEntryCount count)) 255}. settled (mem w1) sub))"
proof (rule module_read[OF assms(1), of w "0xF050" 0])
  fix e assume e: "mem w (0xF050, 0) = None" "bus_readSdo bus pos 0xF050 0 w = (Inl e, w)"
  then show ?thesis using assms(2) by (auto simp: reconcileDetectedModules_def)
next
  fix count assume c: "mem w (0xF050, 0) = Some count" "bus_readSdo bus pos 0xF050 0 w = (Inr count, w)"
  let ?subs = "[1..<min (unat (decodeEntryCount count)) 255 + 1]"
  obtain written failures w2 where l: "reconcile_loop bus pos ?subs 0 [] w = ((written, failures), w2)"
    by (metis surj_pair)
  then have "failures = []" "w2 = w1"
    using assms(2) c(2) by (auto simp: reconcileDetectedModules_def Let_def simp del: upt_Suc split: if_splits)
  with l have l': "reconcile_loop bus pos ?subs 0 [] w = ((written, []), w1)" by simp
  from reconcile_settles_all[OF assms(1) l']
  have s: "\<forall>sub \<in> set ?subs. settled (mem w1) sub" and m: "mem w1 (0xF050, 0) = Some count"
    using c(1) by auto
  have r: "bus_readSdo bus pos 0xF050 0 w1 = (Inr count, w1)"
    by (rule module_read[OF assms(1), of w1 "0xF050" 0]) (use m in simp_all)
  have "reconcileDetectedModules bus pos w1 = (Inr 0, w1)"
    using reconcile_settled[OF assms(1) s, of 0 "[]"]
    by (simp add: reconcileDetectedModules_def r Let_def del: upt_Suc)
  moreover have "set ?subs = {1..min (unat (decodeEntryCount count)) 255}" by auto
  ultimately show ?thesis using s c(1) by simp
qed

subsection \<open>A concrete slave\<close>

definition example_slave :: "sdo_memory bus" where
  "example_slave =
     \<lparr>bus_readSdo = (\<lambda>pos i s m. (case m (i, s) of Some bs \<Rightarrow> Inr bs | None \<Rightarrow> Inl ''0x06020000'', m)),
      bus_writeSdo = (\<lambda>pos i s bs m.
        if i = 0xF030 \<or> permits m i s then (Inr (), m((i, s) \<mapsto> bs)) else (Inl ''0x08000022'', m)),
      bus_readSdoComplete = (\<lambda>pos i m. (Inl ''0x06020000'', m)),
      bus_slaveState = (\<lambda>m pos. 2),
      bus_others = (\<lambda>n. n)\<rparr>"

definition example_pdo_device :: Device where
  "example_pdo_device =
     \<lparr>dev_slavePosition = 1, dev_mailboxProtocols = 4, dev_parameters = [], dev_arena = [], dev_retiredMaps = [],
      dev_caSupport = CaUnknown, dev_declaredSubindexReads = DsrUnknown\<rparr>"

definition example_mapping :: PdoMapping where
  "example_mapping =
     \<lparr>pm_outputs = [\<lparr>pmo_pdoIndex = 0x1600, pmo_entries =
         [\<lparr>pme_index = 0x6040, pme_subindex = 0, pme_bitLength = 16, pme_bitOffset = 0\<rparr>,
          \<lparr>pme_index = 0x6060, pme_subindex = 0, pme_bitLength = 8, pme_bitOffset = 16\<rparr>]\<rparr>],
      pm_inputs = [\<lparr>pmo_pdoIndex = 0x1A00, pmo_entries =
         [\<lparr>pme_index = 0x6041, pme_subindex = 0, pme_bitLength = 16, pme_bitOffset = 0\<rparr>]\<rparr>]\<rparr>"

definition example_flat :: FlatPdoMapping where
  "example_flat = \<lparr>fpm_outputs = [], fpm_inputs = [], fpm_outputBits = 0, fpm_inputBits = 0\<rparr>"

definition example_modules :: sdo_memory where
  "example_modules = [(0xF050, 0) \<mapsto> [2], (0xF050, 1) \<mapsto> [1, 2, 3, 4], (0xF050, 2) \<mapsto> [0, 0, 0, 0]]"

definition example_reader :: "sdo_memory sii_reader" where
  "example_reader = (\<lambda>pos m. (Inl ''no answer'', m))"

lemma example_slave_pdo: "pdo_slave example_slave pos (\<lambda>m. m)"
  by (simp add: pdo_slave_def example_slave_def)

lemma example_slave_modules: "module_slave example_slave pos (\<lambda>m. m)"
  by (auto simp: module_slave_def example_slave_def split: option.splits if_splits)

lemma example_request:
  "supportsCoe example_pdo_device" "alState (bus_slaveState example_slave w pos) = PreOp"
  "direction_ok 0x1C12 (pm_outputs example_mapping)" "direction_ok 0x1C13 (pm_inputs example_mapping)"
  by (simp_all add: supportsCoe_def example_pdo_device_def alState_def al_of_raw_def example_slave_def
        direction_ok_def example_mapping_def pdo_of_def is_rx_def is_tx_def)

theorem writePdoMapping_verified_witness:
  "\<exists>flat' w'. writePdoMapping example_slave example_reader example_pdo_device example_mapping example_flat Map.empty
                = (Inr (), flat', w') \<and> as_requested example_mapping flat' \<and> mapping_ok flat'"
  using writePdoMapping_accepted[OF example_slave_pdo example_request(1,3,4,2), of example_reader example_flat Map.empty]
  by (auto dest: writePdoMapping_verified)

theorem writePdoMapping_round_trip_witness:
  "\<exists>flat' w'. writePdoMapping example_slave example_reader example_pdo_device example_mapping example_flat Map.empty
                = (Inr (), flat', w') \<and> as_requested example_mapping flat'"
  by (rule writePdoMapping_round_trip[OF example_slave_pdo example_request(1,3,4,2)])

theorem reconcileDetectedModules_idempotent_witness:
  "reconcileDetectedModules example_slave 1 example_modules = (Inr 1, example_modules((0xF030, 1) \<mapsto> [1, 2, 3, 4]))
   \<and> reconcileDetectedModules example_slave 1 (example_modules((0xF030, 1) \<mapsto> [1, 2, 3, 4]))
       = (Inr 0, example_modules((0xF030, 1) \<mapsto> [1, 2, 3, 4]))"
proof -
  have two: "[Suc 0..<3] = [1, 2]" by code_simp
  have "reconcileDetectedModules example_slave 1 example_modules
      = (Inr 1, example_modules((0xF030, 1) \<mapsto> [1, 2, 3, 4]))"
    by (simp add: reconcileDetectedModules_def decodeEntryCount_def example_slave_def example_modules_def two
          Let_def del: upt_Suc)
  then show ?thesis using reconcileDetectedModules_idempotent[OF example_slave_modules] by blast
qed

end
