(* ===== verification/Device_Manager.thy ===== *)
theory Device_Manager
  imports Device_Mapping Step_System
begin

text \<open>
  The control plane (\<^verbatim>\<open>libs/node/device_manager.cc\<close>): bringing the bus up and down, scanning, mapping the
  process image, and driving devices through the EtherCAT states. Every operation holds
  \<^verbatim>\<open>busOperationMutex_\<close> for its whole run, so operations are functions on the manager's state. The
  fieldbus driver is a parameter. So are whether the real-time loop leaves its cycle in time and the
  enumeration of one device's dictionary (\<^verbatim>\<open>Device::initializeParameters\<close>, whose cache and ESI lookups are
  file I/O); nothing is assumed of either.
\<close>

section \<open>State\<close>

record ManagedDevice =
  md_device :: Device
  md_vendorId :: u32
  md_flatPdoMapping :: FlatPdoMapping
  md_parametersUnavailable :: bool

abbreviation md_position :: "ManagedDevice \<Rightarrow> u16" where
  "md_position d \<equiv> dev_slavePosition (md_device d)"

record DeviceSet =
  ds_driver :: bool
  ds_devices :: "ManagedDevice list"
  ds_topologyGeneration :: u64

datatype held_back = HeldImage ProcessImage | HeldSet DeviceSet

record Manager =
  dm_currentSet :: DeviceSet
  dm_pd :: ProcessData
  dm_abandoned :: "held_back list"
  dm_topologyGeneration :: u64
  dm_processImageGeneration :: u64
  dm_observedExchanging :: "u16 list"
  dm_observedGeneration :: u64
  dm_recorderCapacity :: nat
  dm_readObjectDictionaryOnPreop :: bool

record 'w fieldbus =
  fb_bus :: "'w bus"
  fb_readSii :: "'w sii_reader"
  fb_init :: "('w, string, unit) io"
  fb_scan :: "('w, string, int) io"
  fb_vendorId :: "'w \<Rightarrow> u16 \<Rightarrow> u32"
  fb_mailboxProtocols :: "'w \<Rightarrow> u16 \<Rightarrow> u16"
  fb_configureProcessData :: "('w, string, unit) io"
  fb_processDataLayout :: "'w \<Rightarrow> PdoLayout \<times> 'w"
  fb_stop :: "'w \<Rightarrow> 'w"
  fb_readStates :: "u16 list \<Rightarrow> ('w, string, SlaveStateRaw list) io"
  fb_transitionToState :: "u16 list \<Rightarrow> EtherCatState option \<Rightarrow> EtherCatState \<Rightarrow> 'w \<Rightarrow> 'w"
  fb_stateChangeRefusal :: "'w \<Rightarrow> string option"
  fb_leavesCycle :: "'w \<Rightarrow> bool \<times> 'w"
  fb_initializeParameters :: "ManagedDevice \<Rightarrow> 'w \<Rightarrow> ManagedDevice \<times> 'w"

datatype manager_error =
    AlreadyInitialised
  | NoDriver
  | NoDevices
  | CycleStalled
  | DriverError string
  | MappingError mapping_error
  | ImageError image_error
  | UnknownPosition u16
  | IllegalTransition u16 EtherCatState EtherCatState
  | StateChangeRefused string
  | AutoConfigureFailed manager_error
  | RestartStopped EtherCatState manager_error

type_synonym ('w, 'a) managed = "('w \<times> Manager, manager_error, 'a) io"

definition on_bus :: "('w, string, 'a) io \<Rightarrow> ('w, 'a) managed" where
  "on_bus f = (\<lambda>(w, m). case f w of (Inl e, w) \<Rightarrow> (Inl (DriverError e), w, m) | (Inr a, w) \<Rightarrow> (Inr a, w, m))"

section \<open>Sets and targets\<close>

definition set_find :: "DeviceSet \<Rightarrow> u16 \<Rightarrow> ManagedDevice option" where
  "set_find devs slavePosition = find (\<lambda>d. md_position d = slavePosition) (ds_devices devs)"

definition publishDeviceSet :: "DeviceSet \<Rightarrow> Manager \<Rightarrow> Manager" where
  "publishDeviceSet devs m = m\<lparr>dm_currentSet := devs\<rparr>"

definition processDataConfigured :: "Manager \<Rightarrow> bool" where
  "processDataConfigured m \<longleftrightarrow> pd_image (dm_pd m) \<noteq> None"

definition resolveTargets :: "u16 list \<Rightarrow> Manager \<Rightarrow> manager_error + u16 list" where
  "resolveTargets positions m =
     (if positions = [] then Inr (map md_position (ds_devices (dm_currentSet m)))
      else case find (\<lambda>pos. set_find (dm_currentSet m) pos = None) positions of
             Some unknown \<Rightarrow> Inl (UnknownPosition unknown)
           | None \<Rightarrow> Inr positions)"

definition device_status :: "'w fieldbus \<Rightarrow> 'w \<Rightarrow> u16 \<Rightarrow> u16" where
  "device_status fb w pos = bus_slaveState (fb_bus fb) w pos"

definition md_exchanges :: "'w fieldbus \<Rightarrow> 'w \<Rightarrow> ManagedDevice \<Rightarrow> bool" where
  "md_exchanges fb w d = exchangesProcessData (device_status fb w (md_position d))"

definition md_mailboxActive :: "'w fieldbus \<Rightarrow> 'w \<Rightarrow> ManagedDevice \<Rightarrow> bool" where
  "md_mailboxActive fb w d \<longleftrightarrow> alState (device_status fb w (md_position d)) \<in> {PreOp, SafeOp, Op}"

section \<open>The expected working counter\<close>

definition wkc_contribution ::
  "'w fieldbus \<Rightarrow> 'w \<Rightarrow> u16 list \<Rightarrow> EtherCatState option \<Rightarrow> ManagedDevice \<Rightarrow> int" where
  "wkc_contribution fb w transitioning target d =
     (let hasOutputs = fpm_outputBits (md_flatPdoMapping d) > 0;
          hasInputs = fpm_inputBits (md_flatPdoMapping d) > 0;
          contribution = workingCounterContribution (device_status fb w (md_position d)) hasOutputs hasInputs
      in case target of
           Some t \<Rightarrow>
             if md_position d \<in> set transitioning
             then min contribution (workingCounterContribution (al_raw t) hasOutputs hasInputs)
             else contribution
         | None \<Rightarrow> contribution)"

definition expectedWkcDuring ::
  "'w fieldbus \<Rightarrow> 'w \<Rightarrow> u16 list \<Rightarrow> EtherCatState option \<Rightarrow> Manager \<Rightarrow> int" where
  "expectedWkcDuring fb w transitioning target m =
     (if \<not> ds_driver (dm_currentSet m) then 0
      else sum_list (map (wkc_contribution fb w transitioning target) (ds_devices (dm_currentSet m))))"

definition updateExpectedWkc :: "'w fieldbus \<Rightarrow> 'w \<times> Manager \<Rightarrow> 'w \<times> Manager" where
  "updateExpectedWkc fb = (\<lambda>(w, m). (w, m\<lparr>dm_pd := (dm_pd m)\<lparr>pd_expectedWkc := expectedWkcDuring fb w [] None m\<rparr>\<rparr>))"

definition lowerExpectedWkc ::
  "'w fieldbus \<Rightarrow> u16 list \<Rightarrow> EtherCatState \<Rightarrow> 'w \<times> Manager \<Rightarrow> 'w \<times> Manager" where
  "lowerExpectedWkc fb positions target = (\<lambda>(w, m).
     let duringTransition = expectedWkcDuring fb w positions (Some target) m
     in if duringTransition < pd_expectedWkc (dm_pd m)
        then (w, m\<lparr>dm_pd := (dm_pd m)\<lparr>pd_expectedWkc := duringTransition\<rparr>\<rparr>)
        else (w, m))"

section \<open>Stopping the exchange and mapping\<close>

text \<open>\<^verbatim>\<open>pauseCycle\<close> takes the image down whatever the outcome of the wait.\<close>

definition unpublish :: "Manager \<Rightarrow> Manager" where
  "unpublish m = m\<lparr>dm_pd := (dm_pd m)\<lparr>pd_image := None\<rparr>\<rparr>"

definition stopExchange :: "'w fieldbus \<Rightarrow> 'w \<times> Manager \<Rightarrow> bool \<times> 'w \<times> Manager" where
  "stopExchange fb = (\<lambda>(w, m).
     let (drained, w) = fb_leavesCycle fb w; m = unpublish m
     in if drained then (True, w, m\<lparr>dm_abandoned := []\<rparr>) else (False, w, m))"

fun read_mappings ::
  "'w fieldbus \<Rightarrow> ManagedDevice list \<Rightarrow> 'w \<Rightarrow> (mapping_error + unit) \<times> ManagedDevice list \<times> 'w" where
  "read_mappings fb [] w = (Inr (), [], w)"
| "read_mappings fb (d # ds) w =
     (case readFlatPdoMapping (fb_bus fb) (fb_readSii fb) (md_device d) w of
        (Inl e, w) \<Rightarrow> (Inl e, d # ds, w)
      | (Inr flat, w) \<Rightarrow>
          let (r, ds, w) = read_mappings fb ds w in (r, d\<lparr>md_flatPdoMapping := flat\<rparr> # ds, w))"

definition image_device_of :: "ManagedDevice \<Rightarrow> image_device" where
  "image_device_of d =
     \<lparr>idev_slavePosition = md_position d, idev_vendorId = md_vendorId d,
      idev_flatPdoMapping = md_flatPdoMapping d,
      idev_findParameter = (\<lambda>index subindex. map_of (dev_parameters (md_device d)) (makeParameterKey index subindex))\<rparr>"

definition set_devices :: "ManagedDevice list \<Rightarrow> Manager \<Rightarrow> Manager" where
  "set_devices ds m = m\<lparr>dm_currentSet := (dm_currentSet m)\<lparr>ds_devices := ds\<rparr>\<rparr>"

definition mapOnce :: "'w fieldbus \<Rightarrow> ('w, ProcessImage) managed" where
  "mapOnce fb = (\<lambda>(w, m).
     case fb_configureProcessData fb w of
       (Inl e, w) \<Rightarrow> (Inl (DriverError e), w, m)
     | (Inr _, w) \<Rightarrow>
         (case read_mappings fb (ds_devices (dm_currentSet m)) w of
            (Inl e, ds, w) \<Rightarrow> (Inl (MappingError e), w, set_devices ds m)
          | (Inr _, ds, w) \<Rightarrow>
              let (layout, w) = fb_processDataLayout fb w
              in (case buildProcessImage layout (map image_device_of ds) of
                    Inl e \<Rightarrow> Inl (ImageError e)
                  | Inr img \<Rightarrow> Inr img, w, set_devices ds m)))"

definition kProcessDataMapAttempts :: nat where
  "kProcessDataMapAttempts = 3"

text \<open>The first attempt, and again after a failure while attempts are left.\<close>

fun map_attempts :: "'w fieldbus \<Rightarrow> nat \<Rightarrow> ('w, ProcessImage) managed" where
  "map_attempts fb 0 s = mapOnce fb s"
| "map_attempts fb (Suc left) s =
     (case mapOnce fb s of
        (Inr img, s) \<Rightarrow> (Inr img, s)
      | (Inl e, s) \<Rightarrow> map_attempts fb left s)"

definition publishImage :: "ProcessImage \<Rightarrow> Manager \<Rightarrow> Manager" where
  "publishImage img m =
     m\<lparr>dm_pd := (dm_pd m)\<lparr>pd_ring := ring_allocate (pi_inputBytes img) (pi_outputBytes img)
                                      (dm_recorderCapacity m) (pd_ring (dm_pd m)),
                          pd_generations := pd_generations (dm_pd m) @ [img],
                          pd_image := Some img\<rparr>,
       dm_processImageGeneration := dm_processImageGeneration m + 1\<rparr>"

definition remapProcessImage :: "'w fieldbus \<Rightarrow> ('w, unit) managed" where
  "remapProcessImage fb = (\<lambda>(w, m).
     if \<not> ds_driver (dm_currentSet m) then (Inl NoDriver, w, m)
     else if ds_devices (dm_currentSet m) = [] then (Inl NoDevices, w, m)
     else case stopExchange fb (w, m) of
            (False, s) \<Rightarrow> (Inl CycleStalled, s)
          | (True, s) \<Rightarrow>
              (case map_attempts fb (kProcessDataMapAttempts - 1) s of
                 (Inl e, s) \<Rightarrow> (Inl e, s)
               | (Inr img, w, m) \<Rightarrow> (Inr (), updateExpectedWkc fb (w, publishImage img m))))"

definition configureProcessData :: "'w fieldbus \<Rightarrow> ('w, unit) managed" where
  "configureProcessData fb = remapProcessImage fb"

section \<open>Dictionaries\<close>

fun replace_first :: "('a \<Rightarrow> bool) \<Rightarrow> 'a \<Rightarrow> 'a list \<Rightarrow> 'a list" where
  "replace_first P y [] = []"
| "replace_first P y (x # xs) = (if P x then y # xs else x # replace_first P y xs)"

definition read_missing_one :: "'w fieldbus \<Rightarrow> u16 \<Rightarrow> 'w \<times> Manager \<Rightarrow> 'w \<times> Manager" where
  "read_missing_one fb position = (\<lambda>(w, m).
     case set_find (dm_currentSet m) position of
       None \<Rightarrow> (w, m)
     | Some d \<Rightarrow>
         if \<not> md_mailboxActive fb w d \<or> dev_parameters (md_device d) \<noteq> [] then (w, m)
         else if md_parametersUnavailable d then (w, m)
         else let (d, w) = fb_initializeParameters fb d w
              in (w, set_devices (replace_first (\<lambda>x. md_position x = position) d (ds_devices (dm_currentSet m))) m))"

definition readMissingObjectDictionaries :: "'w fieldbus \<Rightarrow> u16 list \<Rightarrow> 'w \<times> Manager \<Rightarrow> 'w \<times> Manager" where
  "readMissingObjectDictionaries fb positions = (\<lambda>(w, m).
     if \<not> dm_readObjectDictionaryOnPreop m then (w, m)
     else fold (read_missing_one fb) positions (w, m))"

section \<open>Bringing the bus up and down\<close>

definition manager_init :: "'w fieldbus \<Rightarrow> nat \<Rightarrow> bool \<Rightarrow> ('w, unit) managed" where
  "manager_init fb recorderCapacity readDictionaries = (\<lambda>(w, m).
     if ds_driver (dm_currentSet m) then (Inl AlreadyInitialised, w, m)
     else let m = m\<lparr>dm_recorderCapacity := recorderCapacity, dm_readObjectDictionaryOnPreop := readDictionaries\<rparr>
          in case fb_init fb w of
               (Inl e, w) \<Rightarrow> (Inl (DriverError e), w, m)
             | (Inr _, w) \<Rightarrow>
                 let devs = \<lparr>ds_driver = True, ds_devices = [], ds_topologyGeneration = dm_topologyGeneration m\<rparr>;
                     (_, w, m) = stopExchange fb (w, m)
                 in (Inr (), w, publishDeviceSet devs m))"

definition new_device :: "'w fieldbus \<Rightarrow> 'w \<Rightarrow> u16 \<Rightarrow> ManagedDevice" where
  "new_device fb w pos =
     \<lparr>md_device = \<lparr>dev_slavePosition = pos, dev_mailboxProtocols = fb_mailboxProtocols fb w pos,
                   dev_parameters = [], dev_arena = [], dev_retiredMaps = [], dev_caSupport = CaUnknown,
                   dev_declaredSubindexReads = DsrUnknown\<rparr>,
      md_vendorId = fb_vendorId fb w pos,
      md_flatPdoMapping = \<lparr>fpm_outputs = [], fpm_inputs = [], fpm_outputBits = 0, fpm_inputBits = 0\<rparr>,
      md_parametersUnavailable = False\<rparr>"

definition discard_recording :: "Manager \<Rightarrow> Manager" where
  "discard_recording m =
     m\<lparr>dm_pd := (dm_pd m)\<lparr>pd_generations := [], pd_ring := ring_clear (pd_ring (dm_pd m))\<rparr>\<rparr>"

definition mapDevicesAlreadyExchanging :: "'w fieldbus \<Rightarrow> 'w \<times> Manager \<Rightarrow> 'w \<times> Manager" where
  "mapDevicesAlreadyExchanging fb = (\<lambda>(w, m).
     let devices = ds_devices (dm_currentSet m); generation = ds_topologyGeneration (dm_currentSet m)
     in case fb_readStates fb (map md_position devices) w of
          (Inl _, w) \<Rightarrow> (w, m)
        | (Inr _, w) \<Rightarrow>
            let exchanging = map md_position (filter (md_exchanges fb w) devices)
            in if exchanging = [] then (w, m)
               else case remapProcessImage fb (readMissingObjectDictionaries fb exchanging (w, m)) of
                      (Inl _, s) \<Rightarrow> s
                    | (Inr _, w, m) \<Rightarrow>
                        updateExpectedWkc fb
                          (w, m\<lparr>dm_observedExchanging := exchanging, dm_observedGeneration := generation\<rparr>))"

text \<open>
  The count of slaves is narrowed to 16 bits for the loop over positions, whose counter has 16 bits
  too; a count of 65535 would never leave the loop, and no driver's slave list is that long.
\<close>

definition scan :: "'w fieldbus \<Rightarrow> ('w, int) managed" where
  "scan fb = (\<lambda>(w, m).
     if \<not> ds_driver (dm_currentSet m) then (Inl NoDriver, w, m)
     else case stopExchange fb (w, m) of
            (False, s) \<Rightarrow> (Inl CycleStalled, s)
          | (True, w, m) \<Rightarrow>
              let m = discard_recording m
              in case fb_scan fb w of
                   (Inl e, w) \<Rightarrow> (Inl (DriverError e), w, m)
                 | (Inr result, w) \<Rightarrow>
                     let generation = dm_topologyGeneration m + 1;
                         positions = map of_nat [1..<unat (of_int result :: u16) + 1];
                         devs = \<lparr>ds_driver = True, ds_devices = map (new_device fb w) positions,
                                ds_topologyGeneration = generation\<rparr>;
                         m = publishDeviceSet devs (m\<lparr>dm_topologyGeneration := generation\<rparr>)
                     in (Inr result, mapDevicesAlreadyExchanging fb (w, m)))"

definition reset :: "'w fieldbus \<Rightarrow> 'w \<times> Manager \<Rightarrow> 'w \<times> Manager" where
  "reset fb = (\<lambda>(w, m).
     let previous = dm_currentSet m;
         (drained, w, m) = stopExchange fb (w, m);
         m = m\<lparr>dm_pd := (dm_pd m)\<lparr>pd_shortWkcCycles := 0, pd_firstShortWkcNs := 0, pd_lastShortWkcNs := 0\<rparr>\<rparr>;
         m = (if drained then discard_recording m
              else m\<lparr>dm_abandoned := dm_abandoned m @ map HeldImage (pd_generations (dm_pd m)) @ [HeldSet previous],
                     dm_pd := (dm_pd m)\<lparr>pd_generations := []\<rparr>\<rparr>);
         m = m\<lparr>dm_topologyGeneration := dm_topologyGeneration m + 1\<rparr>;
         m = publishDeviceSet
               \<lparr>ds_driver = False, ds_devices = [], ds_topologyGeneration = dm_topologyGeneration m\<rparr> m
     in (if ds_driver previous then fb_stop fb w else w, m))"

section \<open>Device states\<close>

definition followObservedStates :: "'w fieldbus \<Rightarrow> ('w, unit) managed" where
  "followObservedStates fb = (\<lambda>(w, m).
     let devs = dm_currentSet m
     in if \<not> ds_driver devs \<or> ds_devices devs = [] then (Inr (), w, m)
        else case fb_readStates fb (map md_position (ds_devices devs)) w of
               (Inl e, w) \<Rightarrow> (Inl (DriverError e), w, m)
             | (Inr _, w) \<Rightarrow>
                 let exchanging = map md_position (filter (md_exchanges fb w) (ds_devices devs));
                     m = (if dm_observedGeneration m \<noteq> ds_topologyGeneration devs
                          then m\<lparr>dm_observedExchanging := [], dm_observedGeneration := ds_topologyGeneration devs\<rparr>
                          else m);
                     joined = list_ex (\<lambda>p. p \<notin> set (dm_observedExchanging m)) exchanging;
                     m = m\<lparr>dm_observedExchanging := exchanging\<rparr>
                 in if exchanging \<noteq> [] \<and> (joined \<or> \<not> processDataConfigured m)
                    then case remapProcessImage fb (readMissingObjectDictionaries fb exchanging (w, m)) of
                           (Inl e, w, m) \<Rightarrow> (Inl e, w, m\<lparr>dm_observedExchanging := []\<rparr>)
                         | (Inr _, s) \<Rightarrow> (Inr (), updateExpectedWkc fb s)
                    else if exchanging = [] \<and> processDataConfigured m
                    then (Inr (), updateExpectedWkc fb (snd (stopExchange fb (w, m))))
                    else (Inr (), updateExpectedWkc fb (w, m)))"

text \<open>
  The check of every answering target against the state machine, in order; the driver returns one state
  per position. The result lists the targets that do not answer.
\<close>

fun check_targets :: "EtherCatState \<Rightarrow> (u16 \<times> SlaveStateRaw) list \<Rightarrow> manager_error + u16 list" where
  "check_targets targetState [] = Inr []"
| "check_targets targetState ((pos, raw) # rest) =
     (if ssr_reachability raw \<noteq> Answering
      then case check_targets targetState rest of Inl e \<Rightarrow> Inl e | Inr us \<Rightarrow> Inr (pos # us)
      else if \<not> isValidStateTransition (alState (ssr_alStatus raw)) targetState
      then Inl (IllegalTransition pos (alState (ssr_alStatus raw)) targetState)
      else check_targets targetState rest)"

text \<open>Entering an exchange state: the re-map, with the devices that stay in OP dropped around it.\<close>

definition enter_exchange :: "'w fieldbus \<Rightarrow> u16 list \<Rightarrow> u16 list \<Rightarrow> ('w, unit) managed" where
  "enter_exchange fb targets unreachable = (\<lambda>(w, m).
     let devs = dm_currentSet m;
         anyJoining = list_ex (\<lambda>pos. case set_find devs pos of
                                       None \<Rightarrow> False
                                     | Some d \<Rightarrow> \<not> md_exchanges fb w d \<and> pos \<notin> set unreachable) targets
     in if processDataConfigured m \<and> \<not> anyJoining then (Inr (), w, m)
        else let opStayers = map md_position
                   (filter (\<lambda>d. md_position d \<notin> set targets \<and> alState (device_status fb w (md_position d)) = Op)
                     (ds_devices devs));
                 (w, m) = (if opStayers = [] then (w, m)
                           else let (w, m) = lowerExpectedWkc fb opStayers SafeOp (w, m)
                                in (fb_transitionToState fb opStayers None SafeOp w, m))
             in case remapProcessImage fb (w, m) of
                  (Inl e, s) \<Rightarrow> (Inl (AutoConfigureFailed e), s)
                | (Inr _, w, m) \<Rightarrow>
                    (Inr (), if opStayers = [] then w else fb_transitionToState fb opStayers (Some SafeOp) Op w, m))"

definition leave_exchange :: "'w fieldbus \<Rightarrow> u16 list \<Rightarrow> 'w \<times> Manager \<Rightarrow> 'w \<times> Manager" where
  "leave_exchange fb targets = (\<lambda>(w, m).
     if \<not> processDataConfigured m then (w, m)
     else if list_ex (\<lambda>d. md_position d \<notin> set targets \<and> md_exchanges fb w d) (ds_devices (dm_currentSet m))
     then (w, m)
     else snd (stopExchange fb (w, m)))"

definition reconcile_one :: "'w fieldbus \<Rightarrow> Manager \<Rightarrow> DeviceStateInfo \<Rightarrow> 'w \<Rightarrow> 'w" where
  "reconcile_one fb m info w =
     (if dsi_error info \<or> dsi_alState info \<noteq> al_raw PreOp then w
      else case set_find (dm_currentSet m) (dsi_slavePosition info) of
             None \<Rightarrow> w
           | Some d \<Rightarrow> snd (reconcileDetectedModules (fb_bus fb) (md_position d) w))"

definition drive_targets :: "'w fieldbus \<Rightarrow> u16 list \<Rightarrow> EtherCatState \<Rightarrow> ('w, DeviceStateInfo list) managed" where
  "drive_targets fb targets targetState s =
     (let (w, m) = lowerExpectedWkc fb targets targetState s;
          w = fb_transitionToState fb targets None targetState w
      in case fb_readStates fb targets w of
           (Inl e, w) \<Rightarrow> (Inl (DriverError e), w, m)
         | (Inr raw, w) \<Rightarrow>
             let result = map (\<lambda>(pos, r). decodeStateInfo pos r) (zip targets raw);
                 (w, m) = updateExpectedWkc fb (w, m);
                 w = (if targetState = PreOp then fold (reconcile_one fb m) result w else w)
             in (Inr result, readMissingObjectDictionaries fb targets (w, m)))"

definition transitionToState :: "'w fieldbus \<Rightarrow> u16 list \<Rightarrow> EtherCatState \<Rightarrow> ('w, DeviceStateInfo list) managed" where
  "transitionToState fb positions targetState = (\<lambda>(w, m).
     if \<not> ds_driver (dm_currentSet m) then (Inl NoDriver, w, m)
     else if ds_devices (dm_currentSet m) = [] then (Inl NoDevices, w, m)
     else case fb_stateChangeRefusal fb w of
            Some refusal \<Rightarrow> (Inl (StateChangeRefused refusal), w, m)
          | None \<Rightarrow>
              (case resolveTargets positions m of
                 Inl e \<Rightarrow> (Inl e, w, m)
               | Inr targets \<Rightarrow>
                   (case fb_readStates fb targets w of
                      (Inl e, w) \<Rightarrow> (Inl (DriverError e), w, m)
                    | (Inr currentStates, w) \<Rightarrow>
                        (case check_targets targetState (zip targets currentStates) of
                           Inl e \<Rightarrow> (Inl e, w, m)
                         | Inr unreachable \<Rightarrow>
                             if targetState = SafeOp \<or> targetState = Op
                             then io_bind (enter_exchange fb targets unreachable)
                                    (\<lambda>_. drive_targets fb targets targetState) (w, m)
                             else drive_targets fb targets targetState (leave_exchange fb targets (w, m))))))"

section \<open>Restarting\<close>

definition climb_states :: "EtherCatState \<Rightarrow> EtherCatState list" where
  "climb_states targetState = takeWhile (\<lambda>climb. al_raw climb \<le> al_raw targetState) [PreOp, SafeOp, Op]"

definition restart_steps :: "EtherCatState \<Rightarrow> EtherCatState list" where
  "restart_steps targetState = Init # (if targetState = Boot then [Boot] else climb_states targetState)"

record RestartOutcome =
  ro_step :: EtherCatState
  ro_states :: "DeviceStateInfo list"

definition all_reached :: "EtherCatState \<Rightarrow> DeviceStateInfo list \<Rightarrow> bool" where
  "all_reached step states \<longleftrightarrow> list_all (\<lambda>info. \<not> dsi_error info \<and> dsi_alState info = al_raw step) states"

fun restart_loop ::
  "'w fieldbus \<Rightarrow> u16 list \<Rightarrow> EtherCatState list \<Rightarrow> RestartOutcome \<Rightarrow> ('w, RestartOutcome) managed" where
  "restart_loop fb positions [] outcome s = (Inr outcome, s)"
| "restart_loop fb positions (step # steps) outcome s =
     (case transitionToState fb positions step s of
        (Inl e, s) \<Rightarrow> (Inl (RestartStopped step e), s)
      | (Inr states, s) \<Rightarrow>
          let outcome = \<lparr>ro_step = step, ro_states = states\<rparr>
          in if all_reached step states then restart_loop fb positions steps outcome s
             else (Inr outcome, s))"

definition restartToState :: "'w fieldbus \<Rightarrow> u16 list \<Rightarrow> EtherCatState \<Rightarrow> ('w, RestartOutcome) managed" where
  "restartToState fb positions targetState =
     restart_loop fb positions (restart_steps targetState) \<lparr>ro_step = Init, ro_states = []\<rparr>"

section \<open>What every operation keeps\<close>

text \<open>The parts of the state the invariant speaks of.\<close>

definition frame :: "Manager \<Rightarrow> ProcessImage option \<times> ProcessImage list \<times> bool \<times> nat \<times> u64 \<times> u64" where
  "frame m =
     (pd_image (dm_pd m), pd_generations (dm_pd m), ds_driver (dm_currentSet m),
      length (ds_devices (dm_currentSet m)), ds_topologyGeneration (dm_currentSet m), dm_topologyGeneration m)"

text \<open>
  A published image is retained, and with it there are a driver and devices; a set with devices has a
  driver; the published set carries the current generation.
\<close>

fun frame_ok :: "ProcessImage option \<times> ProcessImage list \<times> bool \<times> nat \<times> u64 \<times> u64 \<Rightarrow> bool" where
  "frame_ok (img, gens, drv, n, sg, tg) \<longleftrightarrow>
     (case img of None \<Rightarrow> True | Some i \<Rightarrow> i \<in> set gens \<and> drv \<and> n \<noteq> 0) \<and> (n = 0 \<or> drv) \<and> sg = tg"

definition manager_inv :: "Manager \<Rightarrow> bool" where
  "manager_inv m = frame_ok (frame m)"

lemma frame_inv: "frame m' = frame m \<Longrightarrow> manager_inv m \<Longrightarrow> manager_inv m'"
  by (simp add: manager_inv_def)

lemma frame_set_devices [simp]: "length ds = length (ds_devices (dm_currentSet m)) \<Longrightarrow> frame (set_devices ds m) = frame m"
  by (simp add: frame_def set_devices_def)

lemma frame_updateExpectedWkc [simp]: "frame (snd (updateExpectedWkc fb s)) = frame (snd s)"
  by (simp add: frame_def updateExpectedWkc_def split_beta)

lemma frame_lowerExpectedWkc [simp]: "frame (snd (lowerExpectedWkc fb ps t s)) = frame (snd s)"
  by (simp add: frame_def lowerExpectedWkc_def Let_def split_beta)

lemma length_read_mappings: "read_mappings fb ds w = (r, ds', w') \<Longrightarrow> length ds' = length ds"
  by (induction ds arbitrary: w ds' r) (auto simp: Let_def split: prod.splits sum.splits)

lemma length_replace_first [simp]: "length (replace_first P y xs) = length xs"
  by (induction xs) auto

lemma frame_mapOnce: "mapOnce fb (w, m) = (r, w', m') \<Longrightarrow> frame m' = frame m"
  by (auto simp: mapOnce_def Let_def dest!: length_read_mappings split: prod.splits sum.splits)

lemma frame_map_attempts: "map_attempts fb n (w, m) = (r, w', m') \<Longrightarrow> frame m' = frame m"
proof (induction n arbitrary: w m)
  case (Suc n)
  obtain r1 w1 m1 where 1: "mapOnce fb (w, m) = (r1, w1, m1)" by (metis surj_pair)
  show ?case using Suc.IH[of w1 m1] Suc.prems frame_mapOnce[OF 1] by (cases r1) (auto simp: 1)
qed (simp add: frame_mapOnce)

lemma frame_read_missing_one: "frame (snd (read_missing_one fb p s)) = frame (snd s)"
  by (auto simp: read_missing_one_def Let_def split: prod.splits option.splits)

lemma frame_readMissing [simp]: "frame (snd (readMissingObjectDictionaries fb ps s)) = frame (snd s)"
proof -
  have "frame (snd (fold (read_missing_one fb) ps s)) = frame (snd s)" for s
    by (induction ps arbitrary: s) (simp_all add: frame_read_missing_one)
  then show ?thesis by (auto simp: readMissingObjectDictionaries_def split: prod.splits)
qed

lemma stopExchange_frame:
  assumes "stopExchange fb (w, m) = (b, w', m')"
  shows "frame m' = frame (unpublish m)"
  using assms by (auto simp: stopExchange_def Let_def frame_def split: prod.splits if_splits)

lemma unpublish_inv [simp]: "manager_inv m \<Longrightarrow> manager_inv (unpublish m)"
  by (simp add: manager_inv_def frame_def unpublish_def split: option.splits)

lemma stopExchange_inv: "manager_inv m \<Longrightarrow> stopExchange fb (w, m) = (b, w', m') \<Longrightarrow> manager_inv m'"
  by (rule frame_inv[OF stopExchange_frame]) auto

text \<open>A successful re-map publishes an image; a failed one leaves none.\<close>

lemma remap_cases:
  assumes "remapProcessImage fb (w, m) = (r, w', m')"
  obtains (unmapped) e where "r = Inl e" "m' = m" "\<not> ds_driver (dm_currentSet m) \<or> ds_devices (dm_currentSet m) = []"
    | (stopped) e where "r = Inl e" "frame m' = frame (unpublish m)"
    | (mapped) w1 m1 w2 m2 img where "r = Inr ()" "stopExchange fb (w, m) = (True, w1, m1)"
        "map_attempts fb (kProcessDataMapAttempts - 1) (w1, m1) = (Inr img, w2, m2)"
        "(w', m') = updateExpectedWkc fb (w2, publishImage img m2)" "frame m2 = frame (unpublish m)"
        "ds_driver (dm_currentSet m)" "ds_devices (dm_currentSet m) \<noteq> []"
proof -
  obtain b w1 m1 where 1: "stopExchange fb (w, m) = (b, w1, m1)" by (metis surj_pair)
  obtain r2 w2 m2 where 2: "map_attempts fb (kProcessDataMapAttempts - 1) (w1, m1) = (r2, w2, m2)" by (metis surj_pair)
  have f: "frame m1 = frame (unpublish m)" "frame m2 = frame (unpublish m)"
    using stopExchange_frame[OF 1] frame_map_attempts[OF 2] by auto
  show thesis
  proof (cases "ds_driver (dm_currentSet m) \<and> ds_devices (dm_currentSet m) \<noteq> []")
    case False
    then show thesis using assms unmapped by (auto simp: remapProcessImage_def split: if_splits)
  next
    case True
    then show thesis using assms 1 2 f stopped mapped
      by (cases b; cases r2) (auto simp: remapProcessImage_def)
  qed
qed

lemma publishImage_inv:
  assumes "manager_inv m" "ds_driver (dm_currentSet m)" "ds_devices (dm_currentSet m) \<noteq> []"
  shows "manager_inv (publishImage img m)"
  using assms by (simp add: manager_inv_def frame_def publishImage_def)

lemma remap_inv:
  assumes "manager_inv m" "remapProcessImage fb (w, m) = (r, w', m')"
  shows "manager_inv m'"
  using assms(2)
proof (cases rule: remap_cases)
  case unmapped
  then show ?thesis using assms(1) by simp
next
  case stopped
  then show ?thesis using assms(1) frame_inv unpublish_inv by blast
next
  case (mapped w1 m1 w2 m2 img)
  have "manager_inv m2" using mapped(5) assms(1) frame_inv unpublish_inv by blast
  moreover have "ds_driver (dm_currentSet m2)" "ds_devices (dm_currentSet m2) \<noteq> []"
    using mapped(5-7) by (auto simp: frame_def unpublish_def)
  ultimately have "manager_inv (publishImage img m2)" by (rule publishImage_inv)
  moreover have "frame m' = frame (publishImage img m2)"
    using frame_updateExpectedWkc[of fb "(w2, publishImage img m2)"] by (simp flip: mapped(4))
  ultimately show ?thesis using frame_inv by blast
qed

text \<open>The operations, each from the helpers above.\<close>

lemma snd_inv: "frame (snd s') = frame (snd s) \<Longrightarrow> manager_inv (snd s) \<Longrightarrow> manager_inv (snd s')"
  by (rule frame_inv)

lemma remap_inv_snd: "manager_inv (snd s) \<Longrightarrow> manager_inv (snd (snd (remapProcessImage fb s)))"
  using remap_inv by (metis prod.collapse)

lemma stop_inv_snd: "manager_inv (snd s) \<Longrightarrow> manager_inv (snd (snd (stopExchange fb s)))"
  using stopExchange_inv by (metis prod.collapse)

lemma update_inv [simp]: "manager_inv (snd (updateExpectedWkc fb s)) = manager_inv (snd s)"
  by (simp add: manager_inv_def)

lemma lower_inv [simp]: "manager_inv (snd (lowerExpectedWkc fb ps t s)) = manager_inv (snd s)"
  by (simp add: manager_inv_def)

lemma missing_inv [simp]: "manager_inv (snd (readMissingObjectDictionaries fb ps s)) = manager_inv (snd s)"
  by (simp add: manager_inv_def)

lemma observed_inv [simp]:
  "manager_inv (m\<lparr>dm_observedExchanging := xs\<rparr>) = manager_inv m"
  "manager_inv (m\<lparr>dm_observedGeneration := g\<rparr>) = manager_inv m"
  by (simp_all add: manager_inv_def frame_def)

lemma mapAlready_inv:
  assumes "manager_inv (snd s)"
  shows "manager_inv (snd (mapDevicesAlreadyExchanging fb s))"
proof -
  obtain w m where s: "s = (w, m)" by (cases s)
  have r: "manager_inv (snd (snd (remapProcessImage fb (readMissingObjectDictionaries fb ps (w', m)))))" for ps w'
    by (rule remap_inv_snd) (use assms s in simp)
  show ?thesis using assms r unfolding s mapDevicesAlreadyExchanging_def
    by (simp add: Let_def split_beta split: sum.split)
qed

lemma init_inv:
  assumes "manager_inv (snd s)"
  shows "manager_inv (snd (snd (manager_init fb cap rd s)))"
proof -
  obtain w m where s: "s = (w, m)" by (cases s)
  have f: "manager_inv (publishDeviceSet \<lparr>ds_driver = True, ds_devices = [], ds_topologyGeneration = dm_topologyGeneration m\<rparr> m')"
    if "frame m' = frame (unpublish (m\<lparr>dm_recorderCapacity := cap, dm_readObjectDictionaryOnPreop := rd\<rparr>))" for m'
    using that by (simp add: manager_inv_def frame_def publishDeviceSet_def unpublish_def)
  have c: "manager_inv (m\<lparr>dm_recorderCapacity := cap, dm_readObjectDictionaryOnPreop := rd\<rparr>)"
    using assms s by (simp add: manager_inv_def frame_def)
  show ?thesis
    using assms c f stopExchange_frame unfolding s manager_init_def
    by (fastforce simp: Let_def split: prod.splits sum.splits)
qed

lemma scan_inv:
  assumes "manager_inv (snd s)"
  shows "manager_inv (snd (snd (scan fb s)))"
proof -
  obtain w m where s: "s = (w, m)" by (cases s)
  obtain b w1 m1 where 1: "stopExchange fb (w, m) = (b, w1, m1)" by (metis surj_pair)
  have m1: "manager_inv m1" using stopExchange_inv[OF _ 1] assms s by simp
  have n: "pd_image (dm_pd m1) = None" using stopExchange_frame[OF 1] by (simp add: frame_def unpublish_def)
  have d: "manager_inv (discard_recording m1)"
    using m1 n by (simp add: manager_inv_def frame_def discard_recording_def)
  have p: "manager_inv (snd (mapDevicesAlreadyExchanging fb (w', publishDeviceSet
      \<lparr>ds_driver = True, ds_devices = ds, ds_topologyGeneration = dm_topologyGeneration (discard_recording m1) + 1\<rparr>
      ((discard_recording m1)\<lparr>dm_topologyGeneration := dm_topologyGeneration (discard_recording m1) + 1\<rparr>))))" for ds w'
    by (rule mapAlready_inv) (use n in \<open>simp add: manager_inv_def frame_def publishDeviceSet_def discard_recording_def\<close>)
  show ?thesis using assms m1 d p unfolding s scan_def
    by (auto simp: 1 Let_def simp del: upt_Suc split: prod.splits sum.splits bool.splits)
qed

lemma reset_inv:
  assumes "manager_inv (snd s)"
  shows "manager_inv (snd (reset fb s))"
proof -
  obtain w m where s: "s = (w, m)" by (cases s)
  obtain b w1 m1 where 1: "stopExchange fb (w, m) = (b, w1, m1)" by (metis surj_pair)
  have "pd_image (dm_pd m1) = None" using stopExchange_frame[OF 1] by (simp add: frame_def unpublish_def)
  then show ?thesis unfolding s reset_def
    by (simp add: 1 Let_def manager_inv_def frame_def publishDeviceSet_def discard_recording_def)
qed

lemma follow_inv:
  assumes "manager_inv (snd s)"
  shows "manager_inv (snd (snd (followObservedStates fb s)))"
proof -
  obtain w m where s: "s = (w, m)" by (cases s)
  define obs where "obs = (if dm_observedGeneration m \<noteq> ds_topologyGeneration (dm_currentSet m)
     then m\<lparr>dm_observedExchanging := [], dm_observedGeneration := ds_topologyGeneration (dm_currentSet m)\<rparr> else m)"
  have m: "manager_inv (obs\<lparr>dm_observedExchanging := xs\<rparr>)" for xs using assms s by (simp add: obs_def)
  have r: "manager_inv (snd (snd (remapProcessImage fb
      (readMissingObjectDictionaries fb ps (w', obs\<lparr>dm_observedExchanging := xs\<rparr>)))))" for ps w' xs
    by (rule remap_inv_snd) (simp add: m del: observed_inv)
  have t: "manager_inv (snd (snd (stopExchange fb (w', obs\<lparr>dm_observedExchanging := xs\<rparr>))))" for w' xs
    by (rule stop_inv_snd) (simp add: m del: observed_inv)
  show ?thesis unfolding s followObservedStates_def prod.case Let_def obs_def[symmetric]
    using assms s m r t
    by (auto simp del: observed_inv(2) split: prod.splits sum.splits)
       (metis snd_conv)+
qed

lemma enter_inv:
  assumes "manager_inv (snd s)"
  shows "manager_inv (snd (snd (enter_exchange fb targets us s)))"
proof -
  obtain w m where s: "s = (w, m)" by (cases s)
  have r: "manager_inv (snd (snd (remapProcessImage fb (w', m'))))" if "manager_inv m'" for w' m'
    by (rule remap_inv_snd) (simp add: that)
  have l: "manager_inv (snd (lowerExpectedWkc fb ps SafeOp (w, m)))" for ps using assms s by simp
  show ?thesis unfolding s enter_exchange_def using assms s r l
    by (simp add: Let_def split_beta split: sum.split)
qed

lemma leave_inv: "manager_inv (snd s) \<Longrightarrow> manager_inv (snd (leave_exchange fb targets s))"
  using stop_inv_snd[of s fb] by (auto simp: leave_exchange_def split: prod.splits)

lemma drive_inv:
  assumes "manager_inv (snd s)"
  shows "manager_inv (snd (snd (drive_targets fb targets t s)))"
  using assms by (simp add: drive_targets_def Let_def split_beta split: sum.split)

lemma transition_inv:
  assumes "manager_inv (snd s)"
  shows "manager_inv (snd (snd (transitionToState fb ps t s)))"
proof -
  obtain w m where s: "s = (w, m)" by (cases s)
  have d: "manager_inv (snd (snd (drive_targets fb ts t (leave_exchange fb ts (w', m)))))" for ts w'
    by (rule drive_inv, rule leave_inv) (use assms s in simp)
  have e: "manager_inv (snd (snd (io_bind (enter_exchange fb ts us) (\<lambda>_. drive_targets fb ts t) (w', m))))" for ts us w'
    using enter_inv[of "(w', m)" fb ts us] drive_inv assms s by (auto simp: io_bind_def split: prod.splits sum.splits)
  show ?thesis unfolding s transitionToState_def using assms s d e
    by (auto split: prod.split sum.split option.split)
qed

lemma restart_inv: "manager_inv (snd s) \<Longrightarrow> manager_inv (snd (snd (restartToState fb ps t s)))"
proof -
  have "manager_inv (snd s) \<Longrightarrow> manager_inv (snd (snd (restart_loop fb ps steps out s)))" for steps out s
  proof (induction steps arbitrary: out s)
    case (Cons step steps)
    have "manager_inv (snd (snd (transitionToState fb ps step s)))" by (rule transition_inv[OF Cons.prems])
    then show ?case using Cons.IH by (auto simp: Let_def split: prod.splits sum.splits)
  qed simp
  then show "manager_inv (snd s) \<Longrightarrow> ?thesis" by (simp add: restartToState_def)
qed

section \<open>Sequences of operations\<close>

text \<open>Any operation, and between two of them any change of the world outside the manager.\<close>

inductive mgr_step :: "'w fieldbus \<Rightarrow> 'w \<times> Manager \<Rightarrow> 'w \<times> Manager \<Rightarrow> bool" for fb where
  do_init: "mgr_step fb s (snd (manager_init fb cap rd s))"
| do_scan: "mgr_step fb s (snd (scan fb s))"
| do_reset: "mgr_step fb s (reset fb s)"
| do_configure: "mgr_step fb s (snd (configureProcessData fb s))"
| do_transition: "mgr_step fb s (snd (transitionToState fb ps t s))"
| do_restart: "mgr_step fb s (snd (restartToState fb ps t s))"
| do_follow: "mgr_step fb s (snd (followObservedStates fb s))"
| world_moves: "mgr_step fb (w, m) (w', m)"

lemma mgr_step_inv: "mgr_step fb s s' \<Longrightarrow> manager_inv (snd s) \<Longrightarrow> manager_inv (snd s')"
  by (induction rule: mgr_step.induct)
     (auto simp: init_inv scan_inv reset_inv transition_inv restart_inv follow_inv configureProcessData_def remap_inv_snd)

interpretation mgr: step_system "mgr_step fb" "\<lambda>s. manager_inv (snd s)" "\<lambda>s. True" for fb
  by unfold_locales (auto intro: mgr_step_inv)

definition manager_initial :: "ProcessData \<Rightarrow> Manager" where
  "manager_initial pd =
     \<lparr>dm_currentSet = \<lparr>ds_driver = False, ds_devices = [], ds_topologyGeneration = 0\<rparr>,
      dm_pd = pd\<lparr>pd_image := None, pd_generations := []\<rparr>, dm_abandoned = [], dm_topologyGeneration = 0,
      dm_processImageGeneration = 0, dm_observedExchanging = [], dm_observedGeneration = 0,
      dm_recorderCapacity = 0, dm_readObjectDictionaryOnPreop = False\<rparr>"

lemma manager_initial_inv: "manager_inv (manager_initial pd)"
  by (simp add: manager_inv_def frame_def manager_initial_def)

section \<open>What a re-map publishes\<close>

lemma read_mappings_ok:
  "read_mappings fb ds w = (Inr (), ds', w') \<Longrightarrow>
     list_all (\<lambda>d. supportsCoe (md_device d) \<longrightarrow> mapping_ok (md_flatPdoMapping d)) ds'"
proof (induction ds arbitrary: w ds')
  case (Cons d ds)
  then obtain flat w1 ds1 where
    "readFlatPdoMapping (fb_bus fb) (fb_readSii fb) (md_device d) w = (Inr flat, w1)"
    "read_mappings fb ds w1 = (Inr (), ds1, w')" "ds' = d\<lparr>md_flatPdoMapping := flat\<rparr> # ds1"
    by (auto simp: Let_def split: prod.splits sum.splits)
  then show ?case using Cons.IH readFlatPdoMapping_coe by fastforce
qed auto

definition built_from :: "ManagedDevice list \<Rightarrow> ProcessImage \<Rightarrow> bool" where
  "built_from ds img \<longleftrightarrow>
     (\<exists>layout. buildProcessImage layout (map image_device_of ds) = Inr img)
   \<and> list_all (\<lambda>d. supportsCoe (md_device d) \<longrightarrow> mapping_ok (md_flatPdoMapping d)) ds"

lemma mapOnce_built:
  assumes "mapOnce fb (w, m) = (Inr img, w', m')"
  shows "built_from (ds_devices (dm_currentSet m')) img \<and> dm_recorderCapacity m' = dm_recorderCapacity m"
proof -
  obtain w1 where 1: "fb_configureProcessData fb w = (Inr (), w1)"
    using assms by (auto simp: mapOnce_def split: prod.splits sum.splits)
  obtain ds w2 where 2: "read_mappings fb (ds_devices (dm_currentSet m)) w1 = (Inr (), ds, w2)"
    using assms 1 by (auto simp: mapOnce_def split: prod.splits sum.splits)
  obtain layout w3 where 3: "fb_processDataLayout fb w2 = (layout, w3)" by (cases "fb_processDataLayout fb w2")
  have "buildProcessImage layout (map image_device_of ds) = Inr img" "m' = set_devices ds m"
    using assms 1 2 3 by (auto simp: mapOnce_def split: sum.splits)
  then show ?thesis using read_mappings_ok[OF 2] by (auto simp: built_from_def set_devices_def)
qed

lemma mapOnce_capacity: "mapOnce fb (w, m) = (r, w', m') \<Longrightarrow> dm_recorderCapacity m' = dm_recorderCapacity m"
  by (auto simp: mapOnce_def Let_def set_devices_def split: prod.splits sum.splits)

lemma map_attempts_built:
  "map_attempts fb n (w, m) = (Inr img, w', m') \<Longrightarrow>
     built_from (ds_devices (dm_currentSet m')) img \<and> dm_recorderCapacity m' = dm_recorderCapacity m"
proof (induction n arbitrary: w m)
  case (Suc n)
  obtain r1 w1 m1 where 1: "mapOnce fb (w, m) = (r1, w1, m1)" by (metis surj_pair)
  show ?case
    using Suc.IH[of w1 m1] Suc.prems mapOnce_built[of fb w m img w1 m1] mapOnce_capacity[OF 1] 1 by (cases r1) auto
qed (simp add: mapOnce_built)

section \<open>Restart steps\<close>

lemma restart_loop_outcome:
  "restart_loop fb ps steps out s = (Inr out', s') \<Longrightarrow> steps \<noteq> [] \<Longrightarrow>
     ro_step out' \<in> set steps \<and> (all_reached (ro_step out') (ro_states out') \<longrightarrow> ro_step out' = last steps)"
proof (induction steps arbitrary: out s)
  case (Cons step steps)
  then show ?case
    by (cases "steps = []") (fastforce simp: Let_def split: prod.splits sum.splits if_splits)+
qed simp

section \<open>Properties\<close>

text \<open>
  C4: Whatever sequence of control-plane operations ran, whether they failed or not, whatever the bus
  answered and whether or not the real-time loop drained: a published image is one of the retained
  ones, and the set published with it has a driver and devices, which the real-time thread relies on
  without checking; and the published set carries the current topology generation.
\<close>

theorem manager_image_backed:
  assumes "(mgr_step fb)\<^sup>*\<^sup>* (w, manager_initial pd) (w', m)"
  shows "(case pd_image (dm_pd m) of
            None \<Rightarrow> True
          | Some img \<Rightarrow> img \<in> set (pd_generations (dm_pd m)) \<and> ds_driver (dm_currentSet m)
                        \<and> ds_devices (dm_currentSet m) \<noteq> [])
       \<and> ds_topologyGeneration (dm_currentSet m) = dm_topologyGeneration m"
  using mgr.reachable_inv[OF assms] manager_initial_inv[of pd]
  by (simp add: manager_inv_def frame_def split: option.splits)

text \<open>
  C10: A transition the EtherCAT state machine does not allow never reaches the mapper or the bus. If
  one answering target is in a state from which the requested one is not allowed, the call fails, no
  state is commanded, and the manager is exactly as it was, its image still published.
\<close>

theorem transitionToState_refuses_illegal:
  assumes "ds_driver (dm_currentSet m)" "ds_devices (dm_currentSet m) \<noteq> []" "fb_stateChangeRefusal fb w = None"
    "resolveTargets positions m = Inr targets" "fb_readStates fb targets w = (Inr states, w1)"
    "(pos, raw) \<in> set (zip targets states)" "ssr_reachability raw = Answering"
    "\<not> isValidStateTransition (alState (ssr_alStatus raw)) target"
  shows "\<exists>p s. transitionToState fb positions target (w, m) = (Inl (IllegalTransition p s target), w1, m)
               \<and> \<not> isValidStateTransition s target"
proof -
  have "(pos, raw) \<in> set xs \<Longrightarrow>
      \<exists>p s. check_targets target xs = Inl (IllegalTransition p s target) \<and> \<not> isValidStateTransition s target" for xs
    by (induction xs) (use assms(7,8) in \<open>auto split: sum.splits\<close>)
  from this[OF assms(6)] show ?thesis using assms(1-5) by (auto simp: transitionToState_def)
qed

text \<open>
  C38: When the real-time loop does not leave its cycle in time, a scan and a re-map are refused, but
  not without effect: the image has been taken down and is not put back, so process data is no longer
  exchanged until a later re-map succeeds. Everything else of the manager is unchanged.
\<close>

theorem stalled_cycle_stops_exchange:
  assumes "ds_driver (dm_currentSet m)" "ds_devices (dm_currentSet m) \<noteq> []" "fb_leavesCycle fb w = (False, w1)"
  shows "scan fb (w, m) = (Inl CycleStalled, w1, unpublish m)
       \<and> configureProcessData fb (w, m) = (Inl CycleStalled, w1, unpublish m)
       \<and> \<not> processDataConfigured (unpublish m)"
  using assms
  by (simp add: scan_def configureProcessData_def remapProcessImage_def stopExchange_def processDataConfigured_def unpublish_def)

text \<open>
  C37: A successful re-map publishes, as the newest retained image, exactly the image built from the
  mappings the devices now have, each one read over CoE having exact running offsets, and starts an
  empty recording of the image's size.
\<close>

theorem configureProcessData_publishes:
  assumes "configureProcessData fb (w, m) = (Inr (), w', m')"
  shows "\<exists>img. pd_image (dm_pd m') = Some img \<and> built_from (ds_devices (dm_currentSet m')) img
             \<and> pd_generations (dm_pd m') = pd_generations (dm_pd m) @ [img]
             \<and> (dm_recorderCapacity m = 0 \<or> ring_holds (pd_ring (dm_pd m')) [])"
  using assms unfolding configureProcessData_def
proof (cases rule: remap_cases)
  case (mapped w1 m1 w2 m2 img)
  have cap: "dm_recorderCapacity m1 = dm_recorderCapacity m"
    using mapped(2) by (auto simp: stopExchange_def Let_def unpublish_def split: prod.splits if_splits)
  have b: "built_from (ds_devices (dm_currentSet m2)) img" "dm_recorderCapacity m2 = dm_recorderCapacity m"
    using map_attempts_built[OF mapped(3)] cap by simp_all
  have g: "pd_generations (dm_pd m2) = pd_generations (dm_pd m)"
    using mapped(5) by (simp add: frame_def unpublish_def)
  show ?thesis using mapped(4) b g
    by (cases "dm_recorderCapacity m = 0") (auto simp: updateExpectedWkc_def publishImage_def ring_holds_allocate)
qed simp_all

text \<open>
  A restart walks a legal path: every step is an allowed transition from the one before it. When
  it returns an outcome whose devices all arrived, the step reported is the requested state.
\<close>

theorem restartToState_outcome:
  assumes "restartToState fb positions target s = (Inr outcome, s')" "target \<in> {Init, PreOp, Boot, SafeOp, Op}"
  shows "(all_reached (ro_step outcome) (ro_states outcome) \<longrightarrow> ro_step outcome = target)
       \<and> ro_step outcome \<in> set (restart_steps target)
       \<and> (\<forall>i < length (restart_steps target) - 1.
            isValidStateTransition (restart_steps target ! i) (restart_steps target ! Suc i))"
proof -
  have steps: "restart_steps target \<noteq> []" "last (restart_steps target) = target"
    "successively isValidStateTransition (restart_steps target)"
    using assms(2) by (auto simp: restart_steps_def climb_states_def isValidStateTransition_def kValidStateTransitions_def word_le_nat_alt)
  show ?thesis
    using restart_loop_outcome[OF assms(1)[unfolded restartToState_def] steps(1)] steps(2,3)
    by (simp add: successively_conv_nth)
qed

text \<open>
  The working counter expected during a transition is never above the live figure, so lowering the
  expectation first cannot make a healthy bus look short; both lie between 0 and three per device.
\<close>

theorem expectedWkc_never_predicts_rise:
  "0 \<le> expectedWkcDuring fb w transitioning target m
   \<and> expectedWkcDuring fb w transitioning target m \<le> expectedWkcDuring fb w [] None m
   \<and> expectedWkcDuring fb w [] None m \<le> 3 * int (length (ds_devices (dm_currentSet m)))"
proof -
  have one: "0 \<le> wkc_contribution fb w transitioning target d"
    "wkc_contribution fb w transitioning target d \<le> wkc_contribution fb w [] None d"
    "wkc_contribution fb w [] None d \<le> 3" for d
    by (auto simp: wkc_contribution_def Let_def workingCounterContribution_exchanges split: option.splits)
  have "0 \<le> sum_list (map (wkc_contribution fb w transitioning target) ds)
      \<and> sum_list (map (wkc_contribution fb w transitioning target) ds) \<le> sum_list (map (wkc_contribution fb w [] None) ds)
      \<and> sum_list (map (wkc_contribution fb w [] None) ds) \<le> 3 * int (length ds)" for ds
  proof (induction ds)
    case (Cons d ds)
    then show ?case using one[of d] by simp
  qed simp
  then show ?thesis by (simp add: expectedWkcDuring_def)
qed

subsection \<open>A bus of one slave\<close>

text \<open>The world is the AL status of the slave at position 1, which has no object dictionary and no PDOs.\<close>

definition example_sdo :: "u16 bus" where
  "example_sdo =
     \<lparr>bus_readSdo = (\<lambda>pos i s w. (Inl ''0x06020000'', w)), bus_writeSdo = (\<lambda>pos i s bs w. (Inl ''0x06020000'', w)),
      bus_readSdoComplete = (\<lambda>pos i w. (Inl ''0x06020000'', w)), bus_slaveState = (\<lambda>w pos. w), bus_others = (\<lambda>n. n)\<rparr>"

definition example_fieldbus :: "u16 fieldbus" where
  "example_fieldbus =
     \<lparr>fb_bus = example_sdo, fb_readSii = (\<lambda>pos w. (Inl ''no answer'', w)),
      fb_init = (\<lambda>w. (Inr (), w)), fb_scan = (\<lambda>w. (Inr 1, w)), fb_vendorId = (\<lambda>w pos. 0),
      fb_mailboxProtocols = (\<lambda>w pos. 4), fb_configureProcessData = (\<lambda>w. (Inr (), w)),
      fb_processDataLayout = (\<lambda>w. (\<lparr>pl_outputBytes = 0, pl_inputBytes = 0,
        pl_slaves = [\<lparr>sio_slavePosition = 1, sio_outputOffset = 0, sio_outputBytes = 0, sio_inputOffset = 0,
                     sio_inputBytes = 0\<rparr>], pl_expectedWkc = 0\<rparr>, w)),
      fb_stop = (\<lambda>w. w),
      fb_readStates = (\<lambda>ps w. (Inr (map (\<lambda>_. \<lparr>ssr_alStatus = w, ssr_alStatusCode = 0, ssr_reachability = Answering\<rparr>) ps), w)),
      fb_transitionToState = (\<lambda>ps from t w. al_raw t), fb_stateChangeRefusal = (\<lambda>w. None),
      fb_leavesCycle = (\<lambda>w. (True, w)), fb_initializeParameters = (\<lambda>d w. (d, w))\<rparr>"

definition example_manager :: Manager where
  "example_manager =
     (manager_initial example_pd)\<lparr>dm_currentSet :=
        \<lparr>ds_driver = True, ds_devices = [new_device example_fieldbus 1 1], ds_topologyGeneration = 0\<rparr>,
        dm_recorderCapacity := 8\<rparr>"

lemmas example_bus_defs =
  example_manager_def manager_initial_def example_fieldbus_def example_sdo_def new_device_def

lemma example_scanned:
  "(mgr_step example_fieldbus)\<^sup>*\<^sup>* (1, manager_initial example_pd)
     (snd (scan example_fieldbus (snd (manager_init example_fieldbus 8 False (1, manager_initial example_pd)))))"
  by (rule rtranclp.rtrancl_into_rtrancl[where r = "mgr_step example_fieldbus", OF r_into_rtranclp do_scan],
      rule do_init)

theorem manager_image_backed_witness:
  "\<exists>w' m. snd (scan example_fieldbus (snd (manager_init example_fieldbus 8 False (1, manager_initial example_pd)))) = (w', m)
     \<and> ds_topologyGeneration (dm_currentSet m) = dm_topologyGeneration m"
  using example_scanned manager_image_backed by (metis surj_pair)

theorem transitionToState_refuses_illegal_witness:
  "\<exists>p s. transitionToState example_fieldbus [1] SafeOp (3, example_manager)
           = (Inl (IllegalTransition p s SafeOp), 3, example_manager)"
proof -
  have "resolveTargets [1] example_manager = Inr [1]"
    by (simp add: resolveTargets_def set_find_def example_bus_defs)
  moreover have "fb_readStates example_fieldbus [1] 3
      = (Inr [\<lparr>ssr_alStatus = 3, ssr_alStatusCode = 0, ssr_reachability = Answering\<rparr>], 3)"
    by (simp add: example_fieldbus_def)
  moreover have "\<not> isValidStateTransition (alState 3) SafeOp"
    by (simp add: alState_def al_of_raw_def isValidStateTransition_def kValidStateTransitions_def)
  ultimately show ?thesis
    using transitionToState_refuses_illegal[of example_manager example_fieldbus 3 "[1]" "[1]"
        "[\<lparr>ssr_alStatus = 3, ssr_alStatusCode = 0, ssr_reachability = Answering\<rparr>]" 3 1
        "\<lparr>ssr_alStatus = 3, ssr_alStatusCode = 0, ssr_reachability = Answering\<rparr>" SafeOp]
    by (auto simp: example_bus_defs)
qed

theorem stalled_cycle_stops_exchange_witness:
  "scan (example_fieldbus\<lparr>fb_leavesCycle := \<lambda>w. (False, w)\<rparr>) (8, example_manager)
     = (Inl CycleStalled, 8, unpublish example_manager)"
  using stalled_cycle_stops_exchange[of example_manager "example_fieldbus\<lparr>fb_leavesCycle := \<lambda>w. (False, w)\<rparr>" 8 8]
  by (simp add: example_bus_defs)

lemma example_mapping_read:
  "read_mappings example_fieldbus [new_device example_fieldbus 1 1] w
     = (Inr (), [new_device example_fieldbus 1 1], w)"
  by (simp add: readFlatPdoMapping_def readPdoMapping_def readPdoAssignment_def supportsCoe_def example_bus_defs
        io_bind_def flat_entries_def sum_bits_def)

lemma example_image:
  "\<exists>img. buildProcessImage (fst (fb_processDataLayout example_fieldbus w))
           (map image_device_of [new_device example_fieldbus 1 1]) = Inr img"
  by (simp add: example_fieldbus_def new_device_def image_device_of_def buildProcessImage_def build_device_def
        appendEntries_def kMaxProcessImageBytes_def Let_def)

lemma example_mapped:
  assumes "ds_devices (dm_currentSet m) = [new_device example_fieldbus 1 1]"
  shows "\<exists>img s'. mapOnce example_fieldbus (w, m) = (Inr img, s')"
proof -
  have c: "fb_configureProcessData example_fieldbus w = (Inr (), w)"
    "snd (fb_processDataLayout example_fieldbus w) = w" by (simp_all add: example_fieldbus_def)
  obtain img where img: "buildProcessImage (fst (fb_processDataLayout example_fieldbus w))
      (map image_device_of [new_device example_fieldbus 1 1]) = Inr img"
    using example_image by blast
  obtain layout where l: "fb_processDataLayout example_fieldbus w = (layout, w)"
    using c(2) by (metis prod.collapse)
  then have "buildProcessImage layout (map image_device_of [new_device example_fieldbus 1 1]) = Inr img"
    using img by simp
  then show ?thesis
    by (simp add: mapOnce_def c(1) assms example_mapping_read l del: read_mappings.simps)
qed

lemma example_configured: "\<exists>w' m'. configureProcessData example_fieldbus (2, example_manager) = (Inr (), w', m')"
proof -
  obtain m1 where stop: "stopExchange example_fieldbus (2, example_manager) = (True, 2, m1)"
    and m1: "ds_devices (dm_currentSet m1) = [new_device example_fieldbus 1 1]"
    by (simp add: stopExchange_def unpublish_def example_manager_def example_fieldbus_def)
  obtain img w2 m2 where "mapOnce example_fieldbus (2, m1) = (Inr img, w2, m2)"
    using example_mapped[OF m1] by (metis surj_pair)
  then have "map_attempts example_fieldbus (kProcessDataMapAttempts - 1) (2, m1) = (Inr img, w2, m2)"
    by (simp add: kProcessDataMapAttempts_def numeral_2_eq_2)
  then show ?thesis
    by (simp add: configureProcessData_def remapProcessImage_def stop updateExpectedWkc_def)
       (simp add: example_manager_def)
qed

theorem configureProcessData_publishes_witness:
  "\<exists>w' m' img. configureProcessData example_fieldbus (2, example_manager) = (Inr (), w', m')
     \<and> pd_image (dm_pd m') = Some img \<and> ring_holds (pd_ring (dm_pd m')) []"
proof -
  obtain w' m' where c: "configureProcessData example_fieldbus (2, example_manager) = (Inr (), w', m')"
    using example_configured by blast
  have "dm_recorderCapacity example_manager \<noteq> 0" by (simp add: example_manager_def)
  with configureProcessData_publishes[OF c] c show ?thesis by blast
qed

lemma example_restarted:
  "\<exists>s'. restartToState example_fieldbus [1] Init (2, example_manager)
     = (Inr \<lparr>ro_step = Init, ro_states = [decodeStateInfo 1 \<lparr>ssr_alStatus = 1, ssr_alStatusCode = 0, ssr_reachability = Answering\<rparr>]\<rparr>, s')"
proof -
  have steps: "restart_steps Init = [Init]"
    by (simp add: restart_steps_def climb_states_def word_le_nat_alt)
  have valid: "check_targets Init [(1, \<lparr>ssr_alStatus = 2, ssr_alStatusCode = 0, ssr_reachability = Answering\<rparr>)] = Inr []"
    by (simp add: alState_def al_of_raw_def isValidStateTransition_def kValidStateTransitions_def)
  have "transitionToState example_fieldbus [1] Init (2, example_manager)
      = drive_targets example_fieldbus [1] Init (2, example_manager)"
    using valid
    by (simp add: transitionToState_def resolveTargets_def set_find_def leave_exchange_def processDataConfigured_def
          example_bus_defs)
  moreover have "fst (drive_targets example_fieldbus [1] Init (2, example_manager))
      = Inr [decodeStateInfo 1 \<lparr>ssr_alStatus = 1, ssr_alStatusCode = 0, ssr_reachability = Answering\<rparr>]"
    by (simp add: drive_targets_def split_beta Let_def) (simp add: example_fieldbus_def)
  ultimately obtain s' where "transitionToState example_fieldbus [1] Init (2, example_manager)
      = (Inr [decodeStateInfo 1 \<lparr>ssr_alStatus = 1, ssr_alStatusCode = 0, ssr_reachability = Answering\<rparr>], s')"
    by (metis prod.collapse)
  then show ?thesis by (cases s') (simp add: restartToState_def steps Let_def)
qed

theorem restartToState_outcome_witness:
  "\<exists>outcome s'. restartToState example_fieldbus [1] Init (2, example_manager) = (Inr outcome, s')
     \<and> ro_step outcome \<in> set (restart_steps Init)"
proof -
  obtain outcome s' where o: "restartToState example_fieldbus [1] Init (2, example_manager) = (Inr outcome, s')"
    using example_restarted by blast
  show ?thesis using restartToState_outcome[OF o] o by auto
qed

end
