(* ===== verification/Spoe.thy ===== *)
theory Spoe
  imports Byte_Codec Step_System
begin

text \<open>
  The parts of the SPoE transport that involve no socket (\<^verbatim>\<open>libs/comm/spoe_frame.h, .cc\<close> and
  \<^verbatim>\<open>libs/comm/spoe_process_data.h, .cc\<close>): the frame format, the slot that hands the newest outputs from the
  real-time thread to the exchange thread, the queue that carries inputs the other way, and the
  assembler that cuts replies into frames. The slot is also given as steps of its two threads, one
  byte or one atomic access each. Sizes are unbounded, counters have their width.
\<close>

unbundle bit_operations_syntax

section \<open>Frames\<close>

record Frame =
  fr_type :: u8
  fr_sequenceId :: u16
  fr_status :: u16
  fr_data :: bytes

record FrameHeader =
  fh_type :: u8
  fh_sequenceId :: u16
  fh_status :: u16
  fh_dataLength :: u16

definition kMaxDataSize :: nat where
  "kMaxDataSize = 512"

definition encodeFrame :: "Frame \<Rightarrow> nat + bytes" where
  "encodeFrame frame =
     (if length (fr_data frame) > kMaxDataSize then Inl (length (fr_data frame))
      else let len = of_nat (length (fr_data frame)) :: u16
           in Inr ([fr_type frame, ucast (fr_sequenceId frame), ucast (drop_bit 8 (fr_sequenceId frame)),
                    ucast (fr_status frame), ucast (drop_bit 8 (fr_status frame)),
                    ucast len, ucast (drop_bit 8 len)] @ fr_data frame))"

definition readU16 :: "bytes \<Rightarrow> nat \<Rightarrow> u16" where
  "readU16 bs offset = ucast (bs ! offset) OR push_bit 8 (ucast (bs ! (offset + 1)))"

definition decodeHeader :: "bytes \<Rightarrow> FrameHeader option" where
  "decodeHeader bs =
     (if length bs < 7 then None
      else Some \<lparr>fh_type = bs ! 0, fh_sequenceId = readU16 bs 1, fh_status = readU16 bs 3, fh_dataLength = readU16 bs 5\<rparr>)"

section \<open>The output slot\<close>

record SpoeOutputSlot =
  sl_buffers :: "bytes list"
  sl_writeIndex :: u8
  sl_readIndex :: u8
  sl_middle :: u8

definition kFresh :: u8 where
  "kFresh = 0x04"

definition kIndexMask :: u8 where
  "kIndexMask = 0x03"

definition slot_reset :: "nat \<Rightarrow> SpoeOutputSlot" where
  "slot_reset frameBytes =
     \<lparr>sl_buffers = replicate 3 (replicate frameBytes 0), sl_writeIndex = 0, sl_readIndex = 1, sl_middle = 2\<rparr>"

text \<open>The exchange that ends \<^verbatim>\<open>write\<close>, and the one \<^verbatim>\<open>read\<close> makes when the middle buffer is marked fresh.\<close>

definition slot_publish :: "SpoeOutputSlot \<Rightarrow> SpoeOutputSlot" where
  "slot_publish s = s\<lparr>sl_middle := sl_writeIndex s OR kFresh, sl_writeIndex := sl_middle s AND kIndexMask\<rparr>"

definition slot_take :: "SpoeOutputSlot \<Rightarrow> SpoeOutputSlot" where
  "slot_take s = s\<lparr>sl_middle := sl_readIndex s, sl_readIndex := sl_middle s AND kIndexMask\<rparr>"

definition slot_fresh :: "SpoeOutputSlot \<Rightarrow> bool" where
  "slot_fresh s \<longleftrightarrow> sl_middle s AND kFresh \<noteq> 0"

definition copy_front :: "bytes \<Rightarrow> bytes \<Rightarrow> bytes" where
  "copy_front src dst = take (length dst) src @ drop (length src) dst"

definition slot_write :: "bytes \<Rightarrow> SpoeOutputSlot \<Rightarrow> SpoeOutputSlot" where
  "slot_write frame s =
     (let i = unat (sl_writeIndex s)
      in slot_publish (s\<lparr>sl_buffers := (sl_buffers s)[i := copy_front frame (sl_buffers s ! i)]\<rparr>))"

definition slot_read :: "SpoeOutputSlot \<Rightarrow> bytes \<times> SpoeOutputSlot" where
  "slot_read s = (let s = (if slot_fresh s then slot_take s else s) in (sl_buffers s ! unat (sl_readIndex s), s))"

text \<open>
  The two threads. The writer stores one byte at a time into its buffer and then swaps; the reader
  looks at the mark, swaps if it is set, and copies one byte at a time. The log holds the frames
  published so far. The caller passes frames of the size given to \<^verbatim>\<open>reset\<close>, as the header demands.
\<close>

datatype slot_writer = Sw_Idle | Sw_Copy bytes nat

datatype slot_reader = Sr_Idle | Sr_Swap | Sr_Copy bytes | Sr_Done bytes

record slot_system =
  ss_slot :: SpoeOutputSlot
  ss_writer :: slot_writer
  ss_reader :: slot_reader
  ss_log :: "bytes list"

inductive slot_step :: "nat \<Rightarrow> slot_system \<Rightarrow> slot_system \<Rightarrow> bool" for n where
  sw_begin:
    "ss_writer s = Sw_Idle \<Longrightarrow> length frame = n \<Longrightarrow> slot_step n s (s\<lparr>ss_writer := Sw_Copy frame 0\<rparr>)"
| sw_store:
    "ss_writer s = Sw_Copy frame k \<Longrightarrow> k < length frame \<Longrightarrow> i = unat (sl_writeIndex (ss_slot s)) \<Longrightarrow>
     slot_step n s (s\<lparr>ss_slot := (ss_slot s)\<lparr>sl_buffers :=
                        (sl_buffers (ss_slot s))[i := (sl_buffers (ss_slot s) ! i)[k := frame ! k]]\<rparr>,
                      ss_writer := Sw_Copy frame (Suc k)\<rparr>)"
| sw_swap:
    "ss_writer s = Sw_Copy frame k \<Longrightarrow> k = length frame \<Longrightarrow>
     slot_step n s (s\<lparr>ss_slot := slot_publish (ss_slot s), ss_writer := Sw_Idle, ss_log := ss_log s @ [frame]\<rparr>)"
| sr_fresh:
    "ss_reader s = Sr_Idle \<or> ss_reader s = Sr_Done bs \<Longrightarrow> slot_fresh (ss_slot s) \<Longrightarrow>
     slot_step n s (s\<lparr>ss_reader := Sr_Swap\<rparr>)"
| sr_again:
    "ss_reader s = Sr_Idle \<or> ss_reader s = Sr_Done bs \<Longrightarrow> \<not> slot_fresh (ss_slot s) \<Longrightarrow>
     slot_step n s (s\<lparr>ss_reader := Sr_Copy []\<rparr>)"
| sr_swap:
    "ss_reader s = Sr_Swap \<Longrightarrow>
     slot_step n s (s\<lparr>ss_slot := slot_take (ss_slot s), ss_reader := Sr_Copy []\<rparr>)"
| sr_copy:
    "ss_reader s = Sr_Copy bs \<Longrightarrow> length bs < n \<Longrightarrow>
     slot_step n s (s\<lparr>ss_reader := Sr_Copy
                        (bs @ [sl_buffers (ss_slot s) ! unat (sl_readIndex (ss_slot s)) ! length bs])\<rparr>)"
| sr_done:
    "ss_reader s = Sr_Copy bs \<Longrightarrow> length bs = n \<Longrightarrow> slot_step n s (s\<lparr>ss_reader := Sr_Done bs\<rparr>)"

definition slot_initial :: "nat \<Rightarrow> slot_system" where
  "slot_initial n = \<lparr>ss_slot = slot_reset n, ss_writer = Sw_Idle, ss_reader = Sr_Idle, ss_log = []\<rparr>"

section \<open>The input queue\<close>

record SpoeInputQueue =
  iq_storage :: bytes
  iq_frameBytes :: nat
  iq_capacity :: nat
  iq_head :: u64
  iq_tail :: u64

definition queue_reset :: "nat \<Rightarrow> nat \<Rightarrow> SpoeInputQueue" where
  "queue_reset frameBytes capacity =
     \<lparr>iq_storage = replicate (frameBytes * capacity) 0, iq_frameBytes = frameBytes, iq_capacity = capacity,
      iq_head = 0, iq_tail = 0\<rparr>"

definition queue_size :: "SpoeInputQueue \<Rightarrow> nat" where
  "queue_size q = unat (iq_head q - iq_tail q)"

definition iq_slot :: "SpoeInputQueue \<Rightarrow> u64 \<Rightarrow> nat" where
  "iq_slot q i = (unat i mod iq_capacity q) * iq_frameBytes q"

definition push_full :: "SpoeInputQueue \<Rightarrow> bool" where
  "push_full q \<longleftrightarrow> iq_capacity q = 0 \<or> queue_size q \<ge> iq_capacity q"

definition push :: "bytes \<Rightarrow> SpoeInputQueue \<Rightarrow> bool \<times> SpoeInputQueue" where
  "push frame q =
     (if push_full q then (False, q)
      else (True, q\<lparr>iq_storage := apply_stores (store_bytes (iq_slot q (iq_head q)) (take (iq_frameBytes q) frame))
                                    (iq_storage q),
                    iq_head := iq_head q + 1\<rparr>))"

definition pop :: "bytes \<Rightarrow> SpoeInputQueue \<Rightarrow> (bool \<times> bytes) \<times> SpoeInputQueue" where
  "pop frame q =
     (if iq_tail q = iq_head q then ((False, frame), q)
      else ((True, copy_front (subspan (iq_storage q) (iq_slot q (iq_tail q)) (iq_frameBytes q)) frame),
            q\<lparr>iq_tail := iq_tail q + 1\<rparr>))"

definition dropOldest :: "nat \<Rightarrow> SpoeInputQueue \<Rightarrow> nat \<times> SpoeInputQueue" where
  "dropOldest keep q =
     (if queue_size q \<le> keep then (0, q)
      else let dropped = queue_size q - keep in (dropped, q\<lparr>iq_tail := iq_tail q + of_nat dropped\<rparr>))"

text \<open>
  The two threads of the queue: the producer checks for room, stores the frame byte by byte and then
  publishes the head; the consumer checks for a frame, copies it byte by byte and then gives the slot
  back, or drops the oldest frames in one store. The log holds the frames accepted, and the second
  list the frames removed, each with whether it was delivered. Each thread loads the other's index
  once per call, in the step that checks it.
\<close>

datatype queue_producer = Qp_Idle | Qp_Copy bytes nat

datatype queue_consumer = Qc_Idle | Qc_Copy bytes

record queue_system =
  qs_queue :: SpoeInputQueue
  qs_producer :: queue_producer
  qs_consumer :: queue_consumer
  qs_log :: "bytes list"
  qs_removed :: "(bool \<times> bytes) list"

inductive queue_step :: "nat \<Rightarrow> queue_system \<Rightarrow> queue_system \<Rightarrow> bool" for n where
  qp_begin:
    "qs_producer s = Qp_Idle \<Longrightarrow> length frame = n \<Longrightarrow> \<not> push_full (qs_queue s) \<Longrightarrow>
     queue_step n s (s\<lparr>qs_producer := Qp_Copy frame 0\<rparr>)"
| qp_store:
    "qs_producer s = Qp_Copy frame k \<Longrightarrow> k < n \<Longrightarrow> q = qs_queue s \<Longrightarrow>
     queue_step n s (s\<lparr>qs_queue := q\<lparr>iq_storage := (iq_storage q)[iq_slot q (iq_head q) + k := frame ! k]\<rparr>,
                       qs_producer := Qp_Copy frame (Suc k)\<rparr>)"
| qp_publish:
    "qs_producer s = Qp_Copy frame n \<Longrightarrow> q = qs_queue s \<Longrightarrow>
     queue_step n s (s\<lparr>qs_queue := q\<lparr>iq_head := iq_head q + 1\<rparr>, qs_producer := Qp_Idle, qs_log := qs_log s @ [frame]\<rparr>)"
| qc_begin:
    "qs_consumer s = Qc_Idle \<Longrightarrow> iq_tail (qs_queue s) \<noteq> iq_head (qs_queue s) \<Longrightarrow>
     queue_step n s (s\<lparr>qs_consumer := Qc_Copy []\<rparr>)"
| qc_copy:
    "qs_consumer s = Qc_Copy bs \<Longrightarrow> length bs < n \<Longrightarrow> q = qs_queue s \<Longrightarrow>
     queue_step n s (s\<lparr>qs_consumer := Qc_Copy (bs @ [iq_storage q ! (iq_slot q (iq_tail q) + length bs)])\<rparr>)"
| qc_publish:
    "qs_consumer s = Qc_Copy bs \<Longrightarrow> length bs = n \<Longrightarrow> q = qs_queue s \<Longrightarrow>
     queue_step n s (s\<lparr>qs_queue := q\<lparr>iq_tail := iq_tail q + 1\<rparr>, qs_consumer := Qc_Idle,
                       qs_removed := qs_removed s @ [(True, bs)]\<rparr>)"
| qc_drop:
    "qs_consumer s = Qc_Idle \<Longrightarrow> dropOldest keep (qs_queue s) = (dropped, q) \<Longrightarrow>
     queue_step n s (s\<lparr>qs_queue := q, qs_removed := qs_removed s @
                         map (Pair False) (take dropped (drop (length (qs_removed s)) (qs_log s)))\<rparr>)"

definition queue_initial :: "nat \<Rightarrow> nat \<Rightarrow> queue_system" where
  "queue_initial n capacity =
     \<lparr>qs_queue = queue_reset n capacity, qs_producer = Qp_Idle, qs_consumer = Qc_Idle, qs_log = [], qs_removed = []\<rparr>"

section \<open>The assembler\<close>

record SpoeFrameAssembler =
  fa_frameBytes :: nat
  fa_partial :: bytes
  fa_framingLosses :: u64

definition kInputPopLimit :: nat where
  "kInputPopLimit = 500"

definition assembler_reset :: "nat \<Rightarrow> SpoeFrameAssembler" where
  "assembler_reset frameBytes = \<lparr>fa_frameBytes = frameBytes, fa_partial = [], fa_framingLosses = 0\<rparr>"

definition assembler_add :: "bytes \<Rightarrow> SpoeFrameAssembler \<Rightarrow> bytes \<times> SpoeFrameAssembler" where
  "assembler_add reply a =
     (if fa_frameBytes a = 0 then ([], a)
      else let joined = fa_partial a @ reply;
               stale = length joined mod fa_frameBytes a;
               a = (if length reply < kInputPopLimit \<and> stale \<noteq> 0
                    then a\<lparr>fa_partial := drop stale joined, fa_framingLosses := fa_framingLosses a + 1\<rparr>
                    else a\<lparr>fa_partial := joined\<rparr>);
               whole = length (fa_partial a) - length (fa_partial a) mod fa_frameBytes a
           in (take whole (fa_partial a), a\<lparr>fa_partial := drop whole (fa_partial a)\<rparr>))"

fun assembler_run :: "bytes list \<Rightarrow> SpoeFrameAssembler \<Rightarrow> bytes \<times> SpoeFrameAssembler" where
  "assembler_run [] a = ([], a)"
| "assembler_run (r # rs) a =
     (let (out, a) = assembler_add r a; (outs, a) = assembler_run rs a in (out @ outs, a))"

text \<open>Whether every reply that is shorter than the limit ends where a frame ends.\<close>

fun ends_on_frames :: "nat \<Rightarrow> nat \<Rightarrow> bytes list \<Rightarrow> bool" where
  "ends_on_frames n seen [] = True"
| "ends_on_frames n seen (r # rs) =
     ((length r < kInputPopLimit \<longrightarrow> (seen + length r) mod n = 0) \<and> ends_on_frames n (seen + length r) rs)"

section \<open>The frame format\<close>

lemma readU16_bytes:
  assumes "i + 1 < length bs" and "bs ! i = ucast w" and "bs ! (i + 1) = ucast (drop_bit 8 w)"
  shows "readU16 bs i = w"
proof -
  have "ucast (ucast w :: u8) OR push_bit 8 (ucast (ucast (drop_bit 8 w) :: u8)) = w"
    by (rule bit_word_eqI) (auto simp: bit_simps)
  with assms show ?thesis by (simp add: readU16_def)
qed

text \<open>Decoding the header of an encoded frame gives back its fields, whatever bytes follow.\<close>

lemma encodeFrame_header:
  "if length (fr_data f) \<le> 512
   then \<exists>header. encodeFrame f = Inr (header @ fr_data f) \<and> length header = 7 \<and>
          (\<forall>rest. decodeHeader (header @ rest) =
            Some \<lparr>fh_type = fr_type f, fh_sequenceId = fr_sequenceId f, fh_status = fr_status f,
                  fh_dataLength = of_nat (length (fr_data f))\<rparr>) \<and>
          unat (of_nat (length (fr_data f)) :: u16) = length (fr_data f)
   else encodeFrame f = Inl (length (fr_data f))"
proof (cases "length (fr_data f) \<le> 512")
  case True
  let ?len = "of_nat (length (fr_data f)) :: u16"
  let ?h = "[fr_type f, ucast (fr_sequenceId f), ucast (drop_bit 8 (fr_sequenceId f)), ucast (fr_status f),
             ucast (drop_bit 8 (fr_status f)), ucast ?len, ucast (drop_bit 8 ?len)] :: bytes"
  have "unat ?len = length (fr_data f)" using True by (simp add: unsigned_of_nat take_bit_nat_eq_self)
  moreover have "readU16 (?h @ rest) 1 = fr_sequenceId f" "readU16 (?h @ rest) 3 = fr_status f"
    "readU16 (?h @ rest) 5 = ?len" for rest
    by (rule readU16_bytes; simp add: eval_nat_numeral)+
  ultimately show ?thesis using True
    by (auto simp: encodeFrame_def decodeHeader_def kMaxDataSize_def Let_def intro!: exI [of _ ?h])
next
  case False
  then show ?thesis by (simp add: encodeFrame_def kMaxDataSize_def)
qed

section \<open>The output slot under interleaving\<close>

text \<open>The three indices are always a permutation of the three buffers.\<close>

definition slot_middle :: "SpoeOutputSlot \<Rightarrow> nat" where
  "slot_middle s = unat (sl_middle s AND kIndexMask)"

definition slot_indices :: "SpoeOutputSlot \<Rightarrow> bool" where
  "slot_indices s \<longleftrightarrow>
     (sl_writeIndex s, sl_readIndex s, sl_middle s)
       \<in> {(0, 1, 2), (0, 2, 1), (1, 0, 2), (1, 2, 0), (2, 0, 1), (2, 1, 0),
          (0, 1, 6), (0, 2, 5), (1, 0, 6), (1, 2, 4), (2, 0, 5), (2, 1, 4)}"

lemmas slot_word_defs = slot_indices_def slot_middle_def slot_publish_def slot_take_def slot_fresh_def
  kFresh_def kIndexMask_def

lemma slot_indices_disj:
  "slot_indices s \<Longrightarrow>
     sl_writeIndex s = 0 \<and> sl_readIndex s = 1 \<and> (sl_middle s = 2 \<or> sl_middle s = 6) \<or>
     sl_writeIndex s = 0 \<and> sl_readIndex s = 2 \<and> (sl_middle s = 1 \<or> sl_middle s = 5) \<or>
     sl_writeIndex s = 1 \<and> sl_readIndex s = 0 \<and> (sl_middle s = 2 \<or> sl_middle s = 6) \<or>
     sl_writeIndex s = 1 \<and> sl_readIndex s = 2 \<and> (sl_middle s = 0 \<or> sl_middle s = 4) \<or>
     sl_writeIndex s = 2 \<and> sl_readIndex s = 0 \<and> (sl_middle s = 1 \<or> sl_middle s = 5) \<or>
     sl_writeIndex s = 2 \<and> sl_readIndex s = 1 \<and> (sl_middle s = 0 \<or> sl_middle s = 4)"
  unfolding slot_indices_def by blast

lemma slot_indices_apart:
  assumes "slot_indices s"
  shows "unat (sl_writeIndex s) < 3" "unat (sl_readIndex s) < 3" "slot_middle s < 3"
    "unat (sl_writeIndex s) \<noteq> unat (sl_readIndex s)" "unat (sl_writeIndex s) \<noteq> slot_middle s"
    "unat (sl_readIndex s) \<noteq> slot_middle s"
  using slot_indices_disj [OF assms]
  by (elim disjE conjE; simp add: slot_middle_def kIndexMask_def)+

lemma slot_publish_indices:
  assumes "slot_indices s"
  shows "slot_indices (slot_publish s)" "slot_fresh (slot_publish s)"
    "unat (sl_writeIndex (slot_publish s)) = slot_middle s" "slot_middle (slot_publish s) = unat (sl_writeIndex s)"
    "sl_readIndex (slot_publish s) = sl_readIndex s" "sl_buffers (slot_publish s) = sl_buffers s"
  using slot_indices_disj [OF assms]
  by (elim disjE conjE; simp add: slot_word_defs)+

lemma slot_take_indices:
  assumes "slot_indices s"
  shows "slot_indices (slot_take s)" "\<not> slot_fresh (slot_take s)"
    "unat (sl_readIndex (slot_take s)) = slot_middle s"
    "sl_writeIndex (slot_take s) = sl_writeIndex s" "sl_buffers (slot_take s) = sl_buffers s"
  using slot_indices_disj [OF assms]
  by (elim disjE conjE; simp add: slot_word_defs)+

lemma slot_buffers_update [simp]:
  "slot_indices (s\<lparr>sl_buffers := b\<rparr>) = slot_indices s" "slot_fresh (s\<lparr>sl_buffers := b\<rparr>) = slot_fresh s"
  "slot_middle (s\<lparr>sl_buffers := b\<rparr>) = slot_middle s"
  by (simp_all add: slot_indices_def slot_fresh_def slot_middle_def)

definition slot_frames :: "nat \<Rightarrow> slot_system \<Rightarrow> bytes list" where
  "slot_frames n s = replicate n 0 # ss_log s"

definition slot_ok :: "nat \<Rightarrow> slot_system \<Rightarrow> bool" where
  "slot_ok n s \<longleftrightarrow>
     (let sl = ss_slot s in
      slot_indices sl \<and> length (sl_buffers sl) = 3 \<and> (\<forall>i<3. length (sl_buffers sl ! i) = n) \<and>
      sl_buffers sl ! unat (sl_readIndex sl) \<in> set (slot_frames n s) \<and>
      sl_buffers sl ! (if slot_fresh sl then slot_middle sl else unat (sl_readIndex sl)) = last (slot_frames n s))"

definition slot_writer_ok :: "nat \<Rightarrow> slot_system \<Rightarrow> bool" where
  "slot_writer_ok n s =
     (case ss_writer s of Sw_Idle \<Rightarrow> True
      | Sw_Copy f k \<Rightarrow> length f = n \<and> k \<le> n \<and>
          take k (sl_buffers (ss_slot s) ! unat (sl_writeIndex (ss_slot s))) = take k f)"

definition slot_reader_ok :: "nat \<Rightarrow> slot_system \<Rightarrow> bool" where
  "slot_reader_ok n s =
     (case ss_reader s of Sr_Idle \<Rightarrow> True
      | Sr_Swap \<Rightarrow> slot_fresh (ss_slot s)
      | Sr_Copy bs \<Rightarrow> length bs \<le> n \<and>
          bs = take (length bs) (sl_buffers (ss_slot s) ! unat (sl_readIndex (ss_slot s)))
      | Sr_Done bs \<Rightarrow> bs \<in> set (slot_frames n s))"

definition slot_inv :: "nat \<Rightarrow> slot_system \<Rightarrow> bool" where
  "slot_inv n s \<longleftrightarrow> slot_ok n s \<and> slot_writer_ok n s \<and> slot_reader_ok n s"

lemmas slot_inv_defs = slot_inv_def slot_ok_def slot_writer_ok_def slot_reader_ok_def slot_frames_def Let_def

lemma slot_inv_facts:
  assumes "slot_inv n s"
  shows "slot_indices (ss_slot s)" and "i < 3 \<Longrightarrow> length (sl_buffers (ss_slot s) ! i) = n"
  using assms by (simp_all add: slot_inv_defs)

lemma slot_store_keeps:
  assumes "slot_inv n s" and "ss_writer s = Sw_Copy f k" and "k < length f"
    and "i = unat (sl_writeIndex (ss_slot s))"
  shows "slot_inv n (s\<lparr>ss_slot := (ss_slot s)\<lparr>sl_buffers :=
            (sl_buffers (ss_slot s))[i := (sl_buffers (ss_slot s) ! i)[k := f ! k]]\<rparr>,
          ss_writer := Sw_Copy f (Suc k)\<rparr>)"
proof -
  note ix = slot_inv_facts(1) [OF assms(1)]
  note ap = slot_indices_apart [OF ix]
  have len: "length (sl_buffers (ss_slot s) ! i) = n" using assms ap(1) by (simp add: slot_inv_defs)
  have "length f = n" "take k (sl_buffers (ss_slot s) ! i) = take k f"
    using assms by (simp_all add: slot_inv_defs)
  then have "take (Suc k) ((sl_buffers (ss_slot s) ! i)[k := f ! k]) = take (Suc k) f"
    using len assms(3) by (simp add: take_Suc_conv_app_nth)
  then show ?thesis using assms ap len by (auto simp: slot_inv_defs nth_list_update split: slot_reader.splits)
qed

lemma slot_publish_keeps:
  assumes "slot_inv n s" and "ss_writer s = Sw_Copy f k" and "k = length f"
  shows "slot_inv n (s\<lparr>ss_slot := slot_publish (ss_slot s), ss_writer := Sw_Idle, ss_log := ss_log s @ [f]\<rparr>)"
proof -
  note ix = slot_inv_facts(1) [OF assms(1)]
  note ap = slot_indices_apart [OF ix]
  have "slot_writer_ok n s" using assms(1) by (simp add: slot_inv_def)
  then have "length f = n" "take k (sl_buffers (ss_slot s) ! unat (sl_writeIndex (ss_slot s))) = f"
    using assms(2,3) by (auto simp: slot_writer_ok_def)
  with slot_inv_facts(2) [OF assms(1) ap(1)] assms(3)
  have "sl_buffers (ss_slot s) ! unat (sl_writeIndex (ss_slot s)) = f" by simp
  then show ?thesis using assms by (auto simp: slot_inv_defs slot_publish_indices [OF ix] split: slot_reader.splits)
qed

lemma slot_take_keeps:
  assumes "slot_inv n s" and "ss_reader s = Sr_Swap"
  shows "slot_inv n (s\<lparr>ss_slot := slot_take (ss_slot s), ss_reader := Sr_Copy []\<rparr>)"
proof -
  note ix = slot_inv_facts(1) [OF assms(1)]
  have "slot_fresh (ss_slot s)" using assms by (simp add: slot_inv_defs)
  then show ?thesis using assms
    by (auto simp: slot_inv_defs slot_take_indices [OF ix] split: slot_writer.splits if_splits)
qed

lemma slot_step_keeps:
  assumes "slot_step n s s'" and "slot_inv n s"
  shows "slot_inv n s'"
  using assms(1)
proof (cases rule: slot_step.cases)
  case (sw_store f k i)
  then show ?thesis using slot_store_keeps assms(2) by blast
next
  case (sw_swap f k)
  then show ?thesis using slot_publish_keeps assms(2) by blast
next
  case sr_swap
  then show ?thesis using slot_take_keeps assms(2) by blast
next
  case (sr_copy bs)
  note len = slot_inv_facts(2) [OF assms(2) slot_indices_apart(2) [OF slot_inv_facts(1) [OF assms(2)]]]
  with sr_copy assms(2) show ?thesis
    by (auto simp: slot_inv_defs take_Suc_conv_app_nth split: slot_writer.splits)
next
  case (sr_done bs)
  note len = slot_inv_facts(2) [OF assms(2) slot_indices_apart(2) [OF slot_inv_facts(1) [OF assms(2)]]]
  with sr_done assms(2) show ?thesis by (auto simp: slot_inv_defs split: slot_writer.splits)
qed (use assms(2) in \<open>auto simp: slot_inv_defs split: slot_writer.splits slot_reader.splits\<close>)

interpretation slot_sys: step_system "slot_step n" "slot_inv n" "\<lambda>_. True" for n
  by unfold_locales (auto intro: slot_step_keeps)

lemma slot_initial_inv: "slot_inv n (slot_initial n)"
  by (auto simp: slot_inv_defs slot_initial_def slot_reset_def slot_indices_def slot_fresh_def kFresh_def
      numeral_3_eq_3 less_Suc_eq)

lemma slot_read_newest:
  assumes "slot_inv n s"
  shows "fst (slot_read (ss_slot s)) = last (slot_frames n s)"
proof -
  note ix = slot_inv_facts(1) [OF assms]
  show ?thesis using assms by (auto simp: slot_read_def slot_inv_defs slot_take_indices [OF ix])
qed

text \<open>The whole of \<^verbatim>\<open>write\<close> is one run of the writer's steps.\<close>

lemma slot_copy_steps:
  assumes "ss_writer s = Sw_Copy f k" and "k \<le> n" and "length f = n" and "i = unat (sl_writeIndex (ss_slot s))"
    and "i < length (sl_buffers (ss_slot s))" and "length (sl_buffers (ss_slot s) ! i) = n"
    and "take k (sl_buffers (ss_slot s) ! i) = take k f"
  shows "(slot_step n)\<^sup>*\<^sup>* s (s\<lparr>ss_slot := (ss_slot s)\<lparr>sl_buffers := (sl_buffers (ss_slot s))[i := f]\<rparr>,
           ss_writer := Sw_Copy f n\<rparr>)"
  using assms
proof (induction "n - k" arbitrary: s k)
  case 0
  then have "s\<lparr>ss_slot := (ss_slot s)\<lparr>sl_buffers := (sl_buffers (ss_slot s))[i := f]\<rparr>, ss_writer := Sw_Copy f n\<rparr> = s"
    by (simp add: list_update_same_conv)
  then show ?case by simp
next
  case (Suc m)
  let ?b = "(sl_buffers (ss_slot s) ! i)[k := f ! k]"
  let ?t = "s\<lparr>ss_slot := (ss_slot s)\<lparr>sl_buffers := (sl_buffers (ss_slot s))[i := ?b]\<rparr>, ss_writer := Sw_Copy f (Suc k)\<rparr>"
  have "slot_step n s ?t" using Suc.prems Suc.hyps(2) by (intro sw_store) auto
  moreover have "take (Suc k) ?b = take (Suc k) f" using Suc.prems Suc.hyps(2) by (simp add: take_Suc_conv_app_nth)
  then have "(slot_step n)\<^sup>*\<^sup>* ?t (?t\<lparr>ss_slot := (ss_slot ?t)\<lparr>sl_buffers := (sl_buffers (ss_slot ?t))[i := f]\<rparr>,
      ss_writer := Sw_Copy f n\<rparr>)"
    using Suc.prems Suc.hyps(2) by (intro Suc.hyps(1) [of "Suc k"]) auto
  ultimately show ?case by (simp add: converse_rtranclp_into_rtranclp)
qed

lemma slot_write_steps:
  assumes "slot_inv n s" and "ss_writer s = Sw_Idle" and "length f = n"
  shows "(slot_step n)\<^sup>*\<^sup>* s (s\<lparr>ss_slot := slot_write f (ss_slot s), ss_log := ss_log s @ [f]\<rparr>)"
proof -
  let ?i = "unat (sl_writeIndex (ss_slot s))" and ?s0 = "s\<lparr>ss_writer := Sw_Copy f 0\<rparr>"
  let ?s1 = "s\<lparr>ss_slot := (ss_slot s)\<lparr>sl_buffers := (sl_buffers (ss_slot s))[?i := f]\<rparr>, ss_writer := Sw_Copy f n\<rparr>"
  note i = slot_indices_apart(1) [OF slot_inv_facts(1) [OF assms(1)]]
  note len = slot_inv_facts(2) [OF assms(1) i]
  have "length (sl_buffers (ss_slot s)) = 3" using assms(1) by (simp add: slot_inv_defs)
  then have "(slot_step n)\<^sup>*\<^sup>* ?s0 ?s1" using slot_copy_steps [of ?s0 f 0 n ?i] len i assms(3) by simp
  moreover have "slot_step n s ?s0" using assms by (intro sw_begin) auto
  moreover have "slot_step n ?s1 (?s1\<lparr>ss_slot := slot_publish (ss_slot ?s1), ss_writer := Sw_Idle, ss_log := ss_log ?s1 @ [f]\<rparr>)"
    using assms by (intro sw_swap) auto
  ultimately have "(slot_step n)\<^sup>*\<^sup>* s (?s1\<lparr>ss_slot := slot_publish (ss_slot ?s1), ss_writer := Sw_Idle, ss_log := ss_log ?s1 @ [f]\<rparr>)"
    by (meson converse_rtranclp_into_rtranclp rtranclp.rtrancl_into_rtrancl)
  then show ?thesis using len assms by (cases s) (simp add: slot_write_def copy_front_def Let_def)
qed

definition example_slot_end :: slot_system where
  "example_slot_end =
     \<lparr>ss_slot = slot_take (slot_write [7] (slot_reset 1)), ss_writer = Sw_Idle, ss_reader = Sr_Done [7], ss_log = [[7]]\<rparr>"

lemma example_slot_run: "(slot_step 1)\<^sup>*\<^sup>* (slot_initial 1) example_slot_end"
proof -
  let ?w = "slot_write [7] (slot_reset 1)"
  let ?st = "\<lambda>sl r. \<lparr>ss_slot = sl, ss_writer = Sw_Idle, ss_reader = r, ss_log = [[7 :: u8]]\<rparr>"
  have "(slot_step 1)\<^sup>*\<^sup>* (slot_initial 1) (?st ?w Sr_Idle)"
    using slot_write_steps [OF slot_initial_inv [of 1], of "[7]"] by (simp add: slot_initial_def)
  also have "slot_step 1 (?st ?w Sr_Idle) (?st ?w Sr_Swap)"
    using sr_fresh [of "?st ?w Sr_Idle" "[]" 1] by (simp add: slot_write_def slot_reset_def slot_word_defs)
  also have "slot_step 1 (?st ?w Sr_Swap) (?st (slot_take ?w) (Sr_Copy []))"
    using sr_swap [of "?st ?w Sr_Swap" 1] by simp
  also have "slot_step 1 (?st (slot_take ?w) (Sr_Copy [])) (?st (slot_take ?w) (Sr_Copy [7]))"
    using sr_copy [of "?st (slot_take ?w) (Sr_Copy [])" "[]" 1]
    by (simp add: slot_write_def slot_reset_def slot_word_defs copy_front_def numeral_3_eq_3)
  also have "slot_step 1 (?st (slot_take ?w) (Sr_Copy [7])) example_slot_end"
    using sr_done [of "?st (slot_take ?w) (Sr_Copy [7])" "[7]" 1] by (simp add: example_slot_end_def)
  finally show ?thesis .
qed

text \<open>C11: Whatever the interleaving of the writer's byte stores, the two atomic exchanges and the reader's
  byte loads, a frame the reader has finished copying is one whole frame that was published (or the zeros
  the slot starts with), never a mixture; and a read started in any reachable state serves the newest
  published frame.\<close>

theorem output_slot_never_torn:
  assumes "(slot_step n)\<^sup>*\<^sup>* (slot_initial n) s"
  shows "(\<forall>bs. ss_reader s = Sr_Done bs \<longrightarrow> bs = replicate n 0 \<or> bs \<in> set (ss_log s)) \<and>
         fst (slot_read (ss_slot s)) = (if ss_log s = [] then replicate n 0 else last (ss_log s))"
proof -
  have "slot_inv n s" using slot_sys.reachable_inv [OF assms slot_initial_inv] by simp
  with slot_read_newest [OF this] show ?thesis by (auto simp: slot_inv_defs)
qed

theorem output_slot_never_torn_witness:
  "(slot_step 1)\<^sup>*\<^sup>* (slot_initial 1) example_slot_end \<and> ss_reader example_slot_end = Sr_Done [7] \<and>
   fst (slot_read (ss_slot example_slot_end)) = [7] \<and> ([7] = replicate 1 0 \<or> [7] \<in> set (ss_log example_slot_end))"
  using example_slot_run output_slot_never_torn [OF example_slot_run] by (simp add: example_slot_end_def)

section \<open>The input queue as a list\<close>

definition queue_contents :: "SpoeInputQueue \<Rightarrow> bytes list" where
  "queue_contents q =
     map (\<lambda>i. subspan (iq_storage q) ((i mod iq_capacity q) * iq_frameBytes q) (iq_frameBytes q))
       [unat (iq_tail q)..<unat (iq_head q)]"

definition queue_wf :: "SpoeInputQueue \<Rightarrow> bool" where
  "queue_wf q \<longleftrightarrow>
     length (iq_storage q) = iq_frameBytes q * iq_capacity q \<and>
     iq_tail q \<le> iq_head q \<and> unat (iq_head q) - unat (iq_tail q) \<le> iq_capacity q"

lemma mod_window_inj:
  fixes i j c t :: nat
  assumes "t \<le> i" "i < t + c" "t \<le> j" "j < t + c" "i mod c = j mod c"
  shows "i = j"
proof -
  have *: "a = b" if "a \<le> b" "b < a + c" "a mod c = b mod c" for a b :: nat
  proof -
    have "c dvd b - a" using that(1,3) mod_eq_dvd_iff_nat [of a b c] by simp
    then show ?thesis using that(1,2) by (auto dest!: dvd_imp_le)
  qed
  show ?thesis using * [of i j] * [of j i] assms by (cases "i \<le> j") auto
qed

lemma queue_slots_apart:
  fixes a b n k :: nat
  assumes "a \<noteq> b" and "k < n"
  shows "a * n + k < b * n \<or> b * n + n \<le> a * n + k"
proof (cases "a < b")
  case True
  then have "Suc a * n \<le> b * n" by (intro mult_le_mono1) simp
  with assms(2) show ?thesis by simp
next
  case False
  with assms(1) have "Suc b * n \<le> a * n" by (intro mult_le_mono1) simp
  then show ?thesis by simp
qed

lemma slot_inside:
  fixes i c n :: nat
  shows "0 < c \<Longrightarrow> (i mod c) * n + n \<le> n * c"
  using mult_le_mono1 [of "Suc (i mod c)" c n] by (simp add: algebra_simps Suc_le_eq)

lemma queue_size_nat: "iq_tail q \<le> iq_head q \<Longrightarrow> queue_size q = unat (iq_head q) - unat (iq_tail q)"
  by (simp add: queue_size_def unat_sub)

lemma length_queue_contents: "queue_wf q \<Longrightarrow> length (queue_contents q) = queue_size q"
  by (simp add: queue_contents_def queue_wf_def queue_size_nat)

lemma tail_advance:
  assumes "iq_tail q \<le> iq_head q" and "k \<le> queue_size q"
  shows "unat (iq_tail q + of_nat k) = unat (iq_tail q) + k" and "iq_tail q + of_nat k \<le> iq_head q"
proof -
  have k: "unat (iq_tail q) + k \<le> unat (iq_head q)"
    using assms by (simp add: queue_size_nat word_le_nat_alt)
  have h: "unat (iq_head q) < 2 ^ 64" using unsigned_less [of "iq_head q"] by simp
  show *: "unat (iq_tail q + of_nat k) = unat (iq_tail q) + k"
    using k h by (simp add: unat_word_ariths unsigned_of_nat take_bit_nat_eq_self)
  show "iq_tail q + of_nat k \<le> iq_head q" using k * by (simp add: word_le_nat_alt)
qed

lemma queue_contents_advance:
  assumes "queue_wf q" and "k \<le> queue_size q"
  shows "queue_contents (q\<lparr>iq_tail := iq_tail q + of_nat k\<rparr>) = drop k (queue_contents q)"
    and "queue_wf (q\<lparr>iq_tail := iq_tail q + of_nat k\<rparr>)"
proof -
  have le: "iq_tail q \<le> iq_head q" using assms(1) by (simp add: queue_wf_def)
  note adv = tail_advance [OF le assms(2)]
  show "queue_contents (q\<lparr>iq_tail := iq_tail q + of_nat k\<rparr>) = drop k (queue_contents q)"
    by (simp add: queue_contents_def adv(1) drop_map drop_upt)
  show "queue_wf (q\<lparr>iq_tail := iq_tail q + of_nat k\<rparr>)"
    using assms(1) adv by (auto simp: queue_wf_def)
qed

lemma queue_reset_wf: "queue_wf (queue_reset n c)" "queue_contents (queue_reset n c) = []"
  by (simp_all add: queue_wf_def queue_reset_def queue_contents_def)

lemma push_full_iff: "queue_wf q \<Longrightarrow> push_full q \<longleftrightarrow> length (queue_contents q) = iq_capacity q"
  by (auto simp: push_full_def length_queue_contents) (auto simp: queue_wf_def queue_size_nat)

text \<open>Storing into the slot at the head leaves every queued frame alone.\<close>

lemma queue_contents_store:
  assumes "queue_wf q" and "queue_size q < iq_capacity q"
    and "\<And>a b. (a, b) \<in> set ss \<Longrightarrow> iq_slot q (iq_head q) \<le> a \<and> a < iq_slot q (iq_head q) + iq_frameBytes q"
  shows "queue_contents (q\<lparr>iq_storage := apply_stores ss (iq_storage q)\<rparr>) = queue_contents q"
  unfolding queue_contents_def
proof (rule map_cong, goal_cases)
  case (2 i)
  let ?c = "iq_capacity q" and ?n = "iq_frameBytes q" and ?h = "unat (iq_head q)"
  have i: "unat (iq_tail q) \<le> i" "i < ?h" using 2 by auto
  have "?h < unat (iq_tail q) + ?c" "unat (iq_tail q) \<le> ?h"
    using assms(1,2) by (auto simp: queue_wf_def queue_size_nat word_le_nat_alt)
  then have ne: "?h mod ?c \<noteq> i mod ?c" using mod_window_inj [of "unat (iq_tail q)" ?h ?c i] i by auto
  show ?case
  proof (simp, rule subspan_frame)
    fix a b assume "(a, b) \<in> set ss"
    from assms(3) [OF this] obtain k where "k < ?n" "a = (?h mod ?c) * ?n + k"
      by (auto simp: iq_slot_def le_iff_add)
    with queue_slots_apart [OF ne] show "a < i mod ?c * ?n \<or> i mod ?c * ?n + ?n \<le> a" by simp
  qed
qed simp

lemma queue_contents_grow:
  assumes "queue_wf q" and "queue_size q < iq_capacity q" and "unat (iq_head q) < 2 ^ 64 - 1"
    and "subspan (iq_storage q) (iq_slot q (iq_head q)) (iq_frameBytes q) = frame"
  shows "queue_contents (q\<lparr>iq_head := iq_head q + 1\<rparr>) = queue_contents q @ [frame]"
    and "queue_wf (q\<lparr>iq_head := iq_head q + 1\<rparr>)" and "unat (iq_head q + 1) = Suc (unat (iq_head q))"
proof -
  show h: "unat (iq_head q + 1) = Suc (unat (iq_head q))" using assms(3) by (simp add: unat_word_ariths)
  have le: "unat (iq_tail q) \<le> unat (iq_head q)" using assms(1) by (simp add: queue_wf_def word_le_nat_alt)
  show "queue_contents (q\<lparr>iq_head := iq_head q + 1\<rparr>) = queue_contents q @ [frame]"
    using le assms(4) by (simp add: queue_contents_def h iq_slot_def)
  show "queue_wf (q\<lparr>iq_head := iq_head q + 1\<rparr>)"
    using assms(1,2) le h by (simp add: queue_wf_def queue_size_nat word_le_nat_alt)
qed

lemma push_contents:
  assumes "queue_wf q" and "length frame = iq_frameBytes q" and "unat (iq_head q) < 2 ^ 64 - 1"
  shows "push frame q = (b, q') \<Longrightarrow>
    queue_wf q' \<and> (b \<longleftrightarrow> length (queue_contents q) < iq_capacity q) \<and>
    queue_contents q' = queue_contents q @ (if b then [frame] else [])"
proof (cases "push_full q")
  case True
  then show "push frame q = (b, q') \<Longrightarrow> ?thesis" using assms(1) push_full_iff [OF assms(1)] by (auto simp: push_def)
next
  case False
  then have c: "0 < iq_capacity q" "queue_size q < iq_capacity q" by (auto simp: push_full_def)
  let ?q = "q\<lparr>iq_storage := apply_stores (store_bytes (iq_slot q (iq_head q)) frame) (iq_storage q)\<rparr>"
  have "subspan (iq_storage ?q) (iq_slot ?q (iq_head ?q)) (iq_frameBytes ?q) = frame"
    using assms(1,2) slot_inside [OF c(1), of "unat (iq_head q)" "iq_frameBytes q"]
    by (simp add: iq_slot_def queue_wf_def)
  moreover have "queue_wf ?q" "queue_size ?q = queue_size q" using assms(1) by (simp_all add: queue_wf_def queue_size_def)
  moreover have "queue_contents ?q = queue_contents q"
    using store_bytes_range assms(2) by (intro queue_contents_store [OF assms(1) c(2)]) fastforce
  ultimately show "push frame q = (b, q') \<Longrightarrow> ?thesis"
    using False c assms queue_contents_grow [of ?q frame] by (auto simp: push_def length_queue_contents)
qed

lemma pop_contents:
  assumes "queue_wf q" and "length frame = iq_frameBytes q"
  shows "pop frame q = ((b, frame'), q') \<Longrightarrow>
    queue_wf q' \<and> (b \<longleftrightarrow> queue_contents q \<noteq> []) \<and>
    (if b then queue_contents q = frame' # queue_contents q' else frame' = frame \<and> q' = q)"
proof (cases "iq_tail q = iq_head q")
  case True
  then show "pop frame q = ((b, frame'), q') \<Longrightarrow> ?thesis" using assms(1) by (auto simp: pop_def queue_contents_def)
next
  case False
  then have "iq_tail q < iq_head q" using assms(1) by (auto simp: queue_wf_def intro: le_neq_trans)
  then have lt: "unat (iq_tail q) < unat (iq_head q)" by (simp add: word_less_nat_alt)
  then have k: "1 \<le> queue_size q" using assms(1) by (simp add: queue_wf_def queue_size_nat)
  have c: "0 < iq_capacity q" using lt assms(1) by (auto simp: queue_wf_def)
  let ?f = "subspan (iq_storage q) (iq_slot q (iq_tail q)) (iq_frameBytes q)"
  have "queue_contents q = ?f # drop 1 (queue_contents q)"
    using lt by (simp add: queue_contents_def upt_conv_Cons iq_slot_def)
  moreover have "length ?f = length frame"
    using assms slot_inside [OF c, of "unat (iq_tail q)" "iq_frameBytes q"] by (simp add: iq_slot_def queue_wf_def)
  ultimately show "pop frame q = ((b, frame'), q') \<Longrightarrow> ?thesis"
    using False queue_contents_advance [OF assms(1) k] by (auto simp: pop_def copy_front_def)
qed

lemma dropOldest_contents:
  assumes "queue_wf q" and "dropOldest keep q = (d, q')"
  shows "queue_wf q' \<and> d = length (queue_contents q) - keep \<and> queue_contents q' = drop d (queue_contents q)"
  using assms queue_contents_advance [OF assms(1), of "queue_size q - keep"] length_queue_contents [OF assms(1)]
  by (auto simp: dropOldest_def Let_def split: if_splits)

section \<open>What the consumer of the queue relies on\<close>

locale frame_source =
  fixes wf :: "'q \<Rightarrow> bool" and contents :: "'q \<Rightarrow> bytes list" and width :: "'q \<Rightarrow> nat"
    and take_one :: "bytes \<Rightarrow> 'q \<Rightarrow> (bool \<times> bytes) \<times> 'q" and trim :: "nat \<Rightarrow> 'q \<Rightarrow> nat \<times> 'q"
  assumes take_law: "wf q \<Longrightarrow> length frame = width q \<Longrightarrow> take_one frame q = ((ok, frame'), q') \<Longrightarrow>
      wf q' \<and> width q' = width q \<and> (ok \<longleftrightarrow> contents q \<noteq> []) \<and>
      (if ok then contents q = frame' # contents q' else frame' = frame \<and> q' = q)"
    and trim_law: "wf q \<Longrightarrow> trim keep q = (d, q') \<Longrightarrow>
      wf q' \<and> width q' = width q \<and> d = length (contents q) - keep \<and> contents q' = drop d (contents q)"
begin

lemma trim_then_take:
  assumes "wf q" and "length frame = width q" and "trim keep q = (d, q1)" and "take_one frame q1 = ((ok, frame'), q2)"
  shows "wf q2" and "width q2 = width q" and "d = length (contents q) - keep"
    and "frame' = (case drop d (contents q) of [] \<Rightarrow> frame | f # _ \<Rightarrow> f)"
    and "contents q2 = tl (drop d (contents q))"
proof -
  note t = trim_law [OF assms(1,3)]
  then have q1: "wf q1" "length frame = width q1" and c: "drop d (contents q) = contents q1" using assms(2) by simp_all
  note p = take_law [OF q1 assms(4)]
  show "wf q2" "width q2 = width q" using t p by simp_all
  show "d = length (contents q) - keep" using t by blast
  show "frame' = (case drop d (contents q) of [] \<Rightarrow> frame | f # _ \<Rightarrow> f)" "contents q2 = tl (drop d (contents q))"
    unfolding c using p by (cases ok; simp)+
qed

end

interpretation input_source: frame_source queue_wf queue_contents iq_frameBytes pop dropOldest
proof unfold_locales
  fix q frame ok frame' q'
  assume q: "queue_wf q" "length frame = iq_frameBytes q" and p: "pop frame q = ((ok, frame'), q')"
  have "iq_frameBytes q' = iq_frameBytes q" using p by (auto simp: pop_def split: if_splits)
  with pop_contents [OF q p] show "queue_wf q' \<and> iq_frameBytes q' = iq_frameBytes q \<and> (ok \<longleftrightarrow> queue_contents q \<noteq> []) \<and>
      (if ok then queue_contents q = frame' # queue_contents q' else frame' = frame \<and> q' = q)"
    by blast
next
  fix q keep d q'
  assume q: "queue_wf q" and d: "dropOldest keep q = (d, q')"
  have "iq_frameBytes q' = iq_frameBytes q" using d by (auto simp: dropOldest_def Let_def split: if_splits)
  with dropOldest_contents [OF q d] show "queue_wf q' \<and> iq_frameBytes q' = iq_frameBytes q \<and> d = length (queue_contents q) - keep \<and>
      queue_contents q' = drop d (queue_contents q)"
    by blast
qed

section \<open>The input queue under interleaving\<close>

definition queue_producer_ok :: "nat \<Rightarrow> queue_system \<Rightarrow> bool" where
  "queue_producer_ok n s =
     (case qs_producer s of Qp_Idle \<Rightarrow> True
      | Qp_Copy f k \<Rightarrow> length f = n \<and> k \<le> n \<and> queue_size (qs_queue s) < iq_capacity (qs_queue s) \<and>
          take k (subspan (iq_storage (qs_queue s)) (iq_slot (qs_queue s) (iq_head (qs_queue s))) n) = take k f)"

definition queue_consumer_ok :: "nat \<Rightarrow> queue_system \<Rightarrow> bool" where
  "queue_consumer_ok n s =
     (case qs_consumer s of Qc_Idle \<Rightarrow> True
      | Qc_Copy bs \<Rightarrow> queue_contents (qs_queue s) \<noteq> [] \<and> length bs \<le> n \<and>
          bs = take (length bs) (hd (queue_contents (qs_queue s))))"

definition queue_inv :: "nat \<Rightarrow> queue_system \<Rightarrow> bool" where
  "queue_inv n s \<longleftrightarrow>
     queue_wf (qs_queue s) \<and> iq_frameBytes (qs_queue s) = n \<and> unat (iq_head (qs_queue s)) = length (qs_log s) \<and>
     map snd (qs_removed s) @ queue_contents (qs_queue s) = qs_log s \<and> queue_producer_ok n s \<and> queue_consumer_ok n s"

lemmas queue_inv_defs = queue_inv_def queue_producer_ok_def queue_consumer_ok_def

lemma queue_storage_update [simp]:
  "iq_slot (q\<lparr>iq_storage := b\<rparr>) i = iq_slot q i" "queue_size (q\<lparr>iq_storage := b\<rparr>) = queue_size q"
  "queue_wf (q\<lparr>iq_storage := b[j := x]\<rparr>) = queue_wf (q\<lparr>iq_storage := b\<rparr>)"
  by (simp_all add: iq_slot_def queue_size_def queue_wf_def)

lemma subspan_update:
  "off + n \<le> length buf \<Longrightarrow> k < n \<Longrightarrow> subspan (buf[off + k := x]) off n = (subspan buf off n)[k := x]"
  by (simp add: subspan_def drop_update_swap take_update_swap)

lemma hd_queue_contents:
  assumes "queue_wf q" and "queue_contents q \<noteq> []"
  shows "hd (queue_contents q) = subspan (iq_storage q) (iq_slot q (iq_tail q)) (iq_frameBytes q)"
    and "length (hd (queue_contents q)) = iq_frameBytes q"
    and "iq_slot q (iq_tail q) + iq_frameBytes q \<le> length (iq_storage q)"
proof -
  have lt: "unat (iq_tail q) < unat (iq_head q)" using assms(2) by (simp add: queue_contents_def)
  then have c: "0 < iq_capacity q" using assms(1) by (auto simp: queue_wf_def)
  show hd: "hd (queue_contents q) = subspan (iq_storage q) (iq_slot q (iq_tail q)) (iq_frameBytes q)"
    using lt by (simp add: queue_contents_def upt_conv_Cons iq_slot_def)
  show in_storage: "iq_slot q (iq_tail q) + iq_frameBytes q \<le> length (iq_storage q)"
    using slot_inside [OF c, of "unat (iq_tail q)" "iq_frameBytes q"] assms(1) by (simp add: queue_wf_def iq_slot_def)
  show "length (hd (queue_contents q)) = iq_frameBytes q" using hd in_storage by simp
qed

lemma queue_store_keeps:
  assumes "queue_inv n s" and "qs_producer s = Qp_Copy f k" and "k < n" and "q = qs_queue s"
  shows "queue_inv n (s\<lparr>qs_queue := q\<lparr>iq_storage := (iq_storage q)[iq_slot q (iq_head q) + k := f ! k]\<rparr>,
                        qs_producer := Qp_Copy f (Suc k)\<rparr>)"
proof -
  let ?off = "iq_slot q (iq_head q)"
  have q: "queue_wf q" "queue_size q < iq_capacity q" "iq_frameBytes q = n"
    "take k (subspan (iq_storage q) ?off n) = take k f" "length f = n"
    using assms by (simp_all add: queue_inv_defs)
  have off: "?off + n \<le> length (iq_storage q)"
    using slot_inside [of "iq_capacity q" "unat (iq_head q)" n] q by (simp add: queue_wf_def iq_slot_def)
  have "apply_stores [(?off + k, f ! k)] (iq_storage q) = (iq_storage q)[?off + k := f ! k]" by simp
  then have same: "queue_contents (q\<lparr>iq_storage := (iq_storage q)[?off + k := f ! k]\<rparr>) = queue_contents q"
    using queue_contents_store [OF q(1,2), of "[(?off + k, f ! k)]"] assms(3) q(3) by simp
  have "take (Suc k) (subspan ((iq_storage q)[?off + k := f ! k]) ?off n) = take (Suc k) f"
    using q(4,5) assms(3) off by (simp add: subspan_update take_Suc_conv_app_nth)
  then show ?thesis using assms same
    by (auto simp: queue_inv_defs split: queue_consumer.splits)
qed

lemma queue_publish_keeps:
  assumes "queue_inv n s" and "qs_producer s = Qp_Copy f n" and "q = qs_queue s"
    and "length (qs_log s @ [f]) < 2 ^ 64"
  shows "queue_inv n (s\<lparr>qs_queue := q\<lparr>iq_head := iq_head q + 1\<rparr>, qs_producer := Qp_Idle, qs_log := qs_log s @ [f]\<rparr>)"
proof -
  have q: "queue_wf q" "queue_size q < iq_capacity q" "iq_frameBytes q = n" "unat (iq_head q) < 2 ^ 64 - 1"
    using assms by (auto simp: queue_inv_defs)
  have "length (subspan (iq_storage q) (iq_slot q (iq_head q)) n) \<le> n" by simp
  then have "subspan (iq_storage q) (iq_slot q (iq_head q)) n = f" using assms by (simp add: queue_inv_defs)
  then have g: "queue_contents (q\<lparr>iq_head := iq_head q + 1\<rparr>) = queue_contents q @ [f]"
    "queue_wf (q\<lparr>iq_head := iq_head q + 1\<rparr>)" "unat (iq_head q + 1) = Suc (unat (iq_head q))"
    using queue_contents_grow [OF q(1,2,4)] q(3) by auto
  have "queue_consumer_ok n s" using assms(1) by (simp add: queue_inv_def)
  then have "queue_consumer_ok n (s\<lparr>qs_queue := q\<lparr>iq_head := iq_head q + 1\<rparr>, qs_producer := Qp_Idle, qs_log := qs_log s @ [f]\<rparr>)"
    using g(1) assms(3) by (auto simp: queue_consumer_ok_def split: queue_consumer.splits)
  then show ?thesis using g assms by (auto simp: queue_inv_def queue_producer_ok_def)
qed

lemma queue_advance_keeps:
  assumes "queue_inv n s" and "q = qs_queue s" and "k \<le> length (queue_contents q)"
    and "q' = q\<lparr>iq_tail := iq_tail q + of_nat k\<rparr>" and "map snd r = take k (queue_contents q)"
  shows "queue_inv n (s\<lparr>qs_queue := q', qs_consumer := Qc_Idle, qs_removed := qs_removed s @ r\<rparr>)"
proof -
  have wf: "queue_wf q" using assms(1,2) by (simp add: queue_inv_def)
  have k: "k \<le> queue_size q" using assms(3) by (simp add: length_queue_contents [OF wf])
  note adv = queue_contents_advance [OF wf k]
  have "queue_size q' \<le> queue_size q"
    using adv length_queue_contents [OF wf] length_queue_contents [OF adv(2)] assms(4) by simp
  then have "queue_producer_ok n (s\<lparr>qs_queue := q', qs_consumer := Qc_Idle, qs_removed := qs_removed s @ r\<rparr>)"
    using assms(1,2,4) by (auto simp: queue_inv_defs iq_slot_def split: queue_producer.splits)
  then show ?thesis using assms adv by (auto simp: queue_inv_def queue_consumer_ok_def)
qed

lemma queue_step_keeps:
  assumes "queue_step n s s'" and "queue_inv n s" and "length (qs_log s') < 2 ^ 64"
  shows "queue_inv n s'"
  using assms(1)
proof (cases rule: queue_step.cases)
  case (qp_store f k q)
  then show ?thesis using queue_store_keeps [OF assms(2)] by simp
next
  case (qp_publish f q)
  then show ?thesis using queue_publish_keeps [OF assms(2)] assms(3) by simp
next
  case qc_begin
  have "iq_tail (qs_queue s) < iq_head (qs_queue s)"
    using qc_begin assms(2) by (auto simp: queue_inv_def queue_wf_def intro: le_neq_trans)
  then have "unat (iq_tail (qs_queue s)) < unat (iq_head (qs_queue s))" by (simp add: word_less_nat_alt)
  then show ?thesis using qc_begin assms(2)
    by (auto simp: queue_inv_defs queue_contents_def split: queue_producer.splits)
next
  case (qc_copy bs q)
  have c: "queue_wf q" "queue_contents q \<noteq> []" "iq_frameBytes q = n" "bs = take (length bs) (hd (queue_contents q))"
    using qc_copy assms(2) by (simp_all add: queue_inv_defs)
  note h = hd_queue_contents [OF c(1,2)]
  have "iq_storage q ! (iq_slot q (iq_tail q) + length bs) = hd (queue_contents q) ! length bs"
    using h qc_copy(3) c(3) by (simp add: subspan_def)
  then show ?thesis using qc_copy assms(2) h(2) c(3,4)
    by (auto simp: queue_inv_defs take_Suc_conv_app_nth split: queue_producer.splits)
next
  case (qc_publish bs q)
  have c: "queue_wf q" "queue_contents q \<noteq> []" "iq_frameBytes q = n" "bs = take (length bs) (hd (queue_contents q))"
    using qc_publish assms(2) by (simp_all add: queue_inv_defs)
  then have "map snd [(True, bs)] = take 1 (queue_contents q)"
    using hd_queue_contents(2) [OF c(1,2)] qc_publish(3) by (cases "queue_contents q") simp_all
  then show ?thesis using queue_advance_keeps [OF assms(2) qc_publish(4), of 1] qc_publish c(2)
    by (cases "queue_contents q") simp_all
next
  case (qc_drop keep d q)
  let ?q = "qs_queue s"
  have wf: "queue_wf ?q" and log: "map snd (qs_removed s) @ queue_contents ?q = qs_log s"
    using assms(2) by (simp_all add: queue_inv_def)
  have "drop (length (qs_removed s)) (qs_log s) = queue_contents ?q" using log [symmetric] by simp
  moreover have "q = ?q\<lparr>iq_tail := iq_tail ?q + of_nat d\<rparr>" "d \<le> length (queue_contents ?q)"
    using qc_drop(3) length_queue_contents [OF wf] by (auto simp: dropOldest_def Let_def split: if_splits)
  ultimately show ?thesis using queue_advance_keeps [OF assms(2) refl, of d q "map (Pair False) (take d (queue_contents ?q))"] qc_drop(1,2)
    by (cases s) (simp add: comp_def)
qed (use assms(2) in \<open>auto simp: queue_inv_defs push_full_def split: queue_consumer.splits\<close>)

lemma queue_log_grows: "queue_step n s s' \<Longrightarrow> length (qs_log s) \<le> length (qs_log s')"
  by (auto elim!: queue_step.cases)

interpretation queue_sys: step_system "queue_step n" "queue_inv n" "\<lambda>s. length (qs_log s) < 2 ^ 64" for n
  by unfold_locales (use queue_step_keeps queue_log_grows in \<open>fastforce+\<close>)

lemma queue_initial_inv: "queue_inv n (queue_initial n c)"
  by (simp add: queue_inv_defs queue_initial_def queue_reset_wf) (simp add: queue_reset_def)

text \<open>C12: Whatever the interleaving of the producer's byte stores and the consumer's byte loads, as long as
  fewer than 2 to the 64 frames were pushed: the frames accepted are, in order, those removed followed by
  those still queued. So every frame delivered is whole, none is lost, duplicated or reordered, and the
  queue never holds more than its capacity.\<close>

theorem input_queue_fifo_under_interleaving:
  assumes "(queue_step n)\<^sup>*\<^sup>* (queue_initial n c) s" and "length (qs_log s) < 2 ^ 64"
  shows "map snd (qs_removed s) @ queue_contents (qs_queue s) = qs_log s \<and>
         length (queue_contents (qs_queue s)) \<le> iq_capacity (qs_queue s)"
proof -
  have "queue_inv n s" using queue_sys.reachable_inv [OF assms(1) queue_initial_inv assms(2)] .
  then show ?thesis using length_queue_contents by (auto simp: queue_inv_def queue_wf_def queue_size_nat)
qed

definition example_queue_end :: queue_system where
  "example_queue_end =
     (let q = snd (push [7] (queue_reset 1 2))
      in \<lparr>qs_queue = snd (pop [0] q), qs_producer = Qp_Idle, qs_consumer = Qc_Idle, qs_log = [[7]], qs_removed = [(True, [7])]\<rparr>)"

lemma example_queue_run: "(queue_step 1)\<^sup>*\<^sup>* (queue_initial 1 2) example_queue_end"
proof -
  let ?q0 = "queue_reset 1 2"
  let ?q1 = "?q0\<lparr>iq_storage := [7, 0]\<rparr>" and ?q2 = "?q0\<lparr>iq_storage := [7, 0], iq_head := 1\<rparr>"
  let ?st = "\<lambda>q p c log. \<lparr>qs_queue = q, qs_producer = p, qs_consumer = c, qs_log = log, qs_removed = []\<rparr>"
  note defs = queue_reset_def push_full_def queue_size_def iq_slot_def
  have "queue_step 1 (queue_initial 1 2) (?st ?q0 (Qp_Copy [7] 0) Qc_Idle [])"
    using qp_begin [of "queue_initial 1 2" "[7]" 1] by (simp add: queue_initial_def defs)
  then have "(queue_step 1)\<^sup>*\<^sup>* (queue_initial 1 2) (?st ?q0 (Qp_Copy [7] 0) Qc_Idle [])" by blast
  also have "queue_step 1 (?st ?q0 (Qp_Copy [7] 0) Qc_Idle []) (?st ?q1 (Qp_Copy [7] 1) Qc_Idle [])"
    using qp_store [of "?st ?q0 (Qp_Copy [7] 0) Qc_Idle []" "[7]" 0 1 ?q0] by (simp add: defs numeral_2_eq_2)
  also have "queue_step 1 (?st ?q1 (Qp_Copy [7] 1) Qc_Idle []) (?st ?q2 Qp_Idle Qc_Idle [[7]])"
    using qp_publish [of "?st ?q1 (Qp_Copy [7] 1) Qc_Idle []" "[7]" 1 ?q1] by (simp add: defs)
  also have "queue_step 1 (?st ?q2 Qp_Idle Qc_Idle [[7]]) (?st ?q2 Qp_Idle (Qc_Copy []) [[7]])"
    using qc_begin [of "?st ?q2 Qp_Idle Qc_Idle [[7]]" 1] by (simp add: defs)
  also have "queue_step 1 (?st ?q2 Qp_Idle (Qc_Copy []) [[7]]) (?st ?q2 Qp_Idle (Qc_Copy [7]) [[7]])"
    using qc_copy [of "?st ?q2 Qp_Idle (Qc_Copy []) [[7]]" "[]" 1 ?q2] by (simp add: defs)
  also have "queue_step 1 (?st ?q2 Qp_Idle (Qc_Copy [7]) [[7]]) example_queue_end"
    using qc_publish [of "?st ?q2 Qp_Idle (Qc_Copy [7]) [[7]]" "[7]" 1 ?q2]
    by (simp add: example_queue_end_def push_def pop_def defs numeral_2_eq_2 store_bytes_def)
  finally show ?thesis .
qed

theorem input_queue_fifo_under_interleaving_witness:
  "(queue_step 1)\<^sup>*\<^sup>* (queue_initial 1 2) example_queue_end \<and>
   map snd (qs_removed example_queue_end) = [[7]] \<and> queue_contents (qs_queue example_queue_end) = []"
proof -
  have "length (qs_log example_queue_end) < 2 ^ 64" "map snd (qs_removed example_queue_end) = [[7]]" "qs_log example_queue_end = [[7]]"
    by (simp_all add: example_queue_end_def Let_def)
  with input_queue_fifo_under_interleaving [OF example_queue_run this(1)] example_queue_run show ?thesis by simp
qed

section \<open>The assembler restores the frames\<close>

lemma assembler_add_framed:
  assumes "fa_frameBytes a = n" and "0 < n" and "length (fa_partial a) = seen mod n"
    and "length r < kInputPopLimit \<longrightarrow> (seen + length r) mod n = 0" and "assembler_add r a = (out, a')"
  shows "out @ fa_partial a' = fa_partial a @ r" and "n dvd length out" and "fa_frameBytes a' = n"
    and "fa_framingLosses a' = fa_framingLosses a" and "length (fa_partial a') = (seen + length r) mod n"
proof -
  let ?j = "fa_partial a @ r" and ?w = "length (fa_partial a @ r) - length (fa_partial a @ r) mod n"
  have stale: "length ?j mod n = (seen + length r) mod n" using assms(3) by (simp add: mod_add_left_eq)
  then have "\<not> (length r < kInputPopLimit \<and> length ?j mod n \<noteq> 0)" using assms(4) by auto
  then have eq: "out = take ?w ?j" "a' = a\<lparr>fa_partial := drop ?w ?j\<rparr>"
    using assms(1,2,5) by (auto simp: assembler_add_def Let_def split: if_splits)
  show "out @ fa_partial a' = ?j" unfolding eq by (simp del: take_append drop_append)
  show "fa_frameBytes a' = n" "fa_framingLosses a' = fa_framingLosses a"
    using eq(2) assms(1) by simp_all
  have "length out = ?w" unfolding eq length_take by (rule min_absorb2) simp
  then show "n dvd length out" by (metis dvd_minus_mod)
  have "length (fa_partial a') = length ?j mod n" unfolding eq by (simp del: drop_append length_append)
  then show "length (fa_partial a') = (seen + length r) mod n" using stale by (rule trans)
qed

lemma assembler_run_framed:
  assumes "fa_frameBytes a = n" and "0 < n" and "length (fa_partial a) = seen mod n"
    and "ends_on_frames n seen rs" and "assembler_run rs a = (out, a')"
  shows "out @ fa_partial a' = fa_partial a @ concat rs \<and> n dvd length out \<and>
         fa_framingLosses a' = fa_framingLosses a \<and> length (fa_partial a') < n"
  using assms
proof (induction rs arbitrary: a seen out)
  case Nil
  then show ?case by simp
next
  case (Cons r rs)
  obtain o1 a1 where 1: "assembler_add r a = (o1, a1)" by fastforce
  obtain o2 a2 where 2: "assembler_run rs a1 = (o2, a2)" by fastforce
  note add = assembler_add_framed [OF Cons.prems(1-3) _ 1]
  have "length r < kInputPopLimit \<longrightarrow> (seen + length r) mod n = 0" and rs: "ends_on_frames n (seen + length r) rs"
    using Cons.prems(4) by simp_all
  note add = add [OF this(1)]
  have out: "out = o1 @ o2" and 3: "assembler_run rs a1 = (o2, a')" using Cons.prems(5) 1 2 by auto
  note ih = Cons.IH [OF add(3) Cons.prems(2) add(5) rs 3]
  have "out @ fa_partial a' = o1 @ fa_partial a1 @ concat rs" using ih out by simp
  also have "\<dots> = fa_partial a @ concat (r # rs)" using add(1) by (metis append_assoc concat.simps(2))
  finally show ?case using ih add(2,4) out by simp
qed

lemma assembler_add_resyncs:
  assumes "fa_frameBytes a = n" and "length (fa_partial a) < n" and "n dvd length r" and "length r < kInputPopLimit"
    and "assembler_add r a = (out, a')"
  shows "out = r \<and> fa_partial a' = []"
proof -
  have "length (fa_partial a @ r) mod n = length (fa_partial a)" using assms(2,3) by (auto elim!: dvdE)
  moreover have "length r mod n = 0" using assms(3) by simp
  ultimately show ?thesis using assms by (auto simp: assembler_add_def Let_def split: if_splits)
qed

text \<open>C32: When every reply shorter than the firmware's limit ends on a frame boundary, the assembler gives
  back exactly the bytes of the drive's stream in order, in whole frames, holding back less than one frame
  and counting no loss. And whatever stale bytes it holds, a short reply of whole frames is returned
  unchanged and leaves nothing held back, so the framing is right from that reply on.\<close>

theorem assembler_restores_frames:
  assumes "0 < n"
  shows "(ends_on_frames n 0 rs \<and> assembler_run rs (assembler_reset n) = (out, a) \<longrightarrow>
            out @ fa_partial a = concat rs \<and> n dvd length out \<and> length (fa_partial a) < n \<and> fa_framingLosses a = 0) \<and>
         (fa_frameBytes b = n \<and> length (fa_partial b) < n \<and> n dvd length r \<and> length r < 500 \<and>
            assembler_add r b = (whole, b') \<longrightarrow> whole = r \<and> fa_partial b' = [])"
  using assms assembler_run_framed [of "assembler_reset n" n 0 rs out a] assembler_add_resyncs [of b n r whole b']
  by (simp add: assembler_reset_def kInputPopLimit_def)

theorem assembler_restores_frames_witness:
  "ends_on_frames 2 0 [[1, 2], [3, 4, 5, 6]] \<and> fst (assembler_run [[1, 2], [3, 4, 5, 6]] (assembler_reset 2)) = [1, 2, 3, 4, 5, 6] \<and>
   fst (assembler_add [3, 4] (\<lparr>fa_frameBytes = 2, fa_partial = [9], fa_framingLosses = 0\<rparr>)) = [3, 4]"
proof -
  let ?rs = "[[1, 2], [3, 4, 5, 6]] :: bytes list"
  let ?b = "\<lparr>fa_frameBytes = 2, fa_partial = [9], fa_framingLosses = 0\<rparr>"
  have e: "ends_on_frames 2 0 ?rs" by simp
  obtain out a where r: "assembler_run ?rs (assembler_reset 2) = (out, a)" by fastforce
  have p: "fa_partial a = []" using r by (auto simp: assembler_add_def assembler_reset_def kInputPopLimit_def)
  obtain w b' where s: "assembler_add [3, 4] ?b = (w, b')" by fastforce
  have "out = concat ?rs \<and> w = [3, 4]"
    using assembler_restores_frames [of 2 ?rs out a ?b "[3, 4]" w b'] e r s p by simp
  then show ?thesis using e r s by simp
qed

end
