(* ===== verification/Spoe_Connection.thy ===== *)
theory Spoe_Connection
  imports Spoe
begin

text \<open>
  One SPoE connection (\<^verbatim>\<open>libs/comm/spoe_connection.h, .cc\<close>): taking whole frames out of the received
  bytes and the request loop that waits for the reply with its own sequence id and type. The socket is
  a parameter: what a send does, and what arrives before the deadline of the request, as the list of
  the reads it will serve; the deadline passes when that list ends. What arrived and was not read
  stays in the socket for the next request. Message texts are left out of the errors.
\<close>

section \<open>Messages and the socket\<close>

datatype MessageType =
    kSdoRead | kSdoWrite | kPdoFrame | kPdoControl | kSdoBatchRead | kFirmwareUpdate | kFileRead | kFileWrite
  | kStateControl | kStateRead | kParamList | kParamDesc | kParamSubDesc | kParamFullDesc | kServerInfo
  | kDeviceLocate | kWatchdogTimeout

primrec message_code :: "MessageType \<Rightarrow> u8" where
  "message_code kSdoRead = 0x01"
| "message_code kSdoWrite = 0x02"
| "message_code kPdoFrame = 0x03"
| "message_code kPdoControl = 0x04"
| "message_code kSdoBatchRead = 0x06"
| "message_code kFirmwareUpdate = 0x0B"
| "message_code kFileRead = 0x0C"
| "message_code kFileWrite = 0x0D"
| "message_code kStateControl = 0x0E"
| "message_code kStateRead = 0x0F"
| "message_code kParamList = 0x10"
| "message_code kParamDesc = 0x11"
| "message_code kParamSubDesc = 0x12"
| "message_code kParamFullDesc = 0x13"
| "message_code kServerInfo = 0x20"
| "message_code kDeviceLocate = 0x21"
| "message_code kWatchdogTimeout = 0x22"

datatype write_result = Sent | Send_Timeout | Send_Error

datatype read_result = Got bytes | Read_Error

record 'w net =
  nt_connect :: "string \<Rightarrow> 'w \<Rightarrow> bool \<times> 'w"
  nt_exchange :: "string \<Rightarrow> bytes \<Rightarrow> 'w \<Rightarrow> (write_result \<times> read_result list) \<times> 'w"

datatype ConnectionError = kTimeout | kClosed | kInvalidRequest

record SpoeConnection =
  cn_open :: bool
  cn_nextSequenceId :: u16
  cn_received :: bytes
  cn_discarded :: u64
  cn_socket :: "read_result list"

definition new_connection :: SpoeConnection where
  "new_connection = \<lparr>cn_open = False, cn_nextSequenceId = 1, cn_received = [], cn_discarded = 0, cn_socket = []\<rparr>"

section \<open>Operations\<close>

definition closeLocked :: "SpoeConnection \<Rightarrow> SpoeConnection" where
  "closeLocked c = c\<lparr>cn_received := [], cn_open := False, cn_socket := []\<rparr>"

definition conn_connect :: "'w net \<Rightarrow> string \<Rightarrow> SpoeConnection \<Rightarrow> 'w \<Rightarrow> bool \<times> SpoeConnection \<times> 'w" where
  "conn_connect net host c w =
     (let c = closeLocked c
      in case nt_connect net host w of
           (True, w) \<Rightarrow> (True, c\<lparr>cn_open := True\<rparr>, w)
         | (False, w) \<Rightarrow> (False, c, w))"

definition takeFrame :: "bytes \<Rightarrow> u16 + (Frame \<times> bytes) option" where
  "takeFrame received =
     (case decodeHeader received of
        None \<Rightarrow> Inr None
      | Some header \<Rightarrow>
          if unat (fh_dataLength header) > kMaxDataSize then Inl (fh_dataLength header)
          else let size = 7 + unat (fh_dataLength header)
               in if length received < size then Inr None
                  else Inr (Some (\<lparr>fr_type = fh_type header, fr_sequenceId = fh_sequenceId header,
                                   fr_status = fh_status header, fr_data = subspan received 7 (size - 7)\<rparr>,
                                  drop size received)))"

lemma takeFrame_shrinks: "takeFrame bs = Inr (Some (f, rest)) \<Longrightarrow> length rest < length bs"
  by (auto simp: takeFrame_def decodeHeader_def Let_def split: option.splits if_splits)

function request_loop ::
  "u8 \<Rightarrow> u16 \<Rightarrow> read_result list \<Rightarrow> SpoeConnection \<Rightarrow> (ConnectionError + Frame) \<times> SpoeConnection" where
  "request_loop type sequenceId reads c =
     (case takeFrame (cn_received c) of
        Inl _ \<Rightarrow> (Inl kClosed, closeLocked c)
      | Inr (Some (reply, rest)) \<Rightarrow>
          if fr_sequenceId reply = sequenceId \<and> fr_type reply = type
          then (Inr reply, c\<lparr>cn_received := rest, cn_socket := reads\<rparr>)
          else request_loop type sequenceId reads (c\<lparr>cn_received := rest, cn_discarded := cn_discarded c + 1\<rparr>)
      | Inr None \<Rightarrow>
          (case reads of
             [] \<Rightarrow> (Inl kTimeout, c\<lparr>cn_socket := []\<rparr>)
           | Got bs # reads \<Rightarrow> request_loop type sequenceId reads (c\<lparr>cn_received := cn_received c @ bs\<rparr>)
           | Read_Error # _ \<Rightarrow> (Inl kClosed, closeLocked c)))"
  by pat_completeness auto

termination request_loop
  by (relation "measures [\<lambda>(_, _, reads, _). length reads, \<lambda>(_, _, _, c). length (cn_received c)]")
     (auto dest: takeFrame_shrinks)

declare request_loop.simps [simp del]

definition request ::
  "'w net \<Rightarrow> string \<Rightarrow> MessageType \<Rightarrow> u16 \<Rightarrow> bytes \<Rightarrow> SpoeConnection \<Rightarrow> 'w
     \<Rightarrow> (ConnectionError + Frame) \<times> SpoeConnection \<times> 'w" where
  "request net host type status data c w =
     (if \<not> cn_open c then (Inl kClosed, c, w)
      else
        let sequenceId = cn_nextSequenceId c;
            c = c\<lparr>cn_nextSequenceId := cn_nextSequenceId c + 1\<rparr>
        in case encodeFrame \<lparr>fr_type = message_code type, fr_sequenceId = sequenceId, fr_status = status, fr_data = data\<rparr> of
             Inl _ \<Rightarrow> (Inl kInvalidRequest, c, w)
           | Inr bs \<Rightarrow>
               (case nt_exchange net host bs w of
                  ((Sent, arriving), w) \<Rightarrow>
                    (case request_loop (message_code type) sequenceId (cn_socket c @ arriving) c of (r, c) \<Rightarrow> (r, c, w))
                | (_, w) \<Rightarrow> (Inl kClosed, closeLocked c, w)))"

section \<open>Frames in the stream\<close>

definition frame_bytes :: "Frame \<Rightarrow> bytes" where
  "frame_bytes f = (case encodeFrame f of Inl _ \<Rightarrow> [] | Inr bs \<Rightarrow> bs)"

definition frame_fits :: "Frame \<Rightarrow> bool" where
  "frame_fits f \<longleftrightarrow> length (fr_data f) \<le> 512"

lemma frame_bytes_header:
  assumes "frame_fits f"
  obtains header where "frame_bytes f = header @ fr_data f" "length header = 7"
    "\<And>rest. decodeHeader (header @ rest) =
       Some \<lparr>fh_type = fr_type f, fh_sequenceId = fr_sequenceId f, fh_status = fr_status f,
             fh_dataLength = of_nat (length (fr_data f))\<rparr>"
    "unat (of_nat (length (fr_data f)) :: u16) = length (fr_data f)"
  using assms encodeFrame_header [of f] by (auto simp: frame_fits_def frame_bytes_def)

lemma length_frame_bytes: "frame_fits f \<Longrightarrow> length (frame_bytes f) = 7 + length (fr_data f)"
  by (rule frame_bytes_header) auto

text \<open>A received prefix of a stream of frames yields its first frame as soon as it is whole.\<close>

lemma takeFrame_stream:
  assumes "frame_fits f" and "received @ later = frame_bytes f @ tail"
  shows "takeFrame received =
    (if length received < length (frame_bytes f) then Inr None
     else Inr (Some (f, drop (length (frame_bytes f)) received)))"
proof (cases "length received < 7")
  case True
  then show ?thesis using length_frame_bytes [OF assms(1)] by (simp add: takeFrame_def decodeHeader_def)
next
  case False
  obtain header where h: "frame_bytes f = header @ fr_data f" "length header = 7"
    "\<And>rest. decodeHeader (header @ rest) =
       Some \<lparr>fh_type = fr_type f, fh_sequenceId = fr_sequenceId f, fh_status = fr_status f,
             fh_dataLength = of_nat (length (fr_data f))\<rparr>"
    "unat (of_nat (length (fr_data f)) :: u16) = length (fr_data f)"
    using frame_bytes_header [OF assms(1)] by metis
  have "take 7 received = take 7 (received @ later)" using False by simp
  also have "\<dots> = header" using assms(2) h(1,2) by simp
  finally obtain body where r: "received = header @ body" by (metis append_take_drop_id)
  then have "body @ later = fr_data f @ tail" using assms(2) h(1) by simp
  then have "length (fr_data f) \<le> length body \<Longrightarrow> take (length (fr_data f)) body = fr_data f"
    by (metis append_eq_append_conv_if append_take_drop_id take_append)
  then show ?thesis using assms(1) h r
    by (cases f) (auto simp: takeFrame_def kMaxDataSize_def frame_fits_def subspan_def Let_def)
qed

section \<open>The reply of a request\<close>

definition answers :: "u8 \<Rightarrow> u16 \<Rightarrow> Frame \<Rightarrow> bool" where
  "answers type sequenceId f \<longleftrightarrow> fr_sequenceId f = sequenceId \<and> fr_type f = type"

lemma request_loop_finds:
  assumes "list_all frame_fits fs" and "list_all (\<lambda>f. \<not> answers type sequenceId f) fs"
    and "frame_fits r" and "answers type sequenceId r" and "reads = map Got chunks @ others"
    and "cn_received c @ concat chunks = concat (map frame_bytes fs) @ frame_bytes r @ tail"
  shows "\<exists>rest left. rest @ concat left = tail \<and>
    request_loop type sequenceId reads c =
      (Inr r, c\<lparr>cn_received := rest, cn_discarded := cn_discarded c + of_nat (length fs), cn_socket := map Got left @ others\<rparr>)"
  using assms
proof (induction type sequenceId reads c arbitrary: fs chunks rule: request_loop.induct)
  case (1 type sequenceId reads c)
  define g where "g = hd (fs @ [r])"
  define later where "later = concat (map frame_bytes (tl (fs @ [r]))) @ tail"
  have g: "frame_fits g" using "1.prems"(1,3) by (cases fs) (simp_all add: g_def)
  have stream: "cn_received c @ concat chunks = frame_bytes g @ later"
    using "1.prems"(6) by (cases fs) (simp_all add: g_def later_def)
  note take = takeFrame_stream [OF g stream]
  show ?case
  proof (cases "length (cn_received c) < length (frame_bytes g)")
    case True
    then have none: "takeFrame (cn_received c) = Inr None" using take by simp
    obtain ch cs where chunks: "chunks = ch # cs"
      using True arg_cong [OF stream, of length] by (cases chunks) auto
    have "\<exists>rest left. rest @ concat left = tail \<and>
        request_loop type sequenceId (map Got cs @ others) (c\<lparr>cn_received := cn_received c @ ch\<rparr>) =
          (Inr r, c\<lparr>cn_received := rest, cn_discarded := cn_discarded c + of_nat (length fs), cn_socket := map Got left @ others\<rparr>)"
      using "1.IH"(1) [OF none refl, of "Got ch" "map Got cs @ others" ch fs cs] "1.prems" chunks by simp
    then show ?thesis using none chunks "1.prems"(5) by (simp add: request_loop.simps [of _ _ _ c])
  next
    case False
    define rest where "rest = drop (length (frame_bytes g)) (cn_received c)"
    have some: "takeFrame (cn_received c) = Inr (Some (g, rest))" using take False by (simp add: rest_def)
    have split: "rest @ concat chunks = later"
      using arg_cong [OF stream, of "drop (length (frame_bytes g))"] False by (simp add: rest_def)
    show ?thesis
    proof (cases fs)
      case Nil
      then show ?thesis using some split "1.prems"(4,5)
        by (auto simp: request_loop.simps [of _ _ _ c] g_def later_def answers_def intro!: exI [of _ rest] exI [of _ chunks])
    next
      case (Cons f fs')
      have "g = f" and no: "\<not> (fr_sequenceId g = sequenceId \<and> fr_type g = type)"
        using Cons "1.prems"(2) by (simp_all add: g_def answers_def)
      have "\<exists>rest' left. rest' @ concat left = tail \<and>
          request_loop type sequenceId reads (c\<lparr>cn_received := rest, cn_discarded := cn_discarded c + 1\<rparr>) =
          (Inr r, c\<lparr>cn_received := rest', cn_discarded := cn_discarded c + 1 + of_nat (length fs'), cn_socket := map Got left @ others\<rparr>)"
        using "1.IH"(2) [OF some refl refl no, of fs' chunks] "1.prems" Cons split by (simp add: later_def)
      moreover have "request_loop type sequenceId reads c =
          request_loop type sequenceId reads (c\<lparr>cn_received := rest, cn_discarded := cn_discarded c + 1\<rparr>)"
        using some no by (subst request_loop.simps) auto
      ultimately show ?thesis using Cons by (simp add: algebra_simps)
    qed
  qed
qed

lemma request_loop_outcome:
  "request_loop type sequenceId reads c = (r, c') \<Longrightarrow> cn_open c = b \<Longrightarrow>
     (case r of Inr f \<Rightarrow> answers type sequenceId f \<and> length (fr_data f) \<le> 512 \<and> cn_open c' = b
              | Inl e \<Rightarrow> e = kClosed \<and> \<not> cn_open c' \<or> e = kTimeout \<and> cn_open c' = b)"
proof (induction type sequenceId reads c rule: request_loop.induct)
  case (1 type sequenceId reads c)
  show ?case
  proof (cases "takeFrame (cn_received c)")
    case (Inl x)
    then show ?thesis using "1.prems" by (auto simp: request_loop.simps [of _ _ _ c] closeLocked_def)
  next
    case (Inr x)
    show ?thesis
    proof (cases x)
      case None
      then show ?thesis using Inr "1.prems" "1.IH"(1)
        by (auto simp: request_loop.simps [of _ _ _ c] closeLocked_def split: list.splits read_result.splits)
    next
      case (Some y)
      obtain f rest where y: "y = (f, rest)" by (cases y)
      have "length (fr_data f) \<le> 512"
        using Inr Some y by (auto simp: takeFrame_def kMaxDataSize_def Let_def split: option.splits if_splits)
      then show ?thesis using Inr Some y "1.prems" "1.IH"(2) [OF Inr Some y [symmetric]]
        by (auto simp: request_loop.simps [of _ _ _ c] answers_def split: if_splits)
    qed
  qed
qed

lemma request_outcome:
  assumes "request net host type status data c w = (r, c', w')"
  shows "case r of
           Inr f \<Rightarrow> cn_open c \<and> cn_open c' \<and> fr_type f = message_code type \<and> fr_sequenceId f = cn_nextSequenceId c \<and>
                    length (fr_data f) \<le> 512
         | Inl kClosed \<Rightarrow> \<not> cn_open c'
         | Inl kTimeout \<Rightarrow> cn_open c'
         | Inl kInvalidRequest \<Rightarrow> cn_open c' \<and> 512 < length data"
  using assms request_loop_outcome
  by (fastforce simp: request_def encodeFrame_def closeLocked_def kMaxDataSize_def answers_def Let_def
      split: if_splits sum.splits prod.splits write_result.splits ConnectionError.splits)

text \<open>C15: A request on an open connection returns the reply that carries its sequence id and type, behind
  any number of stale replies and however the stream is cut into reads; the stale ones are counted, and
  what follows the reply stays for the next request.\<close>

theorem request_finds_its_reply:
  assumes "cn_open c" and "length data \<le> 512" and "cn_socket c = map Got waiting"
    and "frame_bytes \<lparr>fr_type = message_code type, fr_sequenceId = cn_nextSequenceId c, fr_status = status, fr_data = data\<rparr> = sent"
    and "nt_exchange net host sent w = ((Sent, map Got chunks @ others), w')"
    and "cn_received c @ concat (waiting @ chunks) = concat (map frame_bytes stale) @ frame_bytes reply @ tail"
    and "list_all (\<lambda>f. frame_fits f \<and> \<not> answers (message_code type) (cn_nextSequenceId c) f) stale"
    and "frame_fits reply" and "answers (message_code type) (cn_nextSequenceId c) reply"
  shows "\<exists>rest left. rest @ concat left = tail \<and>
    request net host type status data c w =
      (Inr reply, c\<lparr>cn_nextSequenceId := cn_nextSequenceId c + 1, cn_received := rest,
                    cn_discarded := cn_discarded c + of_nat (length stale), cn_socket := map Got left @ others\<rparr>, w')"
proof -
  let ?c = "c\<lparr>cn_nextSequenceId := cn_nextSequenceId c + 1\<rparr>"
  let ?f = "\<lparr>fr_type = message_code type, fr_sequenceId = cn_nextSequenceId c, fr_status = status, fr_data = data\<rparr>"
  have "encodeFrame ?f = Inr sent"
    using assms(2,4) encodeFrame_header [of ?f] by (auto simp: frame_bytes_def)
  moreover obtain rest left where "rest @ concat left = tail"
    "request_loop (message_code type) (cn_nextSequenceId c) (map Got (waiting @ chunks) @ others) ?c =
      (Inr reply, ?c\<lparr>cn_received := rest, cn_discarded := cn_discarded ?c + of_nat (length stale), cn_socket := map Got left @ others\<rparr>)"
    using request_loop_finds [of stale "message_code type" "cn_nextSequenceId c" reply _ "waiting @ chunks" others ?c tail] assms
    by (auto simp: list_all_iff)
  ultimately show ?thesis using assms(1,3,5) by (intro exI [of _ rest] exI [of _ left]) (simp add: request_def)
qed

text \<open>A stale reply and the first byte of the right one in one read, the rest in the next.\<close>

definition example_reply :: "u16 \<Rightarrow> Frame" where
  "example_reply sequenceId = \<lparr>fr_type = 1, fr_sequenceId = sequenceId, fr_status = 0, fr_data = [42]\<rparr>"

definition example_net :: "unit net" where
  "example_net =
     \<lparr>nt_connect = (\<lambda>_ w. (True, w)),
      nt_exchange = (\<lambda>_ _ w. ((Sent, [Got (frame_bytes (example_reply 0) @ [1]), Got (drop 1 (frame_bytes (example_reply 1)))]), w))\<rparr>"

theorem request_finds_its_reply_witness:
  "fst (request example_net [] kSdoRead 0 [] (new_connection\<lparr>cn_open := True\<rparr>) ()) = Inr (example_reply 1)"
proof -
  let ?c = "new_connection\<lparr>cn_open := True\<rparr>"
  let ?r = "\<lambda>n. frame_bytes (example_reply n)"
  have b: "?r 0 = [1, 0, 0, 0, 0, 1, 0, 42]" "?r 1 = [1, 1, 0, 0, 0, 1, 0, 42]"
    by (simp_all add: frame_bytes_def encodeFrame_def example_reply_def kMaxDataSize_def)
  have "\<exists>rest left. rest @ concat left = [] \<and> request example_net [] kSdoRead 0 [] ?c () =
      (Inr (example_reply 1), ?c\<lparr>cn_nextSequenceId := cn_nextSequenceId ?c + 1, cn_received := rest,
         cn_discarded := cn_discarded ?c + of_nat (length [example_reply 0]), cn_socket := map Got left @ []\<rparr>, ())"
    by (rule request_finds_its_reply [where waiting = "[]" and chunks = "[?r 0 @ [1], drop 1 (?r 1)]"
          and stale = "[example_reply 0]" and others = "[]" and tail = "[]"])
       (simp_all add: new_connection_def example_net_def b, simp_all add: example_reply_def frame_fits_def answers_def)
  then show ?thesis by auto
qed

section \<open>A drive that answers at once\<close>

lemma request_answered:
  assumes "cn_open c" and "cn_received c = []" and "cn_socket c = []" and "length data \<le> 512"
    and "nt_exchange net host (frame_bytes \<lparr>fr_type = message_code type, fr_sequenceId = cn_nextSequenceId c,
           fr_status = status, fr_data = data\<rparr>) w = ((Sent, [Got (frame_bytes reply)]), w')"
    and "frame_fits reply" and "answers (message_code type) (cn_nextSequenceId c) reply"
  shows "request net host type status data c w = (Inr reply, c\<lparr>cn_nextSequenceId := cn_nextSequenceId c + 1\<rparr>, w')"
proof -
  let ?c = "c\<lparr>cn_nextSequenceId := cn_nextSequenceId c + 1\<rparr>"
  let ?f = "\<lparr>fr_type = message_code type, fr_sequenceId = cn_nextSequenceId c, fr_status = status, fr_data = data\<rparr>"
  have e: "encodeFrame ?f = Inr (frame_bytes ?f)"
    using assms(4) encodeFrame_header [of ?f] by (auto simp: frame_bytes_def)
  have "length (frame_bytes reply) \<noteq> 0" using length_frame_bytes [OF assms(6)] by simp
  moreover have "takeFrame [] = Inr None" by (simp add: takeFrame_def decodeHeader_def)
  moreover have "takeFrame (frame_bytes reply) = Inr (Some (reply, []))"
    using takeFrame_stream [OF assms(6), of "frame_bytes reply" "[]" "[]"] by simp
  ultimately show ?thesis using assms e
    by (cases c) (simp add: request_def request_loop.simps answers_def)
qed

end
