(* ===== verification/Spoe_Driver.thy ===== *)
theory Spoe_Driver
  imports Spoe_Connection Process_Image Ethercat_State
begin

text \<open>
  The SPoE fieldbus driver (\<^verbatim>\<open>libs/comm/spoe_fieldbus_driver.h, .cc\<close>): SDO access, the sizes of the
  process data, its configuration, one pass of the exchange thread, the real-time exchange, state
  changes, the parameter list and file transfer. An operation on a drive takes the drive and the
  network it is on and returns both. The assignment loops count in eight bits and need not end, so they
  are \<^theory_text>\<open>partial_function (option)\<close>s.
\<close>

unbundle bit_operations_syntax

section \<open>Drives and configuration\<close>

datatype SpoeMode = kMonitor | kControl

datatype PdoMode = kModeNone | kModeMonitor | kModeControl

primrec pdo_mode_code :: "PdoMode \<Rightarrow> u8" where
  "pdo_mode_code kModeNone = 0x00"
| "pdo_mode_code kModeMonitor = 0x01"
| "pdo_mode_code kModeControl = 0x02"

record SpoeConfig =
  sc_mode :: SpoeMode
  sc_watchdogMs :: u32

record SlaveInfo =
  si_name :: bytes
  si_vendorId :: u32
  si_productCode :: u32
  si_revisionNumber :: u32
  si_serialNumber :: u32

record SpoeDrive =
  dr_host :: string
  dr_connection :: SpoeConnection
  dr_state :: u16
  dr_info :: SlaveInfo
  dr_protocolVersion :: u16
  dr_io :: SlaveIo
  dr_outputs :: SpoeOutputSlot
  dr_inputs :: SpoeInputQueue
  dr_assembler :: SpoeFrameAssembler
  dr_exchanging :: bool
  dr_droppedFrames :: u64
  dr_exchange :: bool

datatype spoe_error =
    Se_Connection ConnectionError
  | Se_Sdo u16 u8 u16
  | Se_Empty u16 u8
  | Se_TooShort u16 u8
  | Se_TooLarge nat
  | Se_PdoModeRefused PdoMode

type_synonym 'w drive_state = "SpoeDrive \<times> 'w"

definition kInputQueueLimit :: nat where
  "kInputQueueLimit = 30"

definition kProtocolVersion100 :: u16 where
  "kProtocolVersion100 = 0x0100"

definition kProtocolVersion102 :: u16 where
  "kProtocolVersion102 = 0x0102"

section \<open>SDO access\<close>

definition spoe_address :: "u16 \<Rightarrow> u16 \<Rightarrow> bytes" where
  "spoe_address index subindex =
     [ucast index, ucast (drop_bit 8 index), ucast subindex, ucast (drop_bit 8 subindex)]"

definition drive_request ::
  "'w net \<Rightarrow> MessageType \<Rightarrow> bytes \<Rightarrow> u16 \<Rightarrow> ('w drive_state, spoe_error, Frame) io" where
  "drive_request net type data status = (\<lambda>(d, w).
     case request net (dr_host d) type status data (dr_connection d) w of
       (Inr reply, c, w) \<Rightarrow> (Inr reply, (d\<lparr>dr_connection := c\<rparr>, w))
     | (Inl e, c, w) \<Rightarrow>
         (Inl (Se_Connection e),
          (d\<lparr>dr_connection := c, dr_state := if e = kClosed then 0 else dr_state d\<rparr>, w)))"

definition readSdoFrom :: "'w net \<Rightarrow> u16 \<Rightarrow> u8 \<Rightarrow> ('w drive_state, spoe_error, bytes) io" where
  "readSdoFrom net index subindex =
     io_bind (drive_request net kSdoRead (spoe_address index (ucast subindex)) 0) (\<lambda>reply.
       if fr_status reply \<noteq> 0 then io_fail (Se_Sdo index subindex (fr_status reply))
       else io_return (fr_data reply))"

definition writeSdo :: "'w net \<Rightarrow> u16 \<Rightarrow> u8 \<Rightarrow> bytes \<Rightarrow> ('w drive_state, spoe_error, unit) io" where
  "writeSdo net index subindex data =
     (if length data > kMaxDataSize - 6 then io_fail (Se_TooLarge (length data))
      else io_bind (drive_request net kSdoWrite
                      (spoe_address index (ucast subindex) @
                       [of_nat (length data), of_nat (length data div 256)] @ data) 0) (\<lambda>reply.
             if fr_status reply \<noteq> 0 then io_fail (Se_Sdo index subindex (fr_status reply))
             else io_return ()))"

section \<open>The size of the process data\<close>

definition spoe_readU8 :: "'w net \<Rightarrow> u16 \<Rightarrow> u8 \<Rightarrow> ('w drive_state, spoe_error, u8) io" where
  "spoe_readU8 net index subindex =
     io_bind (readSdoFrom net index subindex) (\<lambda>bs.
       case bs of [] \<Rightarrow> io_fail (Se_Empty index subindex) | b # _ \<Rightarrow> io_return b)"

partial_function (option) entry_bits ::
  "'w net \<Rightarrow> u16 \<Rightarrow> u8 \<Rightarrow> u8 \<Rightarrow> u32 \<Rightarrow> 'w drive_state \<Rightarrow> ((spoe_error + u32) \<times> 'w drive_state) option" where
  "entry_bits net pdoIndex entryCount entry bits s =
     (if entry \<le> entryCount
      then (case readSdoFrom net pdoIndex entry s of
              (Inl e, s) \<Rightarrow> Some (Inl e, s)
            | (Inr mapping, s) \<Rightarrow>
                if mapping = [] then Some (Inl (Se_Empty pdoIndex entry), s)
                else entry_bits net pdoIndex entryCount (entry + 1) (bits + ucast (hd mapping)) s)
      else Some (Inr bits, s))"

partial_function (option) pdo_bits ::
  "'w net \<Rightarrow> u16 \<Rightarrow> u8 \<Rightarrow> u8 \<Rightarrow> u32 \<Rightarrow> 'w drive_state \<Rightarrow> ((spoe_error + u32) \<times> 'w drive_state) option" where
  "pdo_bits net assignIndex pdoCount i bits s =
     (if i \<le> pdoCount
      then (case readSdoFrom net assignIndex i s of
              (Inl e, s) \<Rightarrow> Some (Inl e, s)
            | (Inr pdo, s) \<Rightarrow>
                if length pdo < 2 then Some (Inl (Se_TooShort assignIndex i), s)
                else (case spoe_readU8 net (readU16 pdo 0) 0 s of
                        (Inl e, s) \<Rightarrow> Some (Inl e, s)
                      | (Inr entryCount, s) \<Rightarrow>
                          Option.bind (entry_bits net (readU16 pdo 0) entryCount 1 bits s) (\<lambda>r.
                            case r of
                              (Inl e, s) \<Rightarrow> Some (Inl e, s)
                            | (Inr bits, s) \<Rightarrow> pdo_bits net assignIndex pdoCount (i + 1) bits s)))
      else Some (Inr bits, s))"

definition assignedBits ::
  "'w net \<Rightarrow> u16 \<Rightarrow> 'w drive_state \<Rightarrow> ((spoe_error + u32) \<times> 'w drive_state) option" where
  "assignedBits net assignIndex s =
     (case spoe_readU8 net assignIndex 0 s of
        (Inl e, s) \<Rightarrow> Some (Inl e, s)
      | (Inr pdoCount, s) \<Rightarrow> pdo_bits net assignIndex pdoCount 1 0 s)"

section \<open>Configuring the process data\<close>

definition set_pdo_mode :: "'w net \<Rightarrow> PdoMode \<Rightarrow> ('w drive_state, spoe_error, unit) io" where
  "set_pdo_mode net mode =
     io_bind (drive_request net kPdoControl [pdo_mode_code mode] 0) (\<lambda>modeSet.
       if fr_status modeSet \<noteq> 0 then io_fail (Se_PdoModeRefused mode) else io_return ())"

definition set_watchdog :: "'w net \<Rightarrow> SpoeConfig \<Rightarrow> ('w drive_state, spoe_error, unit) io" where
  "set_watchdog net cfg = (\<lambda>(d, w).
     if sc_mode cfg = kControl \<and> dr_protocolVersion d \<noteq> kProtocolVersion100
     then io_bind (drive_request net kWatchdogTimeout (le_bytes 4 (sc_watchdogMs cfg)) 0) (\<lambda>_. io_return ()) (d, w)
     else (Inr (), (d, w)))"

definition empty_window :: "u16 \<Rightarrow> PdoLayout \<Rightarrow> SlaveIo" where
  "empty_window position layout =
     \<lparr>sio_slavePosition = position, sio_outputOffset = pl_outputBytes layout, sio_outputBytes = 0,
      sio_inputOffset = pl_inputBytes layout, sio_inputBytes = 0\<rparr>"

definition reset_buffers :: "SpoeDrive \<Rightarrow> SpoeDrive" where
  "reset_buffers d =
     d\<lparr>dr_outputs := slot_reset (unat (sio_outputBytes (dr_io d))),
       dr_inputs := queue_reset (unat (sio_inputBytes (dr_io d))) (2 * kInputQueueLimit),
       dr_assembler := assembler_reset (unat (sio_inputBytes (dr_io d))), dr_droppedFrames := 0\<rparr>"

definition add_window :: "SlaveIo \<Rightarrow> PdoLayout \<Rightarrow> PdoLayout" where
  "add_window io layout =
     \<lparr>pl_outputBytes = pl_outputBytes layout + sio_outputBytes io,
      pl_inputBytes = pl_inputBytes layout + sio_inputBytes io,
      pl_slaves = pl_slaves layout @ [io],
      pl_expectedWkc = pl_expectedWkc layout +
        (if sio_outputBytes io > 0 then 2 else 0) + (if sio_inputBytes io > 0 then 1 else 0)\<rparr>"

definition configure_drive ::
  "'w net \<Rightarrow> SpoeConfig \<Rightarrow> u16 \<Rightarrow> PdoLayout \<Rightarrow> 'w drive_state \<Rightarrow> ((spoe_error + PdoLayout) \<times> 'w drive_state) option" where
  "configure_drive net cfg position layout = (\<lambda>(d, w).
     let d = d\<lparr>dr_io := empty_window position layout\<rparr>
     in if dr_state d = 0 \<or> \<not> cn_open (dr_connection d)
        then Some (Inr (layout\<lparr>pl_slaves := pl_slaves layout @ [dr_io d]\<rparr>), (d, w))
        else Option.bind (assignedBits net 0x1C12 (d, w)) (\<lambda>r. case r of
          (Inl e, s) \<Rightarrow> Some (Inl e, s)
        | (Inr outputBits, s) \<Rightarrow>
            Option.bind (assignedBits net 0x1C13 s) (\<lambda>r. case r of
              (Inl e, s) \<Rightarrow> Some (Inl e, s)
            | (Inr inputBits, (d, w)) \<Rightarrow>
                let d = d\<lparr>dr_io := (dr_io d)\<lparr>sio_outputBytes := (outputBits + 7) div 8,
                                           sio_inputBytes := (inputBits + 7) div 8\<rparr>\<rparr>;
                    mode = (if sc_mode cfg = kControl then kModeControl else kModeMonitor)
                in case io_bind (set_pdo_mode net mode) (\<lambda>_. set_watchdog net cfg) (d, w) of
                     (Inl e, s) \<Rightarrow> Some (Inl e, s)
                   | (Inr _, (d, w)) \<Rightarrow>
                       let d = reset_buffers d in Some (Inr (add_window (dr_io d) layout), (d, w)))))"

fun configure_drives ::
  "'w net \<Rightarrow> SpoeConfig \<Rightarrow> u16 \<Rightarrow> PdoLayout \<Rightarrow> SpoeDrive list \<Rightarrow> 'w
     \<Rightarrow> ((spoe_error + PdoLayout) \<times> SpoeDrive list \<times> 'w) option" where
  "configure_drives net cfg position layout [] w = Some (Inr layout, [], w)"
| "configure_drives net cfg position layout (d # ds) w =
     Option.bind (configure_drive net cfg (position + 1) layout (d, w)) (\<lambda>r. case r of
       (Inl e, (d, w)) \<Rightarrow> Some (Inl e, d # ds, w)
     | (Inr layout, (d, w)) \<Rightarrow>
         Option.bind (configure_drives net cfg (position + 1) layout ds w) (\<lambda>(r, ds, w). Some (r, d # ds, w)))"

record SpoeFieldbusDriver =
  sd_config :: SpoeConfig
  sd_drives :: "SpoeDrive list"
  sd_layout :: PdoLayout

definition empty_layout :: PdoLayout where
  "empty_layout = \<lparr>pl_outputBytes = 0, pl_inputBytes = 0, pl_slaves = [], pl_expectedWkc = 0\<rparr>"

definition stopExchanges :: "SpoeDrive list \<Rightarrow> SpoeDrive list" where
  "stopExchanges = map (\<lambda>d. d\<lparr>dr_exchange := False, dr_exchanging := False\<rparr>)"

definition configureProcessData ::
  "'w net \<Rightarrow> SpoeFieldbusDriver \<Rightarrow> 'w \<Rightarrow> ((spoe_error + unit) \<times> SpoeFieldbusDriver \<times> 'w) option" where
  "configureProcessData net sd w =
     Option.bind (configure_drives net (sd_config sd) 0 empty_layout (stopExchanges (sd_drives sd)) w) (\<lambda>r. case r of
       (Inl e, ds, w) \<Rightarrow> Some (Inl e, sd\<lparr>sd_drives := ds\<rparr>, w)
     | (Inr layout, ds, w) \<Rightarrow>
         Some (Inr (),
               sd\<lparr>sd_layout := layout,
                  sd_drives := map (\<lambda>d. if sio_outputBytes (dr_io d) > 0 \<or> sio_inputBytes (dr_io d) > 0
                                        then d\<lparr>dr_exchange := True\<rparr> else d) ds\<rparr>, w))"

section \<open>Exchanging process data\<close>

fun push_frames :: "bytes list \<Rightarrow> SpoeInputQueue \<Rightarrow> nat \<times> SpoeInputQueue" where
  "push_frames [] q = (0, q)"
| "push_frames (f # fs) q =
     (case push f q of (ok, q) \<Rightarrow> case push_frames fs q of (dropped, q) \<Rightarrow> (if ok then dropped else Suc dropped, q))"

function frames_of :: "nat \<Rightarrow> bytes \<Rightarrow> bytes list" where
  "frames_of n bs = (if n > 0 \<and> n \<le> length bs then take n bs # frames_of n (drop n bs) else [])"
  by pat_completeness auto

termination frames_of
  by (relation "measure (\<lambda>(n, bs). length bs)") auto

declare frames_of.simps [simp del]

text \<open>How the thread waits after a pass: not at all, for a rescan, or until the next period.\<close>

datatype exchange_pause = No_Pause | Await_Rescan | Until_Next

definition exchange_pass :: "'w net \<Rightarrow> SpoeConfig \<Rightarrow> 'w drive_state \<Rightarrow> exchange_pause \<times> 'w drive_state" where
  "exchange_pass net cfg = (\<lambda>(d, w).
     let (outputs, slot) = (if sc_mode cfg = kControl then slot_read (dr_outputs d) else ([], dr_outputs d));
         d = d\<lparr>dr_outputs := slot\<rparr>
     in case request net (dr_host d) kPdoFrame 0 outputs (dr_connection d) w of
          (Inl e, c, w) \<Rightarrow>
            let d = d\<lparr>dr_connection := c, dr_exchanging := False\<rparr>
            in if e = kClosed then (Await_Rescan, (d\<lparr>dr_state := 0\<rparr>, w)) else (No_Pause, (d, w))
        | (Inr reply, c, w) \<Rightarrow>
            let d = d\<lparr>dr_connection := c, dr_exchanging := (fr_status reply = 0)\<rparr>
            in if fr_status reply = 0
               then let (frames, a) = assembler_add (fr_data reply) (dr_assembler d);
                        (dropped, q) = push_frames (frames_of (unat (sio_inputBytes (dr_io d))) frames) (dr_inputs d)
                    in (Until_Next, (d\<lparr>dr_assembler := a, dr_inputs := q,
                                       dr_droppedFrames := dr_droppedFrames d + of_nat dropped\<rparr>, w))
               else (Until_Next, (d, w)))"

definition exchange_outputs :: "SpoeConfig \<Rightarrow> bytes \<Rightarrow> SpoeDrive \<Rightarrow> SpoeDrive" where
  "exchange_outputs cfg outputs d =
     (let io = dr_io d; off = unat (sio_outputOffset io); n = unat (sio_outputBytes io)
      in if sc_mode cfg = kControl \<and> n > 0 \<and> unat (sio_outputOffset io + sio_outputBytes io) \<le> length outputs
         then d\<lparr>dr_outputs := slot_write (subspan outputs off n) (dr_outputs d)\<rparr> else d)"

definition exchange_inputs :: "bytes \<Rightarrow> SpoeDrive \<Rightarrow> bytes \<times> SpoeDrive" where
  "exchange_inputs inputs d =
     (let io = dr_io d; off = unat (sio_inputOffset io); n = unat (sio_inputBytes io)
      in if n > 0 \<and> unat (sio_inputOffset io + sio_inputBytes io) \<le> length inputs
         then let (dropped, q) = dropOldest kInputQueueLimit (dr_inputs d);
                  ((ok, frame), q) = pop (subspan inputs off n) q
              in (apply_stores (store_bytes off frame) inputs,
                  d\<lparr>dr_inputs := q, dr_droppedFrames := dr_droppedFrames d + of_nat dropped\<rparr>)
         else (inputs, d))"

definition drive_wkc :: "SpoeDrive \<Rightarrow> int" where
  "drive_wkc d =
     (if dr_exchanging d
      then workingCounterContribution (dr_state d) (sio_outputBytes (dr_io d) > 0) (sio_inputBytes (dr_io d) > 0)
      else 0)"

fun exchangeProcessData ::
  "SpoeConfig \<Rightarrow> bytes \<Rightarrow> SpoeDrive list \<Rightarrow> bytes \<Rightarrow> int \<times> bytes \<times> SpoeDrive list" where
  "exchangeProcessData cfg outputs [] inputs = (0, inputs, [])"
| "exchangeProcessData cfg outputs (d # ds) inputs =
     (let (inputs, d) = exchange_inputs inputs (exchange_outputs cfg outputs d);
          (wkc, inputs, ds) = exchangeProcessData cfg outputs ds inputs
      in (drive_wkc d + wkc, inputs, d # ds))"

section \<open>What a request leaves alone\<close>

definition same_drive :: "SpoeDrive \<Rightarrow> SpoeDrive \<Rightarrow> bool" where
  "same_drive d d' \<longleftrightarrow> d' = d\<lparr>dr_connection := dr_connection d', dr_state := dr_state d'\<rparr>"

lemma same_drive_refl [simp]: "same_drive d d"
  by (simp add: same_drive_def)

lemma same_drive_trans: "same_drive d d' \<Longrightarrow> same_drive d' d'' \<Longrightarrow> same_drive d d''"
  by (cases d, cases d', cases d'') (simp add: same_drive_def)

lemma same_drive_io: "same_drive d d' \<Longrightarrow> dr_io d' = dr_io d"
  by (cases d, cases d') (simp add: same_drive_def)

lemma drive_request_same: "drive_request net type data status s = (r, s') \<Longrightarrow> same_drive (fst s) (fst s')"
  by (auto simp: drive_request_def same_drive_def split: prod.splits sum.splits)

lemma readSdoFrom_same: "readSdoFrom net index subindex s = (r, s') \<Longrightarrow> same_drive (fst s) (fst s')"
  unfolding readSdoFrom_def
  by (auto simp: io_bind_def split: prod.splits sum.splits if_splits dest: drive_request_same)

lemma spoe_readU8_same: "spoe_readU8 net index subindex s = (r, s') \<Longrightarrow> same_drive (fst s) (fst s')"
  unfolding spoe_readU8_def
  by (auto simp: io_bind_def split: prod.splits sum.splits list.splits dest: readSdoFrom_same)

section \<open>The assignment loops\<close>

lemma unat_plus_le: "unat (a + b :: 'a :: len word) \<le> unat a + unat b"
  by (simp add: unat_word_ariths)

lemma byte_bound: "unat (b :: u8) < 256"
proof -
  have "unat b < 2 ^ LENGTH(8)" by (rule unsigned_less)
  then show ?thesis by simp
qed

lemma unat_byte_in_word: "unat (ucast (b :: u8) :: u32) < 256"
  using byte_bound [of b] by (simp add: unsigned_ucast_eq take_bit_nat_eq_self)

lemma byte_le_max: "(x :: u8) \<le> 255"
  using byte_bound [of x] by (simp add: word_le_nat_alt)

text \<open>
  What one loop guarantees of a result: the rest of the drive is untouched, and a size comes only from
  a count other than 255 and is at most \<open>k\<close> for each step that was left.
\<close>

definition bits_result ::
  "nat \<Rightarrow> u8 \<Rightarrow> u8 \<Rightarrow> u32 \<Rightarrow> 'w drive_state \<Rightarrow> (spoe_error + u32) \<times> 'w drive_state \<Rightarrow> bool" where
  "bits_result k n i bits s y \<longleftrightarrow>
     same_drive (fst s) (fst (snd y)) \<and>
     (\<forall>b. fst y = Inr b \<longrightarrow> n \<noteq> 255 \<and> unat b \<le> unat bits + k * (Suc (unat n) - unat i))"

lemma bits_result_error: "same_drive (fst s) (fst s') \<Longrightarrow> bits_result k n i bits s (Inl e, s')"
  by (simp add: bits_result_def)

lemma bits_result_end: "\<not> i \<le> n \<Longrightarrow> bits_result k n i bits s (Inr bits, s)"
  using byte_le_max [of i] by (auto simp: bits_result_def)

lemma next_byte: "i \<le> n \<Longrightarrow> n \<noteq> (255 :: u8) \<Longrightarrow> unat (i + 1) = Suc (unat i) \<and> unat i \<le> unat n"
proof -
  assume "i \<le> n" "n \<noteq> 255"
  then have "unat n \<noteq> 255" "unat i \<le> unat n" using word_unat_eq_iff [of n 255] by (auto simp: word_le_nat_alt)
  with byte_bound [of n] show ?thesis by (simp add: unat_word_ariths)
qed

lemma bits_result_step:
  assumes "i \<le> n" and "same_drive (fst s) (fst s1)" and "unat bits1 \<le> unat bits + k"
    and "bits_result k n (i + 1) bits1 s1 y"
  shows "bits_result k n i bits s y"
proof -
  have "unat b \<le> unat bits + k * (Suc (unat n) - unat i)"
    if b: "n \<noteq> 255" "unat b \<le> unat bits1 + k * (Suc (unat n) - unat (i + 1))" for b
  proof -
    have "Suc (unat n) - unat i = Suc (Suc (unat n) - unat (i + 1))" using next_byte [OF assms(1) b(1)] by auto
    then show ?thesis using b(2) assms(3) by simp
  qed
  then show ?thesis using assms(2,4) same_drive_trans by (auto simp: bits_result_def)
qed

lemma entry_bits_result: "entry_bits net p n i bits s = Some y \<Longrightarrow> bits_result 255 n i bits s y"
proof (erule entry_bits.raw_induct [rotated])
  fix loop net p n i bits s y
  assume IH: "\<And>net p n i bits s y. loop net p n i bits s = Some y \<Longrightarrow> bits_result 255 n i bits s y"
    and eq: "(if i \<le> n
      then case readSdoFrom net p i s of
           (Inl e, s) \<Rightarrow> Some (Inl e, s)
           | (Inr mapping, s) \<Rightarrow>
               if mapping = [] then Some (Inl (Se_Empty p i), s)
               else loop net p n (i + 1) (bits + ucast (hd mapping)) s
      else Some (Inr bits, s)) = Some y"
  obtain r s1 where r: "readSdoFrom net p i s = (r, s1)" by (metis surj_pair)
  note same = readSdoFrom_same [OF r]
  have "unat (bits + ucast m) \<le> unat bits + 255" for m :: u8
    using unat_plus_le [of bits "ucast m"] unat_byte_in_word [of m] by linarith
  then show "bits_result 255 n i bits s y"
    using eq r same
    by (auto split: if_splits sum.splits intro: bits_result_error bits_result_end bits_result_step [OF _ same _ IH])
qed

lemma pdo_bits_result: "pdo_bits net a n i bits s = Some y \<Longrightarrow> bits_result 65025 n i bits s y"
proof (erule pdo_bits.raw_induct [rotated])
  fix loop net a n i bits s y
  assume IH: "\<And>net a n i bits s y. loop net a n i bits s = Some y \<Longrightarrow> bits_result 65025 n i bits s y"
    and eq: "(if i \<le> n
      then case readSdoFrom net a i s of
           (Inl e, s) \<Rightarrow> Some (Inl e, s)
           | (Inr pdo, s) \<Rightarrow>
               if length pdo < 2 then Some (Inl (Se_TooShort a i), s)
               else case spoe_readU8 net (readU16 pdo 0) 0 s of
                    (Inl e, s) \<Rightarrow> Some (Inl e, s)
                    | (Inr entryCount, s) \<Rightarrow>
                        Option.bind (entry_bits net (readU16 pdo 0) entryCount 1 bits s)
                         (\<lambda>r. case r of (Inl e, s) \<Rightarrow> Some (Inl e, s)
                              | (Inr bits, s) \<Rightarrow> loop net a n (i + 1) bits s)
      else Some (Inr bits, s)) = Some y"
  show "bits_result 65025 n i bits s y"
  proof (cases "i \<le> n")
    case True
    obtain r1 s1 where r1: "readSdoFrom net a i s = (r1, s1)" by (metis surj_pair)
    note s1 = readSdoFrom_same [OF r1]
    show ?thesis
    proof (cases "\<exists>pdo. r1 = Inr pdo \<and> 2 \<le> length pdo")
      case False
      then show ?thesis using True eq r1 s1 by (auto split: if_splits sum.splits intro: bits_result_error)
    next
      case pdo: True
      then obtain pdo where pdo: "r1 = Inr pdo" "2 \<le> length pdo" by blast
      obtain r2 s2 where r2: "spoe_readU8 net (readU16 pdo 0) 0 s1 = (r2, s2)" by (metis surj_pair)
      note s2 = same_drive_trans [OF s1 spoe_readU8_same [OF r2]]
      show ?thesis
      proof (cases r2)
        case (Inl e)
        then show ?thesis using True eq r1 pdo r2 s2 by (auto intro: bits_result_error)
      next
        case (Inr m)
        then obtain r3 s3 where r3: "entry_bits net (readU16 pdo 0) m 1 bits s2 = Some (r3, s3)"
          using True eq r1 pdo r2 by (auto simp: bind_eq_Some_conv)
        have e: "bits_result 255 m 1 bits s2 (r3, s3)" using entry_bits_result [OF r3] .
        then have s3: "same_drive (fst s) (fst s3)" using same_drive_trans [OF s2] by (simp add: bits_result_def)
        have "unat b \<le> unat bits + 65025" if "r3 = Inr b" for b
          using e that byte_bound [of m] by (auto simp: bits_result_def)
        then show ?thesis using True eq r1 pdo r2 Inr r3 s3
          by (auto split: sum.splits intro: bits_result_error bits_result_step [OF True s3 _ IH])
      qed
    qed
  next
    case False
    then show ?thesis using eq by (auto intro: bits_result_end)
  qed
qed

lemma assignedBits_result:
  assumes "assignedBits net a s = Some (r, s')"
  shows "same_drive (fst s) (fst s')" and "r = Inr b \<Longrightarrow> unat b \<le> 65025 * 254"
proof -
  obtain r1 s1 where r1: "spoe_readU8 net a 0 s = (r1, s1)" by (metis surj_pair)
  note s1 = spoe_readU8_same [OF r1]
  show "same_drive (fst s) (fst s')"
    using assms r1 s1 by (auto simp: assignedBits_def bits_result_def split: sum.splits dest!: pdo_bits_result intro: same_drive_trans)
  assume "r = Inr b"
  then obtain n where n: "pdo_bits net a n 1 0 s1 = Some (Inr b, s')"
    using assms r1 by (auto simp: assignedBits_def split: sum.splits)
  have "n \<noteq> 255" "unat b \<le> 65025 * unat n" using pdo_bits_result [OF n] by (auto simp: bits_result_def)
  moreover have "unat n \<le> 254" using \<open>n \<noteq> 255\<close> byte_bound [of n] word_unat_eq_iff [of n 255] by simp
  ultimately show "unat b \<le> 65025 * 254" using mult_le_mono2 [of "unat n" 254 65025] by linarith
qed

text \<open>
  A network on which no count reads 255: under an invariant of the connections and the network that
  every request keeps, a read of subindex 0 never answers 255.
\<close>

definition counts_below_255 :: "'w net \<Rightarrow> (string \<Rightarrow> SpoeConnection \<Rightarrow> 'w \<Rightarrow> bool) \<Rightarrow> bool" where
  "counts_below_255 net good \<longleftrightarrow>
     (\<forall>host type status data c w r c' w'. good host c w \<and> request net host type status data c w = (r, c', w') \<longrightarrow>
        good host c' w' \<and> (\<forall>h k. good h k w \<longrightarrow> good h k w') \<and>
        (\<forall>f. r = Inr f \<and> drop 2 data = [0, 0] \<and> fr_data f \<noteq> [] \<longrightarrow> hd (fr_data f) \<noteq> 255))"

definition drive_good :: "(string \<Rightarrow> SpoeConnection \<Rightarrow> 'w \<Rightarrow> bool) \<Rightarrow> 'w drive_state \<Rightarrow> bool" where
  "drive_good good s \<longleftrightarrow> good (dr_host (fst s)) (dr_connection (fst s)) (snd s)"

definition keeps_good :: "(string \<Rightarrow> SpoeConnection \<Rightarrow> 'w \<Rightarrow> bool) \<Rightarrow> 'w drive_state \<Rightarrow> 'w drive_state \<Rightarrow> bool" where
  "keeps_good good s s' \<longleftrightarrow> drive_good good s' \<and> (\<forall>h k. good h k (snd s) \<longrightarrow> good h k (snd s'))"

lemma keeps_good_refl: "drive_good good s \<Longrightarrow> keeps_good good s s"
  by (simp add: keeps_good_def)

lemma keeps_good_trans: "keeps_good good s s' \<Longrightarrow> keeps_good good s' s'' \<Longrightarrow> keeps_good good s s''"
  by (simp add: keeps_good_def)

lemma keeps_good_drive: "keeps_good good s s' \<Longrightarrow> drive_good good s'"
  by (simp add: keeps_good_def)

lemma drive_request_good:
  assumes "counts_below_255 net good" and "drive_good good s" and "drive_request net type data status s = (r, s')"
  shows "keeps_good good s s'" and "r = Inr f \<Longrightarrow> drop 2 data = [0, 0] \<Longrightarrow> fr_data f \<noteq> [] \<Longrightarrow> hd (fr_data f) \<noteq> 255"
proof -
  obtain d w where s: "s = (d, w)" by (cases s)
  obtain q c w' where q: "request net (dr_host d) type status data (dr_connection d) w = (q, c, w')" by (metis surj_pair)
  note * = assms(1) [unfolded counts_below_255_def, rule_format, OF conjI, OF _ q]
  have g: "good (dr_host d) (dr_connection d) w" using assms(2) s by (simp add: drive_good_def)
  show "keeps_good good s s'" using * [OF g] assms(3) q s
    by (cases q) (auto simp: drive_request_def keeps_good_def drive_good_def)
  show "r = Inr f \<Longrightarrow> drop 2 data = [0, 0] \<Longrightarrow> fr_data f \<noteq> [] \<Longrightarrow> hd (fr_data f) \<noteq> 255"
    using * [OF g] assms(3) q s by (cases q) (auto simp: drive_request_def)
qed

lemma readSdoFrom_good:
  assumes "counts_below_255 net good" and "drive_good good s" and "readSdoFrom net p sub s = (r, s')"
  shows "keeps_good good s s'" and "r = Inr bs \<Longrightarrow> sub = 0 \<Longrightarrow> bs \<noteq> [] \<Longrightarrow> hd bs \<noteq> 255"
proof -
  obtain q s1 where q: "drive_request net kSdoRead (spoe_address p (ucast sub)) 0 s = (q, s1)" by (metis surj_pair)
  have "s' = s1" using assms(3) q by (auto simp: readSdoFrom_def io_bind_def split: sum.splits if_splits)
  then show "keeps_good good s s'" using drive_request_good(1) [OF assms(1,2) q] by simp
  show "r = Inr bs \<Longrightarrow> sub = 0 \<Longrightarrow> bs \<noteq> [] \<Longrightarrow> hd bs \<noteq> 255"
    using assms(3) q drive_request_good(2) [OF assms(1,2) q]
    by (auto simp: readSdoFrom_def io_bind_def spoe_address_def split: sum.splits if_splits)
qed

lemma spoe_readU8_good:
  assumes "counts_below_255 net good" and "drive_good good s" and "spoe_readU8 net p 0 s = (r, s')"
  shows "keeps_good good s s'" and "r \<noteq> Inr 255"
proof -
  obtain q s1 where q: "readSdoFrom net p 0 s = (q, s1)" by (metis surj_pair)
  have "s' = s1" using assms(3) q by (auto simp: spoe_readU8_def io_bind_def split: sum.splits list.splits)
  then show "keeps_good good s s'" using readSdoFrom_good(1) [OF assms(1,2) q] by simp
  show "r \<noteq> Inr 255" using assms(3) q readSdoFrom_good(2) [OF assms(1,2) q]
    by (auto simp: spoe_readU8_def io_bind_def split: sum.splits list.splits)
qed

lemma entry_bits_returns:
  assumes "counts_below_255 net good" and "n \<noteq> 255" and "drive_good good s"
  shows "\<exists>r s'. entry_bits net p n i bits s = Some (r, s') \<and> keeps_good good s s'"
  using assms(3)
proof (induction "Suc (unat n) - unat i" arbitrary: i bits s)
  case 0
  then have "\<not> i \<le> n" by (simp add: word_le_nat_alt)
  then show ?case using 0 by (simp add: entry_bits.simps keeps_good_refl)
next
  case (Suc k)
  then have i: "i \<le> n" by (simp add: word_le_nat_alt)
  then have k: "k = Suc (unat n) - unat (i + 1)" using Suc.hyps(2) next_byte [OF _ assms(2), of i] by auto
  obtain r1 s1 where r1: "readSdoFrom net p i s = (r1, s1)" by (metis surj_pair)
  note s1 = readSdoFrom_good(1) [OF assms(1) Suc.prems r1]
  show ?case
  proof (cases "\<exists>m. r1 = Inr m \<and> m \<noteq> []")
    case True
    then obtain m where "r1 = Inr m" "m \<noteq> []" by blast
    then show ?thesis
      using Suc.hyps(1) [OF k keeps_good_drive [OF s1], of "bits + ucast (hd m)"] i r1 keeps_good_trans [OF s1]
      by (auto simp: entry_bits.simps [of _ _ _ i])
  next
    case False
    then show ?thesis using i r1 s1 by (cases r1) (auto simp: entry_bits.simps [of _ _ _ i])
  qed
qed

lemma pdo_bits_returns:
  assumes "counts_below_255 net good" and "n \<noteq> 255" and "drive_good good s"
  shows "\<exists>r s'. pdo_bits net a n i bits s = Some (r, s') \<and> keeps_good good s s'"
  using assms(3)
proof (induction "Suc (unat n) - unat i" arbitrary: i bits s)
  case 0
  then have "\<not> i \<le> n" by (simp add: word_le_nat_alt)
  then show ?case using 0 by (simp add: pdo_bits.simps keeps_good_refl)
next
  case (Suc k)
  then have i: "i \<le> n" by (simp add: word_le_nat_alt)
  then have k: "k = Suc (unat n) - unat (i + 1)" using Suc.hyps(2) next_byte [OF _ assms(2), of i] by auto
  obtain r1 s1 where r1: "readSdoFrom net a i s = (r1, s1)" by (metis surj_pair)
  note s1 = readSdoFrom_good(1) [OF assms(1) Suc.prems r1]
  show ?case
  proof (cases "\<exists>pdo. r1 = Inr pdo \<and> 2 \<le> length pdo")
    case False
    then show ?thesis using i r1 s1 by (cases r1) (auto simp: pdo_bits.simps [of _ _ _ i])
  next
    case True
    then obtain pdo where pdo: "r1 = Inr pdo" "\<not> length pdo < 2" by fastforce
    obtain r2 s2 where r2: "spoe_readU8 net (readU16 pdo 0) 0 s1 = (r2, s2)" by (metis surj_pair)
    note g2 = spoe_readU8_good [OF assms(1) keeps_good_drive [OF s1] r2]
    note s2 = keeps_good_trans [OF s1 g2(1)]
    show ?thesis
    proof (cases r2)
      case (Inl e)
      then show ?thesis using i r1 pdo r2 s2 by (simp add: pdo_bits.simps [of _ _ _ i])
    next
      case (Inr m)
      then have "m \<noteq> 255" using g2(2) by simp
      then obtain r3 s3 where r3: "entry_bits net (readU16 pdo 0) m 1 bits s2 = Some (r3, s3)" "keeps_good good s2 s3"
        using entry_bits_returns [OF assms(1) _ keeps_good_drive [OF s2]] by blast
      note s3 = keeps_good_trans [OF s2 r3(2)]
      show ?thesis
      proof (cases r3)
        case (Inl e)
        then show ?thesis using i r1 pdo r2 Inr r3(1) s3 by (simp add: pdo_bits.simps [of _ _ _ i])
      next
        case b: (Inr b)
        then show ?thesis
          using Suc.hyps(1) [OF k keeps_good_drive [OF s3], of b] i r1 pdo r2 Inr r3(1) keeps_good_trans [OF s3]
          by (auto simp: pdo_bits.simps [of _ _ _ i])
      qed
    qed
  qed
qed

lemma assignedBits_returns:
  assumes "counts_below_255 net good" and "drive_good good s"
  shows "\<exists>r s'. assignedBits net a s = Some (r, s') \<and> keeps_good good s s'"
proof -
  obtain r1 s1 where r1: "spoe_readU8 net a 0 s = (r1, s1)" by (metis surj_pair)
  note s1 = spoe_readU8_good [OF assms r1]
  show ?thesis
  proof (cases r1)
    case (Inr n)
    then show ?thesis using pdo_bits_returns [OF assms(1) _ keeps_good_drive [OF s1(1)], of n a 1 0] s1 r1 keeps_good_trans [OF s1(1)]
      by (auto simp: assignedBits_def)
  qed (use r1 s1 in \<open>simp add: assignedBits_def\<close>)
qed

lemma set_mode_runs:
  assumes "io_bind (set_pdo_mode net mode) (\<lambda>_. set_watchdog net cfg) s = (r, s')"
  obtains q s1 where "drive_request net kPdoControl [pdo_mode_code mode] 0 s = (q, s1)" "s' = s1"
  | q s1 q2 where "drive_request net kPdoControl [pdo_mode_code mode] 0 s = (q, s1)"
      "drive_request net kWatchdogTimeout (le_bytes 4 (sc_watchdogMs cfg)) 0 s1 = (q2, s')"
proof -
  obtain q s1 where q: "drive_request net kPdoControl [pdo_mode_code mode] 0 s = (q, s1)" by (metis surj_pair)
  obtain q2 s2 where q2: "drive_request net kWatchdogTimeout (le_bytes 4 (sc_watchdogMs cfg)) 0 s1 = (q2, s2)" by (metis surj_pair)
  have "s' = s1 \<or> s' = s2" using assms q q2
    by (cases s1) (auto simp: set_pdo_mode_def set_watchdog_def io_bind_def split: sum.splits if_splits)
  then show thesis using q q2 that by blast
qed

lemma set_mode_good:
  assumes "counts_below_255 net good" and "drive_good good s"
    and "io_bind (set_pdo_mode net mode) (\<lambda>_. set_watchdog net cfg) s = (r, s')"
  shows "keeps_good good s s'"
  using assms(3)
proof (rule set_mode_runs)
  fix q s1 assume "drive_request net kPdoControl [pdo_mode_code mode] 0 s = (q, s1)" "s' = s1"
  then show ?thesis using drive_request_good(1) [OF assms(1,2)] by blast
next
  fix q s1 q2
  assume q: "drive_request net kPdoControl [pdo_mode_code mode] 0 s = (q, s1)"
    "drive_request net kWatchdogTimeout (le_bytes 4 (sc_watchdogMs cfg)) 0 s1 = (q2, s')"
  note g1 = drive_request_good(1) [OF assms(1,2) q(1)]
  show ?thesis using keeps_good_trans [OF g1 drive_request_good(1) [OF assms(1) keeps_good_drive [OF g1] q(2)]] .
qed

lemma set_mode_same:
  assumes "io_bind (set_pdo_mode net mode) (\<lambda>_. set_watchdog net cfg) s = (r, s')"
  shows "same_drive (fst s) (fst s')"
  using assms by (rule set_mode_runs) (blast intro: drive_request_same same_drive_trans)+

lemma configure_drive_returns:
  assumes "counts_below_255 net good" and "drive_good good (d, w)"
  shows "\<exists>r s'. configure_drive net cfg position layout (d, w) = Some (r, s') \<and> keeps_good good (d, w) s'"
proof -
  let ?s0 = "(d\<lparr>dr_io := empty_window position layout\<rparr>, w)"
  let ?mode = "if sc_mode cfg = kControl then kModeControl else kModeMonitor"
  have g0: "drive_good good ?s0" "keeps_good good (d, w) ?s0" using assms(2) by (simp_all add: drive_good_def keeps_good_def)
  obtain r1 d1 w1 where 1: "assignedBits net 0x1C12 ?s0 = Some (r1, d1, w1)" "keeps_good good ?s0 (d1, w1)"
    using assignedBits_returns [OF assms(1) g0(1)] by (metis surj_pair)
  obtain r2 d2 w2 where 2: "assignedBits net 0x1C13 (d1, w1) = Some (r2, d2, w2)" "keeps_good good (d1, w1) (d2, w2)"
    using assignedBits_returns [OF assms(1) keeps_good_drive [OF 1(2)]] by (metis surj_pair)
  have g1: "keeps_good good (d, w) (d1, w1)" using keeps_good_trans [OF g0(2) 1(2)] .
  have g2: "keeps_good good (d, w) (d2, w2)" using keeps_good_trans [OF g1 2(2)] .
  have last: "keeps_good good (d, w) (reset_buffers d4, w4)" "keeps_good good (d, w) (d4, w4)"
    if "io_bind (set_pdo_mode net ?mode) (\<lambda>_. set_watchdog net cfg) (d2\<lparr>dr_io := io\<rparr>, w2) = (r4, d4, w4)" for io r4 d4 w4
  proof -
    have "drive_good good (d2\<lparr>dr_io := io\<rparr>, w2)" using keeps_good_drive [OF g2] by (simp add: drive_good_def)
    from set_mode_good [OF assms(1) this that] show "keeps_good good (d, w) (d4, w4)" using g2 by (simp add: keeps_good_def)
    then show "keeps_good good (d, w) (reset_buffers d4, w4)" by (simp add: keeps_good_def drive_good_def reset_buffers_def)
  qed
  show ?thesis unfolding configure_drive_def using 1(1) 2(1) g0(2) g1 g2 last
    by (auto simp: Let_def split: prod.splits sum.splits)
qed

lemma configure_drives_returns:
  assumes "counts_below_255 net good" and "list_all (\<lambda>d. drive_good good (d, w)) ds"
  shows "\<exists>r ds' w'. configure_drives net cfg position layout ds w = Some (r, ds', w')"
  using assms(2)
proof (induction ds arbitrary: position layout w)
  case (Cons d ds)
  obtain r d1 w1 where 1: "configure_drive net cfg (position + 1) layout (d, w) = Some (r, d1, w1)" "keeps_good good (d, w) (d1, w1)"
    using configure_drive_returns [OF assms(1), of d w cfg "position + 1" layout] Cons.prems by auto
  have g: "list_all (\<lambda>d. drive_good good (d, w1)) ds" using Cons.prems 1(2) by (auto simp: list_all_iff drive_good_def keeps_good_def)
  show ?case
  proof (cases r)
    case (Inr layout1)
    then show ?thesis using 1 Cons.IH [OF g, of "position + 1" layout1] by auto
  qed (use 1 in simp)
qed simp

section \<open>The layout\<close>

lemma unat_half_up: "unat b \<le> 65025 * 254 \<Longrightarrow> unat ((b + 7) div 8 :: u32) \<le> 2 ^ 21"
proof -
  assume b: "unat b \<le> 65025 * 254"
  have "unat (b + 7) \<le> unat b + 7" using unat_plus_le [of b 7] by simp
  then have "unat (b + 7) div 8 \<le> (65025 * 254 + 7) div 8" using b by (intro div_le_mono) linarith
  then show ?thesis by (simp add: unat_div)
qed

definition window_wkc :: "SlaveIo \<Rightarrow> int" where
  "window_wkc io = (if sio_outputBytes io > 0 then 2 else 0) + (if sio_inputBytes io > 0 then 1 else 0)"

definition buffers_fit :: "SpoeDrive \<Rightarrow> bool" where
  "buffers_fit d \<longleftrightarrow>
     (sio_outputBytes (dr_io d) > 0 \<longrightarrow>
        slot_indices (dr_outputs d) \<and> length (sl_buffers (dr_outputs d)) = 3 \<and>
        list_all (\<lambda>b. length b = unat (sio_outputBytes (dr_io d))) (sl_buffers (dr_outputs d))) \<and>
     (sio_inputBytes (dr_io d) > 0 \<longrightarrow>
        queue_wf (dr_inputs d) \<and> iq_frameBytes (dr_inputs d) = unat (sio_inputBytes (dr_io d)))"

lemma reset_buffers_fit: "buffers_fit (reset_buffers d)"
  by (simp add: buffers_fit_def reset_buffers_def slot_reset_def slot_indices_def queue_reset_wf
      queue_reset_def numeral_3_eq_3 queue_wf_def)

lemma configure_drive_window:
  assumes "configure_drive net cfg position layout (d, w) = Some (Inr layout', d', w')"
  shows "layout' = add_window (dr_io d') layout \<and> buffers_fit d' \<and>
    sio_slavePosition (dr_io d') = position \<and> sio_outputOffset (dr_io d') = pl_outputBytes layout \<and>
    sio_inputOffset (dr_io d') = pl_inputBytes layout \<and>
    unat (sio_outputBytes (dr_io d')) \<le> 2 ^ 21 \<and> unat (sio_inputBytes (dr_io d')) \<le> 2 ^ 21"
proof -
  let ?d0 = "d\<lparr>dr_io := empty_window position layout\<rparr>"
  let ?mode = "if sc_mode cfg = kControl then kModeControl else kModeMonitor"
  show ?thesis
  proof (cases "dr_state d = 0 \<or> \<not> cn_open (dr_connection d)")
    case True
    then show ?thesis using assms
      by (auto simp: configure_drive_def Let_def add_window_def empty_window_def buffers_fit_def)
  next
    case False
    have "assignedBits net 0x1C12 (?d0, w) \<noteq> None"
      using assms False by (intro notI) (simp add: configure_drive_def Let_def)
    then obtain r1 s1 where r1: "assignedBits net 0x1C12 (?d0, w) = Some (r1, s1)" by (metis not_None_eq surj_pair)
    then obtain b1 where 1: "assignedBits net 0x1C12 (?d0, w) = Some (Inr b1, s1)"
      using assms False by (cases r1) (auto simp: configure_drive_def Let_def)
    then have "assignedBits net 0x1C13 s1 \<noteq> None"
      using assms False by (intro notI) (simp add: configure_drive_def Let_def)
    then obtain r2 d2 w2 where r2: "assignedBits net 0x1C13 s1 = Some (r2, d2, w2)" by (metis not_None_eq surj_pair)
    then obtain b2 where 2: "assignedBits net 0x1C13 s1 = Some (Inr b2, d2, w2)"
      using assms False 1 by (cases r2) (auto simp: configure_drive_def Let_def)
    let ?d3 = "d2\<lparr>dr_io := (dr_io d2)\<lparr>sio_outputBytes := (b1 + 7) div 8, sio_inputBytes := (b2 + 7) div 8\<rparr>\<rparr>"
    obtain r4 d4 w4 where 4: "io_bind (set_pdo_mode net ?mode) (\<lambda>_. set_watchdog net cfg) (?d3, w2) = (r4, d4, w4)"
      by (metis surj_pair)
    have d': "d' = reset_buffers d4" "layout' = add_window (dr_io d') layout"
      using assms False 1 2 4 by (auto simp: configure_drive_def Let_def split: sum.splits)
    have "same_drive ?d0 (fst s1)" "same_drive (fst s1) d2" "same_drive ?d3 d4"
      using assignedBits_result(1) [OF 1] assignedBits_result(1) [OF 2] set_mode_same [OF 4] by simp_all
    then have "dr_io d' = (empty_window position layout)\<lparr>sio_outputBytes := (b1 + 7) div 8, sio_inputBytes := (b2 + 7) div 8\<rparr>"
      using d'(1) by (auto simp: reset_buffers_def dest!: same_drive_io)
    then show ?thesis
      using d' reset_buffers_fit [of d4] unat_half_up [OF assignedBits_result(2) [OF 1 refl]] unat_half_up [OF assignedBits_result(2) [OF 2 refl]]
      by (simp add: empty_window_def)
  qed
qed

lemma add_window_ok:
  assumes "layout_ok layout" and "sio_outputOffset io = pl_outputBytes layout" and "sio_inputOffset io = pl_inputBytes layout"
    and "unat (pl_outputBytes layout) + unat (sio_outputBytes io) < 2 ^ 32"
    and "unat (pl_inputBytes layout) + unat (sio_inputBytes io) < 2 ^ 32"
  shows "layout_ok (add_window io layout)"
    and "unat (pl_outputBytes (add_window io layout)) = unat (pl_outputBytes layout) + unat (sio_outputBytes io)"
    and "unat (pl_inputBytes (add_window io layout)) = unat (pl_inputBytes layout) + unat (sio_inputBytes io)"
proof -
  show o: "unat (pl_outputBytes (add_window io layout)) = unat (pl_outputBytes layout) + unat (sio_outputBytes io)"
    and i: "unat (pl_inputBytes (add_window io layout)) = unat (pl_inputBytes layout) + unat (sio_inputBytes io)"
    using assms(4,5) by (simp_all add: add_window_def unat_word_ariths)
  have "list_all (\<lambda>s. unat (sio_outputOffset s) + unat (sio_outputBytes s) \<le> unat (pl_outputBytes layout)
      \<and> unat (sio_inputOffset s) + unat (sio_inputBytes s) \<le> unat (pl_inputBytes layout)) (pl_slaves layout)"
    and "sorted_wrt windows_apart (pl_slaves layout)"
    using assms(1) by (simp_all add: layout_ok_def)
  then show "layout_ok (add_window io layout)"
    using assms(2,3) o i unfolding layout_ok_def
    by (auto simp: add_window_def sorted_wrt_append windows_apart_def list_all_iff)
qed

lemma empty_layout_ok: "layout_ok empty_layout"
  by (simp add: layout_ok_def empty_layout_def)

lemma configure_drives_layout:
  assumes "configure_drives net cfg pos layout ds w = Some (Inr layout', ds', w')" and "layout_ok layout"
    and "unat (pl_outputBytes layout) + 2 ^ 21 * length ds < 2 ^ 32"
    and "unat (pl_inputBytes layout) + 2 ^ 21 * length ds < 2 ^ 32"
  shows "layout_ok layout' \<and> pl_slaves layout' = pl_slaves layout @ map dr_io ds' \<and> length ds' = length ds \<and>
    list_all buffers_fit ds' \<and>
    pl_expectedWkc layout' = pl_expectedWkc layout + (\<Sum>d\<leftarrow>ds'. window_wkc (dr_io d)) \<and>
    map (sio_slavePosition \<circ> dr_io) ds' = map (\<lambda>i. pos + of_nat i) [1..<Suc (length ds)]"
  using assms
proof (induction ds arbitrary: pos layout w ds')
  case (Cons d ds)
  have "configure_drive net cfg (pos + 1) layout (d, w) \<noteq> None" using Cons.prems(1) by (intro notI) simp
  then obtain r d1 w1 where r: "configure_drive net cfg (pos + 1) layout (d, w) = Some (r, d1, w1)"
    by (metis not_None_eq surj_pair)
  then obtain layout1 where 1: "configure_drive net cfg (pos + 1) layout (d, w) = Some (Inr layout1, d1, w1)"
    using Cons.prems(1) by (cases r) auto
  then obtain ds1 where 2: "configure_drives net cfg (pos + 1) layout1 ds w1 = Some (Inr layout', ds1, w')" "ds' = d1 # ds1"
    using Cons.prems(1) by (auto simp: bind_eq_Some_conv)
  note win = configure_drive_window [OF 1]
  have "layout_ok layout1" "unat (pl_outputBytes layout1) = unat (pl_outputBytes layout) + unat (sio_outputBytes (dr_io d1))"
    "unat (pl_inputBytes layout1) = unat (pl_inputBytes layout) + unat (sio_inputBytes (dr_io d1))"
    using win Cons.prems(2-4) add_window_ok [of layout "dr_io d1"] by simp_all
  moreover have "[1..<Suc (length (d # ds))] = 1 # map Suc [1..<Suc (length ds)]"
    by (simp add: map_Suc_upt upt_conv_Cons del: upt_Suc)
  ultimately show ?case using Cons.IH [OF 2(1)] Cons.prems(3,4) win 2(2)
    by (simp add: add_window_def window_wkc_def comp_def algebra_simps del: upt_Suc)
qed (simp add: empty_layout_def)

text \<open>C14: With at most 1000 drives, of which none reports a count of 255, configuring the process data
  returns; and when it succeeds, the windows lie inside the two images and apart from each other, they are
  the drives' own windows numbered from position 1, every buffer has the size of its drive's window, and the
  expected working counter is the sum over the windows. These are the premises under which the process
  image is laid out without overlap.\<close>

theorem configureProcessData_lays_out_windows:
  assumes "counts_below_255 net good" and "list_all (\<lambda>d. good (dr_host d) (dr_connection d) w) (sd_drives sd)"
    and "length (sd_drives sd) \<le> 1000"
  shows "\<exists>r sd' w'. configureProcessData net sd w = Some (r, sd', w') \<and>
    (r = Inr () \<longrightarrow>
       layout_ok (sd_layout sd') \<and> pl_slaves (sd_layout sd') = map dr_io (sd_drives sd') \<and>
       map sio_slavePosition (pl_slaves (sd_layout sd')) = map of_nat [1..<Suc (length (sd_drives sd))] \<and>
       list_all buffers_fit (sd_drives sd') \<and>
       pl_expectedWkc (sd_layout sd') = (\<Sum>d\<leftarrow>sd_drives sd'. window_wkc (dr_io d)))"
proof -
  let ?ds = "stopExchanges (sd_drives sd)"
  have len: "length ?ds = length (sd_drives sd)" by (simp add: stopExchanges_def)
  have "list_all (\<lambda>d. drive_good good (d, w)) ?ds"
    using assms(2) by (auto simp: stopExchanges_def drive_good_def list_all_iff)
  then obtain r ds w' where c: "configure_drives net (sd_config sd) 0 empty_layout ?ds w = Some (r, ds, w')"
    using configure_drives_returns [OF assms(1)] by blast
  show ?thesis
  proof (cases r)
    case (Inl e)
    then show ?thesis using c by (simp add: configureProcessData_def)
  next
    case (Inr layout)
    let ?start = "\<lambda>d. if sio_outputBytes (dr_io d) > 0 \<or> sio_inputBytes (dr_io d) > 0 then d\<lparr>dr_exchange := True\<rparr> else d"
    have start: "dr_io (?start d) = dr_io d" "buffers_fit (?start d) = buffers_fit d" for d
      by (simp_all add: buffers_fit_def)
    have "configure_drives net (sd_config sd) 0 empty_layout ?ds w = Some (Inr layout, ds, w')" using c Inr by simp
    note l = configure_drives_layout [OF this, unfolded len]
    have "layout_ok layout \<and> pl_slaves layout = map dr_io ds \<and> list_all buffers_fit ds \<and>
        pl_expectedWkc layout = (\<Sum>d\<leftarrow>ds. window_wkc (dr_io d)) \<and>
        map (sio_slavePosition \<circ> dr_io) ds = map of_nat [1..<Suc (length (sd_drives sd))]"
      using l [OF empty_layout_ok] assms(3) by (simp add: empty_layout_def del: upt_Suc)
    moreover have "map dr_io (map ?start ds) = map dr_io ds" by (simp only: map_map comp_def start)
    moreover have "list_all buffers_fit (map ?start ds) = list_all buffers_fit ds" by (simp only: list.pred_map comp_def start)
    moreover have "(\<Sum>d\<leftarrow>map ?start ds. window_wkc (dr_io d)) = (\<Sum>d\<leftarrow>ds. window_wkc (dr_io d))"
      by (simp only: map_map comp_def start)
    ultimately show ?thesis using c Inr by (simp add: configureProcessData_def comp_def del: upt_Suc)
  qed
qed

section \<open>Drives that answer at once\<close>

text \<open>A network whose drives answer every request with the same data and status 0.\<close>

definition answering_net :: "bytes \<Rightarrow> unit net" where
  "answering_net data =
     \<lparr>nt_connect = (\<lambda>_ w. (True, w)),
      nt_exchange = (\<lambda>_ bs w. case decodeHeader bs of
          None \<Rightarrow> ((Send_Error, []), w)
        | Some h \<Rightarrow> ((Sent, [Got (frame_bytes \<lparr>fr_type = fh_type h, fr_sequenceId = fh_sequenceId h,
                                               fr_status = 0, fr_data = data\<rparr>)]), w))\<rparr>"

definition idle :: "SpoeConnection \<Rightarrow> bool" where
  "idle c \<longleftrightarrow> cn_received c = [] \<and> cn_socket c = []"

lemma answering_request:
  assumes "cn_open c" and "idle c" and "length d \<le> 512" and "length data \<le> 512"
  shows "request (answering_net data) host type status d c w =
    (Inr \<lparr>fr_type = message_code type, fr_sequenceId = cn_nextSequenceId c, fr_status = 0, fr_data = data\<rparr>,
     c\<lparr>cn_nextSequenceId := cn_nextSequenceId c + 1\<rparr>, w)"
proof -
  let ?f = "\<lparr>fr_type = message_code type, fr_sequenceId = cn_nextSequenceId c, fr_status = status, fr_data = d\<rparr>"
  obtain header where "frame_bytes ?f = header @ d"
    "decodeHeader (header @ d) = Some \<lparr>fh_type = message_code type, fh_sequenceId = cn_nextSequenceId c,
       fh_status = status, fh_dataLength = of_nat (length d)\<rparr>"
    using frame_bytes_header [of ?f] assms(3) by (auto simp: frame_fits_def)
  then show ?thesis
    by (intro request_answered) (use assms in \<open>simp_all add: idle_def answering_net_def frame_fits_def answers_def\<close>)
qed

lemma answering_drive_request:
  assumes "cn_open (dr_connection d)" and "idle (dr_connection d)" and "length bs \<le> 512" and "length data \<le> 512"
  shows "drive_request (answering_net data) type bs status (d, w) =
    (Inr \<lparr>fr_type = message_code type, fr_sequenceId = cn_nextSequenceId (dr_connection d), fr_status = 0, fr_data = data\<rparr>,
     (d\<lparr>dr_connection := (dr_connection d)\<lparr>cn_nextSequenceId := cn_nextSequenceId (dr_connection d) + 1\<rparr>\<rparr>, w))"
  by (simp add: drive_request_def answering_request [OF assms])

lemma answering_readSdo:
  assumes "cn_open (dr_connection d)" and "idle (dr_connection d)" and "length data \<le> 512"
  shows "readSdoFrom (answering_net data) p sub (d, w) =
    (Inr data, (d\<lparr>dr_connection := (dr_connection d)\<lparr>cn_nextSequenceId := cn_nextSequenceId (dr_connection d) + 1\<rparr>\<rparr>, w))"
  using assms by (simp add: readSdoFrom_def io_bind_def answering_drive_request spoe_address_def)

lemma answering_counts_below_255:
  assumes "length data \<le> 512" and "data = [] \<or> hd data \<noteq> 255"
  shows "counts_below_255 (answering_net data) (\<lambda>_ c _. idle c)"
  unfolding counts_below_255_def
proof (intro allI impI, elim conjE)
  fix host type status d c w r c' w'
  assume idle: "idle c" and r: "request (answering_net data) host type status d c w = (r, c', w')"
  show "idle c' \<and> (\<forall>h k. idle k \<longrightarrow> idle k) \<and> (\<forall>f. r = Inr f \<and> drop 2 d = [0, 0] \<and> fr_data f \<noteq> [] \<longrightarrow> hd (fr_data f) \<noteq> 255)"
  proof (cases "cn_open c \<and> length d \<le> 512")
    case True
    then show ?thesis using r idle answering_request [OF _ idle _ assms(1)] assms(2) by (auto simp: idle_def)
  next
    case False
    then show ?thesis using r idle by (auto simp: request_def encodeFrame_def kMaxDataSize_def idle_def Let_def split: if_splits)
  qed
qed

definition example_drive :: SpoeDrive where
  "example_drive =
     \<lparr>dr_host = ''10.0.0.1'', dr_connection = new_connection\<lparr>cn_open := True\<rparr>, dr_state = 2,
      dr_info = \<lparr>si_name = [], si_vendorId = 0, si_productCode = 0, si_revisionNumber = 0, si_serialNumber = 0\<rparr>,
      dr_protocolVersion = kProtocolVersion102, dr_io = empty_window 1 empty_layout,
      dr_outputs = slot_reset 0, dr_inputs = queue_reset 0 0, dr_assembler = assembler_reset 0,
      dr_exchanging = False, dr_droppedFrames = 0, dr_exchange = False\<rparr>"

definition example_driver :: SpoeFieldbusDriver where
  "example_driver =
     \<lparr>sd_config = \<lparr>sc_mode = kControl, sc_watchdogMs = 75\<rparr>, sd_drives = [example_drive, example_drive], sd_layout = empty_layout\<rparr>"

lemma example_drive_idle: "idle (dr_connection example_drive)"
  by (simp add: example_drive_def new_connection_def idle_def)

lemma answering_assignedBits:
  assumes "cn_open (dr_connection d)" and "idle (dr_connection d)"
  shows "assignedBits (answering_net [1, 0]) a (d, w) =
    Some (Inr 1, (d\<lparr>dr_connection := (dr_connection d)\<lparr>cn_nextSequenceId := cn_nextSequenceId (dr_connection d) + 4\<rparr>\<rparr>, w))"
proof -
  have le: "(1 :: u8) \<le> 1" "\<not> (2 :: u8) \<le> 1" by (simp_all add: word_le_nat_alt)
  show ?thesis using assms
    by (simp add: assignedBits_def spoe_readU8_def io_bind_def answering_readSdo pdo_bits.simps [of _ _ _ 1]
        pdo_bits.simps [of _ _ _ 2] entry_bits.simps [of _ _ _ 1] entry_bits.simps [of _ _ _ 2] le idle_def)
qed

theorem configureProcessData_lays_out_windows_witness:
  "counts_below_255 (answering_net [1, 0]) (\<lambda>_ c _. idle c) \<and>
   (\<exists>sd' w'. configureProcessData (answering_net [1, 0]) example_driver () = Some (Inr (), sd', w') \<and>
      layout_ok (sd_layout sd') \<and> pl_expectedWkc (sd_layout sd') = (\<Sum>d\<leftarrow>sd_drives sd'. window_wkc (dr_io d)))"
proof -
  have net: "counts_below_255 (answering_net [1, 0]) (\<lambda>_ c _. idle c)"
    by (rule answering_counts_below_255) simp_all
  have "\<exists>sd'. configureProcessData (answering_net [1, 0]) example_driver () = Some (Inr (), sd', ())"
    by (simp add: configureProcessData_def example_driver_def stopExchanges_def configure_drive_def Let_def
        answering_assignedBits set_pdo_mode_def set_watchdog_def io_bind_def answering_drive_request
        example_drive_def new_connection_def idle_def kProtocolVersion100_def kProtocolVersion102_def)
  moreover have "\<exists>r sd' w'. configureProcessData (answering_net [1, 0]) example_driver () = Some (r, sd', w') \<and>
    (r = Inr () \<longrightarrow>
       layout_ok (sd_layout sd') \<and> pl_slaves (sd_layout sd') = map dr_io (sd_drives sd') \<and>
       map sio_slavePosition (pl_slaves (sd_layout sd')) = map of_nat [1..<Suc (length (sd_drives example_driver))] \<and>
       list_all buffers_fit (sd_drives sd') \<and>
       pl_expectedWkc (sd_layout sd') = (\<Sum>d\<leftarrow>sd_drives sd'. window_wkc (dr_io d)))"
    using example_drive_idle by (intro configureProcessData_lays_out_windows [OF net]) (simp_all add: example_driver_def)
  ultimately show ?thesis using net by auto
qed

section \<open>A count of 255\<close>

text \<open>A network on which, under an invariant, every SDO read answers at least two bytes and the first is 255.\<close>

definition reads_all_255 :: "'w net \<Rightarrow> ('w drive_state \<Rightarrow> bool) \<Rightarrow> bool" where
  "reads_all_255 net good \<longleftrightarrow>
     (\<forall>s i sub. good s \<longrightarrow> (\<exists>m s'. readSdoFrom net i sub s = (Inr m, s') \<and> good s' \<and> 2 \<le> length m \<and> hd m = 255))"

lemma entry_bits_255:
  assumes "reads_all_255 net good"
    and "good s"
  shows "entry_bits net p 255 i bits s = None"
proof (rule ccontr)
  assume "entry_bits net p 255 i bits s \<noteq> None"
  then obtain y where "entry_bits net p 255 i bits s = Some y" by auto
  then have "net = net \<and> (255 :: u8) = 255 \<and> good s \<longrightarrow> False"
  proof (rule entry_bits.raw_induct [where P = "\<lambda>net' p n i bits s y. net' = net \<and> n = 255 \<and> good s \<longrightarrow> False", rotated])
    fix loop net' p n i bits s y
    assume IH: "\<And>net' p n i bits s y. loop net' p n i bits s = Some y \<Longrightarrow> net' = net \<and> n = 255 \<and> good s \<longrightarrow> False"
      and eq: "(if i \<le> n
        then case readSdoFrom net' p i s of
             (Inl e, s) \<Rightarrow> Some (Inl e, s)
             | (Inr mapping, s) \<Rightarrow>
                 if mapping = [] then Some (Inl (Se_Empty p i), s)
                 else loop net' p n (i + 1) (bits + ucast (hd mapping)) s
        else Some (Inr bits, s)) = Some y"
    show "net' = net \<and> n = 255 \<and> good s \<longrightarrow> False"
    proof
      assume *: "net' = net \<and> n = 255 \<and> good s"
      then obtain m s' where m: "readSdoFrom net p i s = (Inr m, s')" "good s'" "2 \<le> length m"
        using assms(1) unfolding reads_all_255_def by blast
      then have "m \<noteq> []" by auto
      then have "loop net' p n (i + 1) (bits + ucast (hd m)) s' = Some y"
        using eq * m(1) byte_le_max [of i] by simp
      from IH [OF this] * m(2) show False by blast
    qed
  qed
  with assms(2) show False by blast
qed

lemma spoe_readU8_255:
  assumes "reads_all_255 net good"
    and "good s"
  shows "\<exists>s'. spoe_readU8 net p sub s = (Inr 255, s') \<and> good s'"
proof -
  obtain m s' where "readSdoFrom net p sub s = (Inr m, s')" "good s'" "2 \<le> length m" "hd m = 255"
    using assms unfolding reads_all_255_def by blast
  then show ?thesis by (cases m) (auto simp: spoe_readU8_def io_bind_def)
qed



section \<open>One real-time exchange\<close>

lemma slot_read_write:
  assumes "slot_indices s" and "length (sl_buffers s) = 3" and "list_all (\<lambda>b. length b = n) (sl_buffers s)" and "length f = n"
  shows "fst (slot_read (slot_write f s)) = f"
    and "slot_indices (slot_write f s)" and "length (sl_buffers (slot_write f s)) = 3"
    and "list_all (\<lambda>b. length b = n) (sl_buffers (slot_write f s))"
proof -
  let ?i = "unat (sl_writeIndex s)" and ?t = "s\<lparr>sl_buffers := (sl_buffers s)[unat (sl_writeIndex s) := f]\<rparr>"
  note i = slot_indices_apart(1) [OF assms(1)]
  have "length (sl_buffers s ! ?i) = n" using assms(2,3) i by (simp add: list_all_length)
  then have w: "slot_write f s = slot_publish ?t" using assms(4) by (simp add: slot_write_def copy_front_def Let_def)
  have t: "slot_indices ?t" using assms(1) by simp
  note pub = slot_publish_indices [OF t]
  show ind: "slot_indices (slot_write f s)" using pub(1) w by simp
  show "length (sl_buffers (slot_write f s)) = 3" using pub(6) w assms(2) by simp
  show "list_all (\<lambda>b. length b = n) (sl_buffers (slot_write f s))"
    using pub(6) w assms(3,4) set_update_subset_insert [of "sl_buffers s" ?i f] by (auto simp: list_all_iff)
  have "fst (slot_read (slot_publish ?t)) = sl_buffers ?t ! ?i"
    using pub slot_take_indices [OF pub(1)] by (simp add: slot_read_def)
  then show "fst (slot_read (slot_write f s)) = f" using w i assms(2) by simp
qed

definition kept_frames :: "SpoeDrive \<Rightarrow> bytes list" where
  "kept_frames d = drop (length (queue_contents (dr_inputs d)) - kInputQueueLimit) (queue_contents (dr_inputs d))"

definition window_in :: "nat \<Rightarrow> nat \<Rightarrow> SlaveIo \<Rightarrow> bool" where
  "window_in outputBytes inputBytes io \<longleftrightarrow>
     unat (sio_outputOffset io) + unat (sio_outputBytes io) \<le> outputBytes \<and>
     unat (sio_inputOffset io) + unat (sio_inputBytes io) \<le> inputBytes"

definition in_input_window :: "SlaveIo \<Rightarrow> nat \<Rightarrow> bool" where
  "in_input_window io j \<longleftrightarrow>
     unat (sio_inputOffset io) \<le> j \<and> j < unat (sio_inputOffset io) + unat (sio_inputBytes io)"

definition input_window :: "SlaveIo \<Rightarrow> bytes \<Rightarrow> bytes" where
  "input_window io image' = subspan image' (unat (sio_inputOffset io)) (unat (sio_inputBytes io))"

definition output_window :: "SlaveIo \<Rightarrow> bytes \<Rightarrow> bytes" where
  "output_window io image' = subspan image' (unat (sio_outputOffset io)) (unat (sio_outputBytes io))"

text \<open>What one exchange does for a drive, before and after.\<close>

definition drive_served :: "SpoeConfig \<Rightarrow> bytes \<Rightarrow> bytes \<Rightarrow> bytes \<Rightarrow> SpoeDrive \<Rightarrow> SpoeDrive \<Rightarrow> bool" where
  "drive_served cfg outputs inputs inputs' d d' \<longleftrightarrow>
     dr_io d' = dr_io d \<and> buffers_fit d' \<and>
     (sio_inputBytes (dr_io d) > 0 \<longrightarrow>
        input_window (dr_io d) inputs' =
          (case kept_frames d of [] \<Rightarrow> input_window (dr_io d) inputs | f # _ \<Rightarrow> f) \<and>
        queue_contents (dr_inputs d') = tl (kept_frames d) \<and>
        dr_droppedFrames d' = dr_droppedFrames d + of_nat (length (queue_contents (dr_inputs d)) - kInputQueueLimit)) \<and>
     (sc_mode cfg = kControl \<and> sio_outputBytes (dr_io d) > 0 \<longrightarrow>
        fst (slot_read (dr_outputs d')) = output_window (dr_io d) outputs)"

lemma word_sum_le: "unat (a :: u32) + unat b \<le> n \<Longrightarrow> n < 2 ^ 32 \<Longrightarrow> unat (a + b) \<le> n"
  by (rule le_trans [OF unat_plus_le])

lemma exchange_outputs_effect:
  assumes "buffers_fit d" and "window_in (length outputs) m (dr_io d)" and "length outputs < 2 ^ 32"
    and "d1 = exchange_outputs cfg outputs d"
  shows "buffers_fit d1" and "d1 = d\<lparr>dr_outputs := dr_outputs d1\<rparr>"
    and "sc_mode cfg = kControl \<Longrightarrow> sio_outputBytes (dr_io d) > 0 \<Longrightarrow>
           fst (slot_read (dr_outputs d1)) = output_window (dr_io d) outputs"
proof -
  let ?io = "dr_io d" and ?f = "output_window (dr_io d) outputs"
  have "unat (sio_outputOffset ?io) + unat (sio_outputBytes ?io) \<le> length outputs" using assms(2) by (simp add: window_in_def)
  then have len: "length ?f = unat (sio_outputBytes ?io)"
    and fits: "unat (sio_outputOffset ?io + sio_outputBytes ?io) \<le> length outputs"
    using word_sum_le [OF _ assms(3)] by (simp_all add: output_window_def)
  have pos: "sio_outputBytes ?io > 0 \<longleftrightarrow> unat (sio_outputBytes ?io) > 0" by (simp add: unat_gt_0 word_greater_zero_iff)
  show "d1 = d\<lparr>dr_outputs := dr_outputs d1\<rparr>" using assms(4) by (simp add: exchange_outputs_def Let_def)
  show "buffers_fit d1"
    using assms(1,4) slot_read_write(2-4) [OF _ _ _ len] pos
    by (auto simp: exchange_outputs_def Let_def buffers_fit_def output_window_def [symmetric])
  show "fst (slot_read (dr_outputs d1)) = ?f" if "sc_mode cfg = kControl" "sio_outputBytes ?io > 0"
    using that assms(1,4) fits slot_read_write(1) [OF _ _ _ len] pos
    by (auto simp: exchange_outputs_def Let_def buffers_fit_def output_window_def [symmetric])
qed

lemma exchange_inputs_none: "sio_inputBytes (dr_io d) = 0 \<Longrightarrow> exchange_inputs inputs d = (inputs, d)"
  by (simp add: exchange_inputs_def)

lemma length_pop: "pop frame q = ((ok, frame'), q') \<Longrightarrow> length frame' = length frame"
  by (auto simp: pop_def copy_front_def split: if_splits)

lemma exchange_inputs_some:
  assumes "buffers_fit d" and "window_in m (length inputs) (dr_io d)" and "length inputs < 2 ^ 32"
    and "sio_inputBytes (dr_io d) > 0" and "exchange_inputs inputs d = (inputs', d')"
  obtains frame q where "inputs' = apply_stores (store_bytes (unat (sio_inputOffset (dr_io d))) frame) inputs"
    "d' = d\<lparr>dr_inputs := q, dr_droppedFrames := dr_droppedFrames d + of_nat (length (queue_contents (dr_inputs d)) - kInputQueueLimit)\<rparr>"
    "length frame = unat (sio_inputBytes (dr_io d))" "queue_wf q" "iq_frameBytes q = unat (sio_inputBytes (dr_io d))"
    "frame = (case kept_frames d of [] \<Rightarrow> input_window (dr_io d) inputs | f # _ \<Rightarrow> f)" "queue_contents q = tl (kept_frames d)"
proof -
  let ?off = "unat (sio_inputOffset (dr_io d))" and ?n = "unat (sio_inputBytes (dr_io d))"
  have inside: "?off + ?n \<le> length inputs" using assms(2) by (simp add: window_in_def)
  then have fits: "unat (sio_inputOffset (dr_io d) + sio_inputBytes (dr_io d)) \<le> length inputs"
    using word_sum_le [OF _ assms(3)] by simp
  have pos: "?n > 0" using assms(4) by (simp add: unat_gt_0 word_greater_zero_iff)
  have q: "queue_wf (dr_inputs d)" "length (subspan inputs ?off ?n) = iq_frameBytes (dr_inputs d)"
    using assms(1,4) inside by (simp_all add: buffers_fit_def)
  obtain dropped q1 where t: "dropOldest kInputQueueLimit (dr_inputs d) = (dropped, q1)" by fastforce
  obtain ok frame q2 where p: "pop (subspan inputs ?off ?n) q1 = ((ok, frame), q2)" by (metis surj_pair)
  note src = input_source.trim_then_take [OF q t p]
  show thesis
  proof (rule that)
    show "inputs' = apply_stores (store_bytes ?off frame) inputs"
      "d' = d\<lparr>dr_inputs := q2, dr_droppedFrames := dr_droppedFrames d + of_nat (length (queue_contents (dr_inputs d)) - kInputQueueLimit)\<rparr>"
      using assms(5) t p pos fits src(3) by (simp_all add: exchange_inputs_def)
    show "length frame = ?n" using length_pop [OF p] q(2) inside by simp
    show "queue_wf q2" by (rule src(1))
    show "iq_frameBytes q2 = ?n" using src(2) q(2) inside by simp
    show "frame = (case kept_frames d of [] \<Rightarrow> input_window (dr_io d) inputs | f # _ \<Rightarrow> f)" "queue_contents q2 = tl (kept_frames d)"
      unfolding kept_frames_def input_window_def using src(3-5) by simp_all
  qed
qed

lemma exchange_inputs_effect:
  assumes "buffers_fit d" and "window_in m (length inputs) (dr_io d)" and "length inputs < 2 ^ 32"
    and "exchange_inputs inputs d = (inputs', d')"
  shows "length inputs' = length inputs" and "buffers_fit d'" and "dr_io d' = dr_io d" and "dr_outputs d' = dr_outputs d"
    and "\<not> in_input_window (dr_io d) j \<Longrightarrow> inputs' ! j = inputs ! j"
    and "sio_inputBytes (dr_io d) > 0 \<Longrightarrow>
      input_window (dr_io d) inputs' = (case kept_frames d of [] \<Rightarrow> input_window (dr_io d) inputs | f # _ \<Rightarrow> f) \<and>
      queue_contents (dr_inputs d') = tl (kept_frames d) \<and>
      dr_droppedFrames d' = dr_droppedFrames d + of_nat (length (queue_contents (dr_inputs d)) - kInputQueueLimit)"
proof -
  have "length inputs' = length inputs \<and> buffers_fit d' \<and> dr_io d' = dr_io d \<and> dr_outputs d' = dr_outputs d \<and>
    (\<not> in_input_window (dr_io d) j \<longrightarrow> inputs' ! j = inputs ! j) \<and>
    (sio_inputBytes (dr_io d) > 0 \<longrightarrow>
      input_window (dr_io d) inputs' = (case kept_frames d of [] \<Rightarrow> input_window (dr_io d) inputs | f # _ \<Rightarrow> f) \<and>
      queue_contents (dr_inputs d') = tl (kept_frames d) \<and>
      dr_droppedFrames d' = dr_droppedFrames d + of_nat (length (queue_contents (dr_inputs d)) - kInputQueueLimit))"
  proof (cases "sio_inputBytes (dr_io d) > 0")
    case False
    then have "sio_inputBytes (dr_io d) = 0" by (simp add: word_neq_0_conv [symmetric])
    with exchange_inputs_none [OF this, of inputs] assms(1,4) show ?thesis by simp
  next
    case True
    from assms(1-3) True assms(4) obtain frame q where e:
      "inputs' = apply_stores (store_bytes (unat (sio_inputOffset (dr_io d))) frame) inputs"
      "d' = d\<lparr>dr_inputs := q, dr_droppedFrames := dr_droppedFrames d + of_nat (length (queue_contents (dr_inputs d)) - kInputQueueLimit)\<rparr>"
      "length frame = unat (sio_inputBytes (dr_io d))" "queue_wf q" "iq_frameBytes q = unat (sio_inputBytes (dr_io d))"
      "frame = (case kept_frames d of [] \<Rightarrow> input_window (dr_io d) inputs | f # _ \<Rightarrow> f)" "queue_contents q = tl (kept_frames d)"
      by (rule exchange_inputs_some)
    have "input_window (dr_io d) inputs' = frame"
      using e(1,3) assms(2) by (simp add: input_window_def window_in_def)
    moreover have "inputs' ! j = inputs ! j" if "\<not> in_input_window (dr_io d) j"
      unfolding e(1) using that e(3) by (intro apply_stores_frame) (auto simp: in_input_window_def dest!: store_bytes_range)
    moreover have "buffers_fit d'" using assms(1) e(2,4,5) by (simp add: buffers_fit_def)
    ultimately show ?thesis using e(1,2,6,7) by simp
  qed
  then show "length inputs' = length inputs" "buffers_fit d'" "dr_io d' = dr_io d" "dr_outputs d' = dr_outputs d"
    "\<not> in_input_window (dr_io d) j \<Longrightarrow> inputs' ! j = inputs ! j"
    "sio_inputBytes (dr_io d) > 0 \<Longrightarrow>
      input_window (dr_io d) inputs' = (case kept_frames d of [] \<Rightarrow> input_window (dr_io d) inputs | f # _ \<Rightarrow> f) \<and>
      queue_contents (dr_inputs d') = tl (kept_frames d) \<and>
      dr_droppedFrames d' = dr_droppedFrames d + of_nat (length (queue_contents (dr_inputs d)) - kInputQueueLimit)"
    by blast+
qed

text \<open>One drive: outputs first, then inputs.\<close>

lemma exchange_drive_served:
  assumes "buffers_fit d" and "window_in (length outputs) (length inputs) (dr_io d)"
    and "length outputs < 2 ^ 32" and "length inputs < 2 ^ 32"
    and "exchange_inputs inputs (exchange_outputs cfg outputs d) = (inputs', d')"
  shows "drive_served cfg outputs inputs inputs' d d'" and "length inputs' = length inputs"
    and "\<not> in_input_window (dr_io d) j \<Longrightarrow> inputs' ! j = inputs ! j"
proof -
  let ?d = "exchange_outputs cfg outputs d"
  note o = exchange_outputs_effect [OF assms(1,2,3) refl, of cfg]
  have io: "dr_io ?d = dr_io d" "dr_inputs ?d = dr_inputs d" "dr_droppedFrames ?d = dr_droppedFrames d"
    by (subst o(2), simp)+
  have w: "window_in (length outputs) (length inputs) (dr_io ?d)" using assms(2) io(1) by simp
  note i = exchange_inputs_effect [OF o(1) w assms(4,5)]
  show "length inputs' = length inputs" by (rule i(1))
  show "\<not> in_input_window (dr_io d) j \<Longrightarrow> inputs' ! j = inputs ! j" using i(5) io(1) by simp
  show "drive_served cfg outputs inputs inputs' d d'"
    unfolding drive_served_def kept_frames_def using i(2,3,4) i(6) [unfolded kept_frames_def io] o(3) io(1) by simp
qed

lemma drive_wkc_le: "dr_io d' = dr_io d \<Longrightarrow> 0 \<le> drive_wkc d' \<and> drive_wkc d' \<le> window_wkc (dr_io d)"
  by (auto simp: drive_wkc_def window_wkc_def workingCounterContribution_exchanges)

lemma input_window_cong:
  assumes "length a = length b" and "\<And>j. in_input_window io j \<Longrightarrow> a ! j = b ! j"
  shows "input_window io a = input_window io b"
  using assms unfolding input_window_def
  by (intro nth_equalityI) (auto simp: subspan_def in_input_window_def)

lemma windows_apart_inputs: "windows_apart a b \<Longrightarrow> in_input_window a j \<Longrightarrow> \<not> in_input_window b j"
  by (auto simp: windows_apart_def in_input_window_def)

text \<open>C13: For drives whose windows lie inside the images and apart from each other and whose buffers fit
  their windows, one real-time exchange puts into each drive's input window the oldest frame kept of its
  queue after trimming it to 30 frames, and leaves the window alone when none is there; the frames trimmed
  are counted; in Control mode the drive's exchange thread will next send exactly that drive's window of the
  outputs; no other byte of the inputs changes; and the working counter lies between 0 and the expected one.\<close>

theorem exchangeProcessData_serves_every_drive:
  assumes "sorted_wrt windows_apart (map dr_io ds)" and "list_all (window_in (length outputs) (length inputs) \<circ> dr_io) ds"
    and "list_all buffers_fit ds" and "length outputs < 2 ^ 32" and "length inputs < 2 ^ 32"
    and "exchangeProcessData cfg outputs ds inputs = (wkc, inputs', ds')"
  shows "list_all2 (drive_served cfg outputs inputs inputs') ds ds' \<and> length inputs' = length inputs \<and>
    (\<forall>j. (\<forall>d\<in>set ds. \<not> in_input_window (dr_io d) j) \<longrightarrow> inputs' ! j = inputs ! j) \<and>
    0 \<le> wkc \<and> wkc \<le> (\<Sum>d\<leftarrow>ds. window_wkc (dr_io d))"
  using assms
proof (induction ds arbitrary: inputs inputs' wkc ds')
  case (Cons d ds)
  obtain inputs1 d1 where 1: "exchange_inputs inputs (exchange_outputs cfg outputs d) = (inputs1, d1)" by fastforce
  obtain wkc2 inputs2 ds2 where 2: "exchangeProcessData cfg outputs ds inputs1 = (wkc2, inputs2, ds2)" by (metis surj_pair)
  have eq: "wkc = drive_wkc d1 + wkc2" "inputs' = inputs2" "ds' = d1 # ds2" using Cons.prems(6) 1 2 by auto
  note one = exchange_drive_served [OF _ _ Cons.prems(4,5) 1]
  have fit: "buffers_fit d" "window_in (length outputs) (length inputs) (dr_io d)" using Cons.prems(2,3) by simp_all
  note one = one [OF fit]
  have "list_all2 (drive_served cfg outputs inputs1 inputs2) ds ds2 \<and> length inputs2 = length inputs1 \<and>
    (\<forall>j. (\<forall>d\<in>set ds. \<not> in_input_window (dr_io d) j) \<longrightarrow> inputs2 ! j = inputs1 ! j) \<and>
    0 \<le> wkc2 \<and> wkc2 \<le> (\<Sum>d\<leftarrow>ds. window_wkc (dr_io d))"
    using Cons.prems one(2) by (intro Cons.IH [OF _ _ _ _ _ 2]) simp_all
  note ih = this
  have apart: "\<not> in_input_window (dr_io e) j" if "e \<in> set ds" "in_input_window (dr_io d) j" for e j
    using Cons.prems(1) that windows_apart_inputs by auto
  have "input_window (dr_io d) inputs2 = input_window (dr_io d) inputs1"
    using ih apart by (intro input_window_cong) auto
  then have "drive_served cfg outputs inputs inputs2 d d1" using one(1) by (simp add: drive_served_def)
  moreover have "list_all2 (drive_served cfg outputs inputs inputs2) ds ds2"
  proof (rule list.rel_mono_strong [OF conjunct1 [OF ih]])
    fix e e' assume e: "e \<in> set ds" and s: "drive_served cfg outputs inputs1 inputs2 e e'"
    have w: "input_window (dr_io e) inputs1 = input_window (dr_io e) inputs"
      using one(2,3) apart [OF e] by (intro input_window_cong) auto
    show "drive_served cfg outputs inputs inputs2 e e'" using s unfolding drive_served_def w .
  qed
  moreover have "0 \<le> drive_wkc d1 \<and> drive_wkc d1 \<le> window_wkc (dr_io d)"
    using one(1) by (intro drive_wkc_le) (simp add: drive_served_def)
  ultimately show ?case using ih one(2,3) eq by auto
qed simp

definition example_ready :: SpoeDrive where
  "example_ready =
     (let d = reset_buffers (example_drive\<lparr>dr_io := \<lparr>sio_slavePosition = 1, sio_outputOffset = 0, sio_outputBytes = 1,
                sio_inputOffset = 1, sio_inputBytes = 1\<rparr>, dr_state := 8, dr_exchanging := True\<rparr>)
      in d\<lparr>dr_inputs := snd (push [7] (dr_inputs d))\<rparr>)"

lemma example_ready_fit: "buffers_fit example_ready" "queue_contents (dr_inputs example_ready) = [[7]]"
proof -
  let ?q = "queue_reset 1 60"
  obtain b q where p: "push [7] ?q = (b, q)" by fastforce
  then have q: "queue_wf q" "b" "queue_contents q = [[7]]"
    using push_contents [OF queue_reset_wf(1) _ _ p] queue_reset_wf(2) [of 1 60] by (simp_all add: queue_reset_def split: if_splits)
  have "iq_frameBytes q = 1" using p by (auto simp: push_def queue_reset_def push_full_def queue_size_def)
  then show "buffers_fit example_ready" "queue_contents (dr_inputs example_ready) = [[7]]"
    using p q by (simp_all add: example_ready_def reset_buffers_def buffers_fit_def slot_reset_def slot_indices_def
        example_drive_def kInputQueueLimit_def numeral_3_eq_3 Let_def)
qed

theorem exchangeProcessData_serves_every_drive_witness:
  "\<exists>wkc inputs' d'. exchangeProcessData \<lparr>sc_mode = kControl, sc_watchdogMs = 75\<rparr> [9] [example_ready] [5, 0] = (wkc, inputs', [d']) \<and>
     inputs' = [5, 7] \<and> fst (slot_read (dr_outputs d')) = [9] \<and> queue_contents (dr_inputs d') = [] \<and> 0 \<le> wkc \<and> wkc \<le> 3"
proof -
  let ?cfg = "\<lparr>sc_mode = kControl, sc_watchdogMs = 75\<rparr>"
  obtain wkc inputs' ds' where e: "exchangeProcessData ?cfg [9] [example_ready] [5, 0] = (wkc, inputs', ds')" by (metis surj_pair)
  have io: "dr_io example_ready = \<lparr>sio_slavePosition = 1, sio_outputOffset = 0, sio_outputBytes = 1, sio_inputOffset = 1, sio_inputBytes = 1\<rparr>"
    by (simp add: example_ready_def reset_buffers_def Let_def)
  have r: "list_all2 (drive_served ?cfg [9] [5, 0] inputs') [example_ready] ds' \<and> length inputs' = length [5, 0 :: u8] \<and>
    (\<forall>j. (\<forall>d\<in>set [example_ready]. \<not> in_input_window (dr_io d) j) \<longrightarrow> inputs' ! j = [5, 0] ! j) \<and>
    0 \<le> wkc \<and> wkc \<le> (\<Sum>d\<leftarrow>[example_ready]. window_wkc (dr_io d))"
    by (rule exchangeProcessData_serves_every_drive [OF _ _ _ _ _ e]) (simp_all add: io window_in_def example_ready_fit)
  then obtain d' where d': "ds' = [d']" "drive_served ?cfg [9] [5, 0] inputs' example_ready d'"
    by (auto simp: list_all2_Cons1)
  have kept: "kept_frames example_ready = [[7]]" by (simp add: kept_frames_def example_ready_fit kInputQueueLimit_def)
  have "inputs' ! 0 = 5" using r by (simp add: in_input_window_def io)
  moreover obtain a b where "inputs' = [a, b]" using r by (auto simp: length_Suc_conv)
  ultimately have "inputs' = [5, 7]" using d'(2) kept by (simp add: drive_served_def io input_window_def subspan_def)
  then show ?thesis using e d' r kept
    by (simp add: drive_served_def io output_window_def subspan_def window_wkc_def)
qed

section \<open>One pass of the exchange thread\<close>

lemma push_keeps: "push f q = (b, q') \<Longrightarrow> iq_frameBytes q' = iq_frameBytes q \<and> iq_capacity q' = iq_capacity q \<and>
    unat (iq_head q') \<le> Suc (unat (iq_head q))"
  using unat_plus_le [of "iq_head q" 1] by (auto simp: push_def split: if_splits)

text \<open>Pushing stores the frames there is room for, in order, and counts the others.\<close>

lemma push_frames_contents:
  assumes "queue_wf q" and "list_all (\<lambda>f. length f = iq_frameBytes q) fs" and "unat (iq_head q) + length fs < 2 ^ 64"
    and "push_frames fs q = (dropped, q')"
  shows "queue_wf q' \<and> iq_frameBytes q' = iq_frameBytes q \<and>
    queue_contents q' = queue_contents q @ take (iq_capacity q - length (queue_contents q)) fs \<and>
    dropped = length fs - (iq_capacity q - length (queue_contents q))"
  using assms
proof (induction fs arbitrary: q q' dropped)
  case (Cons f fs)
  obtain b q1 where 1: "push f q = (b, q1)" by fastforce
  obtain d2 q2 where 2: "push_frames fs q1 = (d2, q2)" by fastforce
  note k = push_keeps [OF 1]
  have c: "queue_wf q1" "b \<longleftrightarrow> length (queue_contents q) < iq_capacity q"
    "queue_contents q1 = queue_contents q @ (if b then [f] else [])"
    using push_contents [OF Cons.prems(1) _ _ 1] Cons.prems(2,3) by simp_all
  have "queue_wf q2 \<and> iq_frameBytes q2 = iq_frameBytes q1 \<and>
      queue_contents q2 = queue_contents q1 @ take (iq_capacity q1 - length (queue_contents q1)) fs \<and>
      d2 = length fs - (iq_capacity q1 - length (queue_contents q1))"
    using Cons.prems(2,3) k c(1) by (intro Cons.IH [OF _ _ _ 2]) auto
  moreover have "q' = q2" "dropped = (if b then d2 else Suc d2)" using Cons.prems(4) 1 2 by auto
  ultimately show ?case using c k by (cases b) (auto simp: take_Cons')
qed simp

lemma frames_of_length: "list_all (\<lambda>f. length f = n) (frames_of n bs)"
  by (induction n bs rule: frames_of.induct) (subst frames_of.simps, simp)

lemma frames_of_concat: "0 < n \<Longrightarrow> n dvd length bs \<Longrightarrow> concat (frames_of n bs) = bs"
proof (induction n bs rule: frames_of.induct)
  case (1 n bs)
  show ?case
  proof (cases "n \<le> length bs")
    case True
    then show ?thesis using 1 by (subst frames_of.simps) simp
  next
    case False
    then have "bs = []" using "1.prems" by (auto dest: dvd_imp_le)
    then show ?thesis using "1.prems"(1) by (simp add: frames_of.simps)
  qed
qed

text \<open>
  A pass that gets its reply appends to the queue the whole frames the reply completes, as many as there is
  room for; with room for all, the bytes queued are exactly the bytes the assembler released.
\<close>

lemma exchange_pass_queues:
  assumes "buffers_fit d" and "sio_inputBytes (dr_io d) > 0" and "fa_frameBytes (dr_assembler d) = unat (sio_inputBytes (dr_io d))"
    and "exchange_pass net cfg (d, w) = (Until_Next, (d', w'))" and "dr_exchanging d'"
  shows "\<exists>(reply :: Frame) frames. assembler_add (fr_data reply) (dr_assembler d) = (frames, dr_assembler d') \<and>
    (unat (iq_head (dr_inputs d)) + length (frames_of (unat (sio_inputBytes (dr_io d))) frames) < 2 ^ 64 \<longrightarrow>
       queue_contents (dr_inputs d') =
         queue_contents (dr_inputs d) @
         take (iq_capacity (dr_inputs d) - length (queue_contents (dr_inputs d)))
           (frames_of (unat (sio_inputBytes (dr_io d))) frames))"
proof -
  let ?n = "unat (sio_inputBytes (dr_io d))"
  obtain outputs slot where out: "(if sc_mode cfg = kControl then slot_read (dr_outputs d) else ([], dr_outputs d)) = (outputs, slot)"
    by fastforce
  obtain r c w1 where r: "request net (dr_host d) kPdoFrame 0 outputs (dr_connection d) w = (r, c, w1)" by (metis surj_pair)
  obtain reply where reply: "r = Inr reply" "fr_status reply = 0"
    using assms(4,5) r out by (cases r) (auto simp: exchange_pass_def Let_def split: if_splits prod.splits)
  obtain frames a where a: "assembler_add (fr_data reply) (dr_assembler d) = (frames, a)" by fastforce
  obtain dropped q where q: "push_frames (frames_of ?n frames) (dr_inputs d) = (dropped, q)" by fastforce
  have d': "dr_assembler d' = a" "dr_inputs d' = q"
    using assms(4) r reply a q out by (auto simp: exchange_pass_def Let_def)
  have wf: "queue_wf (dr_inputs d)" "list_all (\<lambda>f. length f = iq_frameBytes (dr_inputs d)) (frames_of ?n frames)"
    using assms(1,2) frames_of_length [of ?n] by (simp_all add: buffers_fit_def)
  show ?thesis using push_frames_contents [OF wf _ q] a d' by (intro exI [of _ reply] exI [of _ frames]) simp
qed

end
