(* ===== verification/Spoe_Transfer.thy ===== *)
theory Spoe_Transfer
  imports Spoe_Driver "HOL-Library.Sublist"
begin

text \<open>
  The rest of the SPoE driver (\<^verbatim>\<open>libs/comm/spoe_fieldbus_driver.cc\<close>): connecting and identifying a
  drive, state reads and changes, shutdown, the parameter list, and file transfer in packets. File
  transfer is written over the operation that sends one packet, so that the packets of a transfer can be
  recorded; \<^verbatim>\<open>filePacket\<close> is that operation for a connection. Timeouts are part of the network.
\<close>

unbundle bit_operations_syntax

section \<open>Connecting and identifying\<close>

definition no_info :: SlaveInfo where
  "no_info = \<lparr>si_name = [], si_vendorId = 0, si_productCode = 0, si_revisionNumber = 0, si_serialNumber = 0\<rparr>"

definition protocolVersion :: "Frame \<Rightarrow> u16 option" where
  "protocolVersion reply = (if length (fr_data reply) < 2 then None else Some (readU16 (fr_data reply) 0))"

definition spoe_readU32 :: "bytes \<Rightarrow> nat \<Rightarrow> u32" where
  "spoe_readU32 bs offset = ucast (readU16 bs offset) OR push_bit 16 (ucast (readU16 bs (offset + 2)))"

definition drive_close :: "SpoeDrive \<Rightarrow> SpoeDrive" where
  "drive_close d = d\<lparr>dr_connection := closeLocked (dr_connection d)\<rparr>"

definition identity :: "'w net \<Rightarrow> u8 \<Rightarrow> 'w drive_state \<Rightarrow> u32 \<times> 'w drive_state" where
  "identity net subindex s =
     (case readSdoFrom net 0x1018 subindex s of
        (Inr bs, s) \<Rightarrow> (if length bs \<ge> 4 then spoe_readU32 bs 0 else 0, s)
      | (Inl _, s) \<Rightarrow> (0, s))"

definition read_identity :: "'w net \<Rightarrow> 'w drive_state \<Rightarrow> 'w drive_state" where
  "read_identity net s =
     (let (vendor, (d, w)) = identity net 1 s; (product, (d, w)) = identity net 2 (d\<lparr>dr_info := (dr_info d)\<lparr>si_vendorId := vendor\<rparr>\<rparr>, w);
          (revision, (d, w)) = identity net 3 (d\<lparr>dr_info := (dr_info d)\<lparr>si_productCode := product\<rparr>\<rparr>, w);
          (serial, (d, w)) = identity net 4 (d\<lparr>dr_info := (dr_info d)\<lparr>si_revisionNumber := revision\<rparr>\<rparr>, w);
          d = d\<lparr>dr_info := (dr_info d)\<lparr>si_serialNumber := serial\<rparr>\<rparr>
      in case readSdoFrom net 0x1008 0 (d, w) of
           (Inr name, (d, w)) \<Rightarrow> (d\<lparr>dr_info := (dr_info d)\<lparr>si_name := takeWhile (\<lambda>b. b \<noteq> 0) name\<rparr>\<rparr>, w)
         | (Inl _, s) \<Rightarrow> s)"

definition identify :: "'w net \<Rightarrow> 'w drive_state \<Rightarrow> 'w drive_state" where
  "identify net s =
     (case drive_request net kStateRead [] 0 s of
        (Inl _, s) \<Rightarrow> s
      | (Inr state, (d, w)) \<Rightarrow>
          if fr_data state = [] then (d, w)
          else let code = ucast (hd (fr_data state)); d = d\<lparr>dr_state := code\<rparr>
               in if alState code = Init \<or> alState code = Boot then (d, w) else read_identity net (d, w))"

definition connectAndIdentify :: "'w net \<Rightarrow> 'w drive_state \<Rightarrow> 'w drive_state" where
  "connectAndIdentify net = (\<lambda>(d, w).
     let d = d\<lparr>dr_info := no_info, dr_state := 0, dr_protocolVersion := 0\<rparr>;
         (connected, c, w) = conn_connect net (dr_host d) (dr_connection d) w;
         d = d\<lparr>dr_connection := c\<rparr>
     in if \<not> connected then (d, w)
        else (case drive_request net kServerInfo [] 0 (d, w) of
                (Inl _, (d, w)) \<Rightarrow> (drive_close d, w)
              | (Inr info, (d, w)) \<Rightarrow>
                  (case protocolVersion info of
                     None \<Rightarrow> (drive_close d, w)
                   | Some version \<Rightarrow>
                       if version \<noteq> kProtocolVersion100 \<and> version \<noteq> kProtocolVersion102 then (drive_close d, w)
                       else identify net (d\<lparr>dr_protocolVersion := version\<rparr>, w))))"

fun map_drives :: "('w drive_state \<Rightarrow> 'w drive_state) \<Rightarrow> SpoeDrive list \<Rightarrow> 'w \<Rightarrow> SpoeDrive list \<times> 'w" where
  "map_drives f [] w = ([], w)"
| "map_drives f (d # ds) w = (let (d, w) = f (d, w); (ds, w) = map_drives f ds w in (d # ds, w))"

definition spoe_scan :: "'w net \<Rightarrow> SpoeFieldbusDriver \<Rightarrow> 'w \<Rightarrow> nat \<times> SpoeFieldbusDriver \<times> 'w" where
  "spoe_scan net sd w =
     (let (ds, w) = map_drives (connectAndIdentify net) (stopExchanges (sd_drives sd)) w
      in (length ds, sd\<lparr>sd_drives := ds, sd_layout := empty_layout\<rparr>, w))"

definition releaseDrives :: "'w net \<Rightarrow> SpoeFieldbusDriver \<Rightarrow> 'w \<Rightarrow> SpoeFieldbusDriver \<times> 'w" where
  "releaseDrives net sd w =
     (let (ds, w) = map_drives (\<lambda>(d, w).
                        if cn_open (dr_connection d)
                        then snd (drive_request net kPdoControl [pdo_mode_code kModeNone] 0 (d, w)) else (d, w))
                      (stopExchanges (sd_drives sd)) w
      in (sd\<lparr>sd_drives := map (\<lambda>d. (drive_close d)\<lparr>dr_state := 0\<rparr>) (stopExchanges ds)\<rparr>, w))"

section \<open>States\<close>

definition driveAt :: "SpoeFieldbusDriver \<Rightarrow> u16 \<Rightarrow> nat option" where
  "driveAt sd position =
     (if position = 0 \<or> unat position > length (sd_drives sd) then None else Some (unat position - 1))"

definition update_drive :: "('w drive_state \<Rightarrow> 'a \<times> 'w drive_state) \<Rightarrow> nat \<Rightarrow> SpoeFieldbusDriver \<times> 'w \<Rightarrow> 'a \<times> SpoeFieldbusDriver \<times> 'w" where
  "update_drive f i = (\<lambda>(sd, w).
     let (a, (d, w)) = f (sd_drives sd ! i, w) in (a, sd\<lparr>sd_drives := (sd_drives sd)[i := d]\<rparr>, w))"

definition read_state :: "'w net \<Rightarrow> 'w drive_state \<Rightarrow> SlaveStateRaw \<times> 'w drive_state" where
  "read_state net s =
     (let (reply, (d, w)) = drive_request net kStateRead [] 0 s;
          (answered, code) = (case reply of Inr f \<Rightarrow> (case fr_data f of b # _ \<Rightarrow> (True, ucast b) | [] \<Rightarrow> (False, 0)) | Inl _ \<Rightarrow> (False, 0));
          d = d\<lparr>dr_state := code\<rparr>
      in (\<lparr>ssr_alStatus = dr_state d, ssr_alStatusCode = 0,
           ssr_reachability = if answered then Answering else NotAnswering\<rparr>, (d, w)))"

fun readStates :: "'w net \<Rightarrow> u16 list \<Rightarrow> SpoeFieldbusDriver \<times> 'w \<Rightarrow> (u16 + SlaveStateRaw list) \<times> SpoeFieldbusDriver \<times> 'w" where
  "readStates net [] s = (Inr [], s)"
| "readStates net (position # ps) s =
     (case driveAt (fst s) position of
        None \<Rightarrow> (Inl position, s)
      | Some i \<Rightarrow>
          let (raw, s) = update_drive (read_state net) i s; (r, s) = readStates net ps s
          in (result_bind r (\<lambda>raws. Inr (raw # raws)), s))"

definition change_state :: "'w net \<Rightarrow> EtherCatState option \<Rightarrow> EtherCatState \<Rightarrow> 'w drive_state \<Rightarrow> unit \<times> 'w drive_state" where
  "change_state net requiredState targetState = (\<lambda>(d, w).
     if dr_state d = 0 then ((), (d, w))
     else if (case requiredState of None \<Rightarrow> False | Some r \<Rightarrow> alState (dr_state d) \<noteq> r) then ((), (d, w))
     else case drive_request net kStateControl [ucast (al_raw targetState)] 0 (d, w) of
            (Inl _, s) \<Rightarrow> ((), s)
          | (Inr reply, (d, w)) \<Rightarrow>
              (case fr_data reply of [] \<Rightarrow> ((), (d, w)) | b # _ \<Rightarrow> ((), (d\<lparr>dr_state := ucast b\<rparr>, w))))"

fun change_states ::
  "'w net \<Rightarrow> EtherCatState option \<Rightarrow> EtherCatState \<Rightarrow> ('w \<Rightarrow> bool) \<Rightarrow> u16 list \<Rightarrow> SpoeFieldbusDriver \<times> 'w \<Rightarrow> SpoeFieldbusDriver \<times> 'w" where
  "change_states net requiredState targetState shouldAbort [] s = s"
| "change_states net requiredState targetState shouldAbort (position # ps) s =
     (if shouldAbort (snd s) then s
      else case driveAt (fst s) position of
             None \<Rightarrow> change_states net requiredState targetState shouldAbort ps s
           | Some i \<Rightarrow> change_states net requiredState targetState shouldAbort ps
                         (snd (update_drive (change_state net requiredState targetState) i s)))"

definition spoe_transitionToState ::
  "'w net \<Rightarrow> u16 list \<Rightarrow> EtherCatState option \<Rightarrow> EtherCatState \<Rightarrow> ('w \<Rightarrow> bool) \<Rightarrow> SpoeFieldbusDriver \<times> 'w \<Rightarrow> SpoeFieldbusDriver \<times> 'w" where
  "spoe_transitionToState net positions requiredState targetState shouldAbort s =
     (if sc_mode (sd_config (fst s)) = kMonitor then s
      else change_states net requiredState targetState shouldAbort positions s)"

section \<open>The parameter list\<close>

record ParameterEntry =
  pe_index :: u16
  pe_subindex :: u8
  pe_objectCode :: u16
  pe_dataType :: u16
  pe_bitLength :: u16
  pe_access :: u16
  pe_name :: bytes
  pe_subindexCount :: u32

definition decode_parameter_entry :: "bytes \<Rightarrow> ParameterEntry" where
  "decode_parameter_entry raw =
     \<lparr>pe_index = readU16 raw 0, pe_subindex = raw ! 2, pe_objectCode = ucast (raw ! 6), pe_dataType = readU16 raw 4,
      pe_bitLength = readU16 raw 8, pe_access = readU16 raw 10, pe_name = takeWhile (\<lambda>b. b \<noteq> 0) (subspan raw 16 50),
      pe_subindexCount = spoe_readU32 raw 12\<rparr>"

definition decodeParameterEntries :: "bytes \<Rightarrow> ParameterEntry list" where
  "decodeParameterEntries bs = filter (\<lambda>e. pe_index e \<noteq> 0) (map decode_parameter_entry (frames_of 68 bs))"

section \<open>Files\<close>

datatype FoeErrorKind = NoResponse | FileNotFound | BufferTooSmall | PacketMismatch | Protocol

datatype Retry = Transient | Permanent

type_synonym FoeError = "FoeErrorKind \<times> Retry"

type_synonym 's packet_io = "MessageType \<Rightarrow> u8 \<Rightarrow> bytes \<Rightarrow> ('s, FoeError, Frame) io"

abbreviation (input) kReplyAck :: u8 where "kReplyAck \<equiv> 0x58"
abbreviation (input) kReplyError :: u8 where "kReplyError \<equiv> 0x63"
abbreviation (input) kPacketFirst :: u8 where "kPacketFirst \<equiv> 0x80"
abbreviation (input) kPacketMiddle :: u8 where "kPacketMiddle \<equiv> 0xC0"
abbreviation (input) kPacketLast :: u8 where "kPacketLast \<equiv> 0x40"
abbreviation (input) kFileChunk :: nat where "kFileChunk \<equiv> 500"

definition foeErrorFromStatus :: "u8 \<Rightarrow> FoeError" where
  "foeErrorFromStatus code =
     (if code = 0x01 then (FileNotFound, Permanent)
      else if code = 0x05 then (PacketMismatch, Transient)
      else if code = 0x0C then (Protocol, Transient)
      else if code = 0x0E then (NoResponse, Transient)
      else if code = kReplyError then (Protocol, Transient)
      else (Protocol, Permanent))"

definition filePacket :: "'w net \<Rightarrow> 'w drive_state packet_io" where
  "filePacket net type packetState data = (\<lambda>s.
     case drive_request net type data (ucast packetState) s of
       (Inl _, s) \<Rightarrow> (Inl (NoResponse, Transient), s)
     | (Inr reply, s) \<Rightarrow> (Inr reply, s))"

definition reply_code :: "Frame \<Rightarrow> u8" where
  "reply_code f = ucast (fr_status f)"

definition reply_packet :: "Frame \<Rightarrow> u8" where
  "reply_packet f = ucast (drop_bit 8 (fr_status f))"

fun read_packets :: "'s packet_io \<Rightarrow> nat \<Rightarrow> FoeError + Frame \<Rightarrow> bytes \<Rightarrow> ('s, FoeError, bytes) io" where
  "read_packets pkt 0 reply content s = (Inl (Protocol, Permanent), s)"
| "read_packets pkt (Suc n) (Inl e) content s = (Inl e, s)"
| "read_packets pkt (Suc n) (Inr reply) content s =
     (if reply_code reply \<noteq> kReplyAck then (Inl (foeErrorFromStatus (reply_code reply)), s)
      else let content = content @ fr_data reply
           in if reply_packet reply = kPacketLast then (Inr content, s)
              else (case pkt kFileRead kPacketMiddle [] s of (reply, s) \<Rightarrow> read_packets pkt n reply content s))"

definition kMaxFilePackets :: nat where
  "kMaxFilePackets = 200000"

definition readFileFrom :: "'s packet_io \<Rightarrow> bytes \<Rightarrow> ('s, FoeError, bytes) io" where
  "readFileFrom pkt filename s =
     (case pkt kFileRead kPacketFirst filename s of (reply, s) \<Rightarrow> read_packets pkt kMaxFilePackets reply [] s)"

function file_lines :: "bytes \<Rightarrow> bytes list" where
  "file_lines text =
     (if text = [] then []
      else takeWhile (\<lambda>b. b \<noteq> 10) text # file_lines (drop (Suc (length (takeWhile (\<lambda>b. b \<noteq> 10) text))) text))"
  by pat_completeness auto

termination file_lines
  by (relation "measure length") auto

declare file_lines.simps [simp del]

definition kGetList :: bytes where
  "kGetList = map of_char ''fs-getlist''"

definition readFile :: "'s packet_io \<Rightarrow> bytes \<Rightarrow> ('s, FoeError, bytes) io" where
  "readFile pkt filename s =
     (case readFileFrom pkt filename s of
        (Inl e, s) \<Rightarrow> (Inl e, s)
      | (Inr content, s) \<Rightarrow>
          if content \<noteq> [] \<or> filename = kGetList then (Inr content, s)
          else (case readFileFrom pkt kGetList s of
                  (Inl _, s) \<Rightarrow> (Inr content, s)
                | (Inr text, s) \<Rightarrow>
                    if filename \<in> set (map (takeWhile (\<lambda>b. b \<noteq> 44)) (file_lines text)) then (Inr content, s)
                    else (Inl (FileNotFound, Permanent), s)))"

function write_packets :: "'s packet_io \<Rightarrow> bytes \<Rightarrow> nat \<Rightarrow> ('s, FoeError, unit) io" where
  "write_packets pkt data offset s =
     (let chunk = min kFileChunk (length data - offset);
          isLast = offset + chunk \<ge> length data
      in case pkt kFileWrite (if isLast then kPacketLast else kPacketMiddle) (subspan data offset chunk) s of
           (Inl e, s) \<Rightarrow> (Inl e, s)
         | (Inr reply, s) \<Rightarrow>
             if reply_code reply \<noteq> kReplyAck then (Inl (foeErrorFromStatus (reply_code reply)), s)
             else if offset + chunk < length data then write_packets pkt data (offset + chunk) s
             else (Inr (), s))"
  by pat_completeness auto

termination write_packets
  by (relation "measure (\<lambda>(_, data, offset, _). length data - offset)") auto

declare write_packets.simps [simp del]

definition writeFile :: "'s packet_io \<Rightarrow> bytes \<Rightarrow> bytes \<Rightarrow> ('s, FoeError, unit) io" where
  "writeFile pkt filename data s =
     (case pkt kFileWrite kPacketFirst filename s of
        (Inl e, s) \<Rightarrow> (Inl e, s)
      | (Inr reply, s) \<Rightarrow>
          if reply_packet reply = kPacketLast \<or> (reply_code reply \<noteq> kReplyAck \<and> reply_code reply \<noteq> 0)
          then (Inl (foeErrorFromStatus (reply_code reply)), s)
          else write_packets pkt data 0 s)"

section \<open>What a file transfer sends\<close>

text \<open>The packets of a file: middle packets of the chunk size, then one last packet with the rest.\<close>

function data_packets :: "bytes \<Rightarrow> (u8 \<times> bytes) list" where
  "data_packets data =
     (if length data \<le> kFileChunk then [(kPacketLast, data)]
      else (kPacketMiddle, take kFileChunk data) # data_packets (drop kFileChunk data))"
  by pat_completeness auto

termination data_packets
  by (relation "measure length") auto

declare data_packets.simps [simp del]

lemma data_packets_concat: "concat (map snd (data_packets data)) = data"
  by (induction data rule: data_packets.induct) (subst data_packets.simps, simp)

lemma data_packets_shape:
  "\<exists>ps rest. data_packets data = map (Pair kPacketMiddle) ps @ [(kPacketLast, rest)] \<and>
     list_all (\<lambda>p. length p = kFileChunk) ps \<and> length rest \<le> kFileChunk"
proof (induction data rule: data_packets.induct)
  case (1 data)
  show ?case
  proof (cases "length data \<le> kFileChunk")
    case True
    then show ?thesis by (subst data_packets.simps) (auto intro!: exI [of _ "[]"])
  next
    case False
    then obtain ps rest where "data_packets (drop kFileChunk data) = map (Pair kPacketMiddle) ps @ [(kPacketLast, rest)]"
      "list_all (\<lambda>p. length p = kFileChunk) ps" "length rest \<le> kFileChunk"
      using 1 by blast
    then show ?thesis using False
      by (subst data_packets.simps) (auto intro!: exI [of _ "take kFileChunk data # ps"])
  qed
qed

text \<open>The packet operation with every packet recorded.\<close>

type_synonym packet_log = "(MessageType \<times> u8 \<times> bytes) list"

definition recorded_pkt :: "'s packet_io \<Rightarrow> ('s \<times> packet_log) packet_io" where
  "recorded_pkt pkt type packetState data = (\<lambda>(s, log).
     case pkt type packetState data s of (r, s) \<Rightarrow> (r, (s, log @ [(type, packetState, data)])))"

definition as_writes :: "(u8 \<times> bytes) list \<Rightarrow> packet_log" where
  "as_writes = map (\<lambda>(packetState, data). (kFileWrite, packetState, data))"

lemma write_packets_sends:
  assumes "write_packets (recorded_pkt pkt) data offset (s, log) = (r, (s', log'))" and "offset \<le> length data"
  shows "\<exists>sent. log' = log @ as_writes sent \<and> prefix sent (data_packets (drop offset data)) \<and>
    (r = Inr () \<longrightarrow> sent = data_packets (drop offset data))"
  using assms
proof (induction "length data - offset" arbitrary: offset s log rule: less_induct)
  case less
  define chunk where "chunk = min kFileChunk (length data - offset)"
  define st :: u8 where "st = (if offset + chunk \<ge> length data then kPacketLast else kPacketMiddle)"
  define ps where "ps = data_packets (drop offset data)"
  obtain q s1 where q: "pkt kFileWrite st (subspan data offset chunk) s = (q, s1)" by (metis surj_pair)
  have pq: "recorded_pkt pkt kFileWrite st (subspan data offset chunk) (s, log) =
      (q, (s1, log @ [(kFileWrite, st, subspan data offset chunk)]))" using q by (simp add: recorded_pkt_def)
  have ps: "ps = (st, subspan data offset chunk) # (if offset + chunk < length data then data_packets (drop (offset + chunk) data) else [])"
    unfolding ps_def using less.prems(2)
    by (subst data_packets.simps) (auto simp: st_def chunk_def subspan_def min_def add.commute)
  let ?log = "log @ [(kFileWrite, st, subspan data offset chunk)]"
  have step: "(case q of Inl e \<Rightarrow> (Inl e, (s1, ?log))
      | Inr f \<Rightarrow> if reply_code f \<noteq> kReplyAck then (Inl (foeErrorFromStatus (reply_code f)), (s1, ?log))
                 else if offset + chunk < length data then write_packets (recorded_pkt pkt) data (offset + chunk) (s1, ?log)
                 else (Inr (), (s1, ?log))) = (r, (s', log'))"
    using less.prems(1) pq unfolding write_packets.simps [of _ data offset] Let_def chunk_def [symmetric] st_def [symmetric]
    by (simp split: sum.splits)
  show ?case
  proof (cases "\<exists>f. q = Inr f \<and> reply_code f = kReplyAck")
    case False
    then have "log' = log @ [(kFileWrite, st, subspan data offset chunk)]" "r \<noteq> Inr ()"
      using step by (auto split: sum.splits if_splits)
    then show ?thesis using ps by (auto simp: ps_def [symmetric] as_writes_def intro!: exI [of _ "[(st, subspan data offset chunk)]"])
  next
    case True
    then obtain f where f: "q = Inr f" "reply_code f = kReplyAck" by blast
    show ?thesis
    proof (cases "offset + chunk < length data")
      case False
      then have "r = Inr ()" "log' = log @ [(kFileWrite, st, subspan data offset chunk)]"
        using step f by simp_all
      then show ?thesis using ps False by (auto simp: ps_def [symmetric] as_writes_def)
    next
      case True
      then have w: "write_packets (recorded_pkt pkt) data (offset + chunk) (s1, log @ [(kFileWrite, st, subspan data offset chunk)]) = (r, s', log')"
        using step f by simp
      have "length data - (offset + chunk) < length data - offset" using True by (auto simp: chunk_def)
      from less.hyps [OF this w] True obtain sent where
        "log' = (log @ [(kFileWrite, st, subspan data offset chunk)]) @ as_writes sent"
        "prefix sent (data_packets (drop (offset + chunk) data))" "r = Inr () \<longrightarrow> sent = data_packets (drop (offset + chunk) data)"
        by auto
      then show ?thesis using ps True
        by (auto simp: ps_def [symmetric] as_writes_def intro!: exI [of _ "(st, subspan data offset chunk) # sent"])
    qed
  qed
qed

text \<open>C30: Whatever the drive answers, the packets writeFile sends are the file name followed by a prefix of the
  file's packets, and all of them when it reports success; those packets are full middle chunks of 500 bytes
  and one last packet, and together they are exactly the file.\<close>

theorem writeFile_sends_whole_file:
  assumes "writeFile (recorded_pkt pkt) filename data (s, []) = (r, (s', log))"
  shows "prefix log ((kFileWrite, 0x80, filename) # as_writes (data_packets data)) \<and>
    (r = Inr () \<longrightarrow> log = (kFileWrite, 0x80, filename) # as_writes (data_packets data)) \<and>
    concat (map snd (data_packets data)) = data \<and>
    (\<exists>ps rest. data_packets data = map (Pair 0xC0) ps @ [(0x40, rest)] \<and>
       list_all (\<lambda>p. length p = 500) ps \<and> length rest \<le> 500)"
proof -
  obtain q s1 where q: "pkt kFileWrite 0x80 filename s = (q, s1)" by (metis surj_pair)
  have pq: "recorded_pkt pkt kFileWrite 0x80 filename (s, []) = (q, (s1, [(kFileWrite, 0x80, filename)]))"
    using q by (simp add: recorded_pkt_def)
  have "prefix log ((kFileWrite, 0x80, filename) # as_writes (data_packets data)) \<and>
    (r = Inr () \<longrightarrow> log = (kFileWrite, 0x80, filename) # as_writes (data_packets data))"
  proof (cases "write_packets (recorded_pkt pkt) data 0 (s1, [(kFileWrite, 0x80, filename)]) = (r, (s', log))")
    case True
    from write_packets_sends [OF this] show ?thesis by (auto simp: as_writes_def map_mono_prefix)
  next
    case False
    then have "log = [(kFileWrite, 0x80, filename)]" "r \<noteq> Inr ()"
      using assms pq by (auto simp: writeFile_def split: sum.splits if_splits)
    then show ?thesis by simp
  qed
  then show ?thesis using data_packets_concat data_packets_shape by blast
qed

text \<open>A drive that acknowledges every packet.\<close>

definition acking_pkt :: "unit packet_io" where
  "acking_pkt type packetState data s = (Inr \<lparr>fr_type = message_code type, fr_sequenceId = 0, fr_status = 0x8058, fr_data = []\<rparr>, s)"

theorem writeFile_sends_whole_file_witness:
  "\<exists>s'. writeFile (recorded_pkt acking_pkt) [97] [1, 2, 3] ((), []) =
     (Inr (), (s', [(kFileWrite, 0x80, [97]), (kFileWrite, 0x40, [1, 2, 3])])) \<and>
     [(kFileWrite, 0x80, [97]), (kFileWrite, 0x40, [1, 2, 3])] = (kFileWrite, 0x80, [97]) # as_writes (data_packets [1, 2, 3])"
proof -
  obtain r s' log where w: "writeFile (recorded_pkt acking_pkt) [97] [1, 2, 3] ((), []) = (r, (s', log))" by (metis surj_pair)
  have "r = Inr ()" using w
    by (auto simp: writeFile_def recorded_pkt_def acking_pkt_def reply_packet_def reply_code_def write_packets.simps Let_def)
  with writeFile_sends_whole_file [OF w] w show ?thesis
    by (simp add: as_writes_def data_packets.simps [of "[1, 2, 3]"])
qed

section \<open>A known state means an open connection\<close>

definition state_open :: "SpoeDrive \<Rightarrow> bool" where
  "state_open d \<longleftrightarrow> (dr_state d \<noteq> 0 \<longrightarrow> cn_open (dr_connection d))"

lemma state_open_info [simp]: "state_open (d\<lparr>dr_info := i\<rparr>) = state_open d"
  by (simp add: state_open_def)

lemma drive_request_open:
  assumes "drive_request net type data status s = (r, s')"
  shows "state_open (fst s')" and "r = Inr f \<Longrightarrow> cn_open (dr_connection (fst s'))"
proof -
  obtain d w where s: "s = (d, w)" by (cases s)
  obtain q c w' where q: "request net (dr_host d) type status data (dr_connection d) w = (q, c, w')" by (metis surj_pair)
  note out = request_outcome [OF q]
  show "state_open (fst s')" using assms out q s
    by (auto simp: drive_request_def state_open_def split: sum.splits ConnectionError.splits)
  show "r = Inr f \<Longrightarrow> cn_open (dr_connection (fst s'))" using assms out q s
    by (auto simp: drive_request_def split: sum.splits)
qed

lemma readSdoFrom_open: "readSdoFrom net i sub s = (r, s') \<Longrightarrow> state_open (fst s')"
  by (auto simp: readSdoFrom_def io_bind_def split: prod.splits sum.splits if_splits dest: drive_request_open)

lemma read_identity_open: "state_open (fst (read_identity net s))"
proof -
  have "state_open (fst (case readSdoFrom net 0x1008 0 t of
      (Inr name, (d, w)) \<Rightarrow> (d\<lparr>dr_info := (dr_info d)\<lparr>si_name := takeWhile (\<lambda>b. b \<noteq> 0) name\<rparr>\<rparr>, w) | (Inl _, s) \<Rightarrow> s))" for t
    using readSdoFrom_open [of net "0x1008" 0 t] by (auto split: prod.splits sum.splits)
  then show ?thesis by (simp add: read_identity_def Let_def split_beta)
qed

lemma identify_open: "state_open (fst (identify net s))"
proof -
  obtain r d w where r: "drive_request net kStateRead [] 0 s = (r, d, w)" by (metis surj_pair)
  have "state_open d" using drive_request_open(1) [OF r] by simp
  moreover have "state_open (d\<lparr>dr_state := code\<rparr>)" if "r = Inr f" for f code
    using drive_request_open(2) [OF r that] by (simp add: state_open_def)
  ultimately show ?thesis using r read_identity_open by (auto simp: identify_def Let_def split: sum.splits)
qed

lemma drive_request_unknown:
  "drive_request net type data status s = (r, s') \<Longrightarrow> dr_state (fst s) = 0 \<Longrightarrow> dr_state (fst s') = 0"
  by (auto simp: drive_request_def split: prod.splits sum.splits if_splits)

lemma connectAndIdentify_open: "state_open (fst (connectAndIdentify net s))"
proof -
  obtain d w where s: "s = (d, w)" by (cases s)
  let ?d = "d\<lparr>dr_info := no_info, dr_state := 0, dr_protocolVersion := 0\<rparr>"
  obtain ok c w1 where c: "conn_connect net (dr_host d) (dr_connection d) w = (ok, c, w1)" by (metis surj_pair)
  obtain r d2 w2 where r: "drive_request net kServerInfo [] 0 (?d\<lparr>dr_connection := c\<rparr>, w1) = (r, d2, w2)" by (metis surj_pair)
  have "dr_state d2 = 0" using drive_request_unknown [OF r] by simp
  then have "state_open (drive_close d2)" by (simp add: state_open_def drive_close_def)
  moreover have "state_open (?d\<lparr>dr_connection := c\<rparr>)" by (simp add: state_open_def)
  ultimately show ?thesis using c r
    by (auto simp: s connectAndIdentify_def Let_def identify_open split: sum.splits option.splits)
qed

lemma read_state_open: "state_open (fst (snd (read_state net s)))"
proof -
  obtain r d w where r: "drive_request net kStateRead [] 0 s = (r, d, w)" by (metis surj_pair)
  then show ?thesis using drive_request_open(2) [OF r]
    by (auto simp: read_state_def Let_def state_open_def split: sum.splits list.splits)
qed

lemma change_state_open: "state_open (fst s) \<Longrightarrow> state_open (fst (snd (change_state net req target s)))"
proof -
  assume open': "state_open (fst s)"
  obtain d w where s: "s = (d, w)" by (cases s)
  obtain r d1 w1 where r: "drive_request net kStateControl [ucast (al_raw target)] 0 (d, w) = (r, d1, w1)" by (metis surj_pair)
  have "state_open d1" using drive_request_open(1) [OF r] by simp
  moreover have "state_open (d1\<lparr>dr_state := code\<rparr>)" if "r = Inr f" for f code
    using drive_request_open(2) [OF r that] by (simp add: state_open_def)
  ultimately show ?thesis using open' r s
    by (auto simp: change_state_def split: sum.splits list.splits option.splits)
qed

lemma exchange_pass_open: "state_open (fst s) \<Longrightarrow> state_open (fst (snd (exchange_pass net cfg s)))"
proof -
  assume open': "state_open (fst s)"
  obtain d w where s: "s = (d, w)" by (cases s)
  define outputs where "outputs = fst (if sc_mode cfg = kControl then slot_read (dr_outputs d) else ([], dr_outputs d))"
  obtain r c w1 where r: "request net (dr_host d) kPdoFrame 0 outputs (dr_connection d) w = (r, c, w1)" by (metis surj_pair)
  note out = request_outcome [OF r]
  show ?thesis using open' r out s
    by (auto simp: exchange_pass_def Let_def state_open_def outputs_def split_beta split: sum.splits ConnectionError.splits)
qed



end
