(* ===== verification/Refresher.thy ===== *)
theory Refresher
  imports MM_Prelude Step_System
begin

text \<open>
  The background poller of SDO objects (\<^verbatim>\<open>libs/node/parameter_refresher.h, .cc\<close>): the reference-counted
  entries, the choice of the next read, the schedule after a read, and the worker threads as a step
  relation in which each critical section and each clock reading is one step. Times are nanoseconds of
  the steady clock. The read itself belongs to the device.
\<close>

unbundle bit_operations_syntax

section \<open>Entries\<close>

record RefEntry =
  re_devicePosition :: u16
  re_index :: u16
  re_subindex :: u8
  re_refCount :: int
  re_period :: nat
  re_nextDue :: nat
  re_backoff :: nat

record RefDrive =
  rd_busy :: bool
  rd_openAt :: nat

record Refresher =
  rf_entries :: "(u64 \<times> RefEntry) list"
  rf_drives :: "u16 \<rightharpoonup> RefDrive"

record Job =
  jb_key :: u64
  jb_devicePosition :: u16
  jb_index :: u16
  jb_subindex :: u8

definition ms_to_ns :: "nat \<Rightarrow> nat" where
  "ms_to_ns n = n * 1000000"

definition kMinRefreshPeriod :: nat where
  "kMinRefreshPeriod = ms_to_ns 10"

definition kMaxBackoff :: nat where
  "kMaxBackoff = ms_to_ns 2000"

definition nextBackoff :: "nat \<Rightarrow> nat \<Rightarrow> nat" where
  "nextBackoff current period = min (if current = 0 then period else current * 2) kMaxBackoff"

definition makeKey :: "u16 \<Rightarrow> u16 \<Rightarrow> u8 \<Rightarrow> u64" where
  "makeKey devicePosition index subindex =
     (push_bit 24 (ucast devicePosition) OR ucast (push_bit 8 (ucast index :: u32))) OR ucast subindex"

definition update_entry :: "u64 \<Rightarrow> (RefEntry \<Rightarrow> RefEntry) \<Rightarrow> (u64 \<times> RefEntry) list \<Rightarrow> (u64 \<times> RefEntry) list" where
  "update_entry key f = map (\<lambda>(k, e). if k = key then (k, f e) else (k, e))"

definition acquire :: "u16 \<Rightarrow> u16 \<Rightarrow> u8 \<Rightarrow> nat \<Rightarrow> Refresher \<Rightarrow> Refresher" where
  "acquire devicePosition index subindex period r =
     (let period = max period kMinRefreshPeriod; key = makeKey devicePosition index subindex
      in case map_of (rf_entries r) key of
           None \<Rightarrow> r\<lparr>rf_entries := insort_key fst
               (key, \<lparr>re_devicePosition = devicePosition, re_index = index, re_subindex = subindex, re_refCount = 1,
                      re_period = period, re_nextDue = 0, re_backoff = 0\<rparr>) (rf_entries r)\<rparr>
         | Some _ \<Rightarrow> r\<lparr>rf_entries := update_entry key
               (\<lambda>e. e\<lparr>re_refCount := re_refCount e + 1, re_period := min (re_period e) period\<rparr>) (rf_entries r)\<rparr>)"

definition release :: "u16 \<Rightarrow> u16 \<Rightarrow> u8 \<Rightarrow> Refresher \<Rightarrow> Refresher" where
  "release devicePosition index subindex r =
     (let key = makeKey devicePosition index subindex
      in case map_of (rf_entries r) key of
           None \<Rightarrow> r
         | Some e \<Rightarrow>
             if re_refCount e - 1 \<le> 0 then r\<lparr>rf_entries := filter (\<lambda>(k, _). k \<noteq> key) (rf_entries r)\<rparr>
             else r\<lparr>rf_entries := update_entry key (\<lambda>e. e\<lparr>re_refCount := re_refCount e - 1\<rparr>) (rf_entries r)\<rparr>)"

section \<open>The schedule\<close>

definition due_at :: "(u16 \<rightharpoonup> RefDrive) \<Rightarrow> RefEntry \<Rightarrow> nat option" where
  "due_at drives e =
     (case drives (re_devicePosition e) of
        None \<Rightarrow> Some (re_nextDue e)
      | Some d \<Rightarrow> if rd_busy d then None else Some (max (re_nextDue e) (rd_openAt d)))"

fun earliest_due :: "(u16 \<rightharpoonup> RefDrive) \<Rightarrow> (u64 \<times> RefEntry) list \<Rightarrow> (nat \<times> u64 \<times> RefEntry) option \<Rightarrow> (nat \<times> u64 \<times> RefEntry) option" where
  "earliest_due drives [] best = best"
| "earliest_due drives ((k, e) # es) best =
     earliest_due drives es
       (case due_at drives e of
          None \<Rightarrow> best
        | Some t \<Rightarrow> (case best of None \<Rightarrow> Some (t, k, e) | Some (t', _) \<Rightarrow> if t < t' then Some (t, k, e) else best))"

definition set_busy :: "u16 \<Rightarrow> (u16 \<rightharpoonup> RefDrive) \<Rightarrow> (u16 \<rightharpoonup> RefDrive)" where
  "set_busy p drives =
     drives(p \<mapsto> (case drives p of None \<Rightarrow> \<lparr>rd_busy = True, rd_openAt = 0\<rparr> | Some d \<Rightarrow> d\<lparr>rd_busy := True\<rparr>))"

text \<open>The left result is the time to wake at, if there is one.\<close>

definition takeDue :: "nat \<Rightarrow> Refresher \<Rightarrow> (nat option + Job) \<times> Refresher" where
  "takeDue now r =
     (case earliest_due (rf_drives r) (rf_entries r) None of
        None \<Rightarrow> (Inl None, r)
      | Some (earliest, k, e) \<Rightarrow>
          if earliest > now then (Inl (Some earliest), r)
          else (Inr \<lparr>jb_key = k, jb_devicePosition = re_devicePosition e, jb_index = re_index e, jb_subindex = re_subindex e\<rparr>,
                r\<lparr>rf_drives := set_busy (re_devicePosition e) (rf_drives r)\<rparr>))"

text \<open>The second half of \<^verbatim>\<open>poll\<close>, after the read: start and end of the read, and whether it succeeded.\<close>

definition scheduled :: "nat \<Rightarrow> bool \<Rightarrow> RefEntry \<Rightarrow> RefEntry" where
  "scheduled readStart ok e =
     (if ok then e\<lparr>re_backoff := 0, re_nextDue := readStart + re_period e\<rparr>
      else let b = nextBackoff (re_backoff e) (re_period e) in e\<lparr>re_backoff := b, re_nextDue := readStart + b\<rparr>)"

definition poll_done :: "Job \<Rightarrow> nat \<Rightarrow> nat \<Rightarrow> bool \<Rightarrow> Refresher \<Rightarrow> Refresher" where
  "poll_done job readStart readEnd ok r =
     r\<lparr>rf_drives := (rf_drives r)(jb_devicePosition job \<mapsto> \<lparr>rd_busy = False, rd_openAt = readEnd + (readEnd - readStart)\<rparr>),
       rf_entries := update_entry (jb_key job) (scheduled readStart ok) (rf_entries r)\<rparr>"

text \<open>
  One pass on the calling thread. A read takes the world to its start and end times and its result; the
  pass may not end in general, so it has fuel, and the number of entries bounds the fuel it needs.
\<close>

fun pollDue :: "(Job \<Rightarrow> 'w \<Rightarrow> (nat \<times> nat \<times> bool) \<times> 'w) \<Rightarrow> nat \<Rightarrow> nat \<Rightarrow> Refresher \<Rightarrow> 'w \<Rightarrow> (Refresher \<times> 'w) option" where
  "pollDue read 0 now r w = None"
| "pollDue read (Suc fuel) now r w =
     (case takeDue now r of
        (Inl _, r) \<Rightarrow> Some (r, w)
      | (Inr job, r) \<Rightarrow>
          (case read job w of ((readStart, readEnd, ok), w) \<Rightarrow> pollDue read fuel now (poll_done job readStart readEnd ok r) w))"

section \<open>The workers\<close>

text \<open>
  A worker that took a job is about to read, inside the read, or done with it and on its way to the lock.
  Both clock readings of \<^verbatim>\<open>poll\<close> are outside the lock.
\<close>

datatype poll_pc = Taken | Reading nat | Ended nat nat

record ref_system =
  rs_ref :: Refresher
  rs_clock :: nat
  rs_jobs :: "(Job \<times> poll_pc) list"
  rs_reads :: "(u16 \<times> nat \<times> nat) list"

inductive ref_step :: "ref_system \<Rightarrow> ref_system \<Rightarrow> bool" where
  rs_tick: "ref_step s (s\<lparr>rs_clock := rs_clock s + t\<rparr>)"
| rs_acquire: "ref_step s (s\<lparr>rs_ref := acquire p i sub period (rs_ref s)\<rparr>)"
| rs_release: "ref_step s (s\<lparr>rs_ref := release p i sub (rs_ref s)\<rparr>)"
| rs_take:
    "takeDue (rs_clock s) (rs_ref s) = (Inr job, r) \<Longrightarrow>
     ref_step s (s\<lparr>rs_ref := r, rs_jobs := rs_jobs s @ [(job, Taken)]\<rparr>)"
| rs_start:
    "rs_jobs s = xs @ (job, Taken) # ys \<Longrightarrow>
     ref_step s (s\<lparr>rs_jobs := xs @ (job, Reading (rs_clock s)) # ys\<rparr>)"
| rs_end:
    "rs_jobs s = xs @ (job, Reading readStart) # ys \<Longrightarrow>
     ref_step s (s\<lparr>rs_jobs := xs @ (job, Ended readStart (rs_clock s)) # ys\<rparr>)"
| rs_finish:
    "rs_jobs s = xs @ (job, Ended readStart readEnd) # ys \<Longrightarrow>
     ref_step s (s\<lparr>rs_ref := poll_done job readStart readEnd ok (rs_ref s), rs_jobs := xs @ ys,
                   rs_reads := rs_reads s @ [(jb_devicePosition job, readStart, readEnd)]\<rparr>)"

definition ref_initial :: ref_system where
  "ref_initial = \<lparr>rs_ref = \<lparr>rf_entries = [], rf_drives = Map.empty\<rparr>, rs_clock = 0, rs_jobs = [], rs_reads = []\<rparr>"

definition reads_of :: "u16 \<Rightarrow> ref_system \<Rightarrow> (nat \<times> nat) list" where
  "reads_of p s = map snd (filter (\<lambda>x. fst x = p) (rs_reads s))"

fun spaced :: "(nat \<times> nat) list \<Rightarrow> bool" where
  "spaced [] = True"
| "spaced [(s, e)] \<longleftrightarrow> s \<le> e"
| "spaced ((s, e) # (s', e') # xs) \<longleftrightarrow> s \<le> e \<and> e + (e - s) \<le> s' \<and> spaced ((s', e') # xs)"

definition busy_time :: "(nat \<times> nat) list \<Rightarrow> nat" where
  "busy_time xs = (\<Sum>(s, e)\<leftarrow>xs. e - s)"

section \<open>At most half of a drive's time\<close>

definition open_at :: "Refresher \<Rightarrow> u16 \<Rightarrow> nat" where
  "open_at r p = (case rf_drives r p of None \<Rightarrow> 0 | Some d \<Rightarrow> rd_openAt d)"

definition drive_busy :: "Refresher \<Rightarrow> u16 \<Rightarrow> bool" where
  "drive_busy r p = (case rf_drives r p of None \<Rightarrow> False | Some d \<Rightarrow> rd_busy d)"

definition closed_for :: "nat \<Rightarrow> (nat \<times> nat) list \<Rightarrow> bool" where
  "closed_for t xs \<longleftrightarrow> (case xs of [] \<Rightarrow> True | _ \<Rightarrow> snd (last xs) + (snd (last xs) - fst (last xs)) \<le> t)"

fun pc_within :: "nat \<Rightarrow> nat \<Rightarrow> poll_pc \<Rightarrow> bool" where
  "pc_within opened now Taken \<longleftrightarrow> opened \<le> now"
| "pc_within opened now (Reading st) \<longleftrightarrow> opened \<le> st \<and> st \<le> now"
| "pc_within opened now (Ended st en) \<longleftrightarrow> opened \<le> st \<and> st \<le> en \<and> en \<le> now"

lemma pc_within_later: "pc_within opened now st \<Longrightarrow> pc_within opened (now + t) st"
  by (cases st) auto

definition ref_inv :: "ref_system \<Rightarrow> bool" where
  "ref_inv s \<longleftrightarrow>
     distinct (map (jb_devicePosition \<circ> fst) (rs_jobs s)) \<and>
     (\<forall>p. drive_busy (rs_ref s) p \<longleftrightarrow> p \<in> set (map (jb_devicePosition \<circ> fst) (rs_jobs s))) \<and>
     (\<forall>(job, st)\<in>set (rs_jobs s).
        pc_within (open_at (rs_ref s) (jb_devicePosition job)) (rs_clock s) st) \<and>
     (\<forall>p. spaced (reads_of p s) \<and> closed_for (open_at (rs_ref s) p) (reads_of p s))"

lemma spaced_snoc: "spaced (xs @ [(s, e)]) \<longleftrightarrow> spaced xs \<and> s \<le> e \<and> closed_for s xs"
proof (induction xs rule: spaced.induct)
  case (3 s1 e1 s2 e2 xs)
  then show ?case by (cases xs) (auto simp: closed_for_def)
qed (auto simp: closed_for_def)

lemma closed_for_mono: "closed_for t xs \<Longrightarrow> t \<le> t' \<Longrightarrow> closed_for t' xs"
  by (auto simp: closed_for_def split: list.splits)

lemma spaced_half:
  "spaced (x # xs) \<Longrightarrow> fst x + 2 * busy_time (butlast (x # xs)) \<le> fst (last (x # xs))"
proof (induction xs arbitrary: x)
  case (Cons y ys)
  obtain s e s' e' where xy: "x = (s, e)" "y = (s', e')" by fastforce
  have "fst y + 2 * busy_time (butlast (y # ys)) \<le> fst (last (y # ys))" using Cons.IH [of y] Cons.prems xy by simp
  then show ?case using Cons.prems xy by (auto simp: busy_time_def)
qed (simp add: busy_time_def)

lemma earliest_due_best:
  "earliest_due drives es best = Some (t, k, e) \<Longrightarrow>
     best = Some (t, k, e) \<or> ((k, e) \<in> set es \<and> due_at drives e = Some t)"
  by (induction drives es best rule: earliest_due.induct) (fastforce split: option.splits if_splits prod.splits)+

lemma takeDue_job:
  assumes "takeDue now r = (Inr job, r')"
  shows "\<not> drive_busy r (jb_devicePosition job)" and "open_at r (jb_devicePosition job) \<le> now"
    and "rf_entries r' = rf_entries r" and "open_at r' p = open_at r p"
    and "drive_busy r' p \<longleftrightarrow> p = jb_devicePosition job \<or> drive_busy r p"
proof -
  obtain t k e where e: "earliest_due (rf_drives r) (rf_entries r) None = Some (t, k, e)" "t \<le> now"
    and job: "jb_devicePosition job = re_devicePosition e"
    and r': "r' = r\<lparr>rf_drives := set_busy (re_devicePosition e) (rf_drives r)\<rparr>"
    using assms by (auto simp: takeDue_def split: option.splits prod.splits if_splits)
  have due: "due_at (rf_drives r) e = Some t" using earliest_due_best [OF e(1)] by simp
  show "\<not> drive_busy r (jb_devicePosition job)" "open_at r (jb_devicePosition job) \<le> now"
    using due e(2) job by (auto simp: due_at_def drive_busy_def open_at_def split: option.splits if_splits)
  show "rf_entries r' = rf_entries r" "open_at r' p = open_at r p"
    "drive_busy r' p \<longleftrightarrow> p = jb_devicePosition job \<or> drive_busy r p"
    using r' job by (auto simp: open_at_def drive_busy_def set_busy_def split: option.splits)
qed

lemma acquire_release_drives [simp]:
  "open_at (acquire p i sub period r) q = open_at r q" "drive_busy (acquire p i sub period r) q = drive_busy r q"
  "open_at (release p i sub r) q = open_at r q" "drive_busy (release p i sub r) q = drive_busy r q"
  by (simp_all add: acquire_def release_def open_at_def drive_busy_def Let_def split: option.splits)

lemma poll_done_drives:
  "open_at (poll_done job st en ok r) p = (if p = jb_devicePosition job then en + (en - st) else open_at r p)"
  "drive_busy (poll_done job st en ok r) p \<longleftrightarrow> p \<noteq> jb_devicePosition job \<and> drive_busy r p"
  by (auto simp: poll_done_def open_at_def drive_busy_def)

lemma ref_finish_keeps:
  assumes "ref_inv s" and "rs_jobs s = xs @ (job, Ended st en) # ys"
  shows "ref_inv (s\<lparr>rs_ref := poll_done job st en ok (rs_ref s), rs_jobs := xs @ ys,
                    rs_reads := rs_reads s @ [(jb_devicePosition job, st, en)]\<rparr>)"
proof -
  let ?p = "jb_devicePosition job"
  let ?s = "s\<lparr>rs_ref := poll_done job st en ok (rs_ref s), rs_jobs := xs @ ys,
              rs_reads := rs_reads s @ [(?p, st, en)]\<rparr>"
  have st: "open_at (rs_ref s) ?p \<le> st" "st \<le> en" using assms by (auto simp: ref_inv_def)
  have other: "jb_devicePosition (fst j) \<noteq> ?p" if "j \<in> set (xs @ ys)" for j
    using assms that by (auto simp: ref_inv_def image_iff)
  have reads: "reads_of p ?s = reads_of p s @ (if p = ?p then [(st, en)] else [])" for p
    by (simp add: reads_of_def)
  have "spaced (reads_of p ?s) \<and> closed_for (open_at (rs_ref ?s) p) (reads_of p ?s)" for p
  proof (cases "p = ?p")
    case True
    have "spaced (reads_of ?p s)" "closed_for st (reads_of ?p s)"
      using assms(1) closed_for_mono [OF _ st(1)] by (auto simp: ref_inv_def)
    then show ?thesis using True st(2) reads [of p]
      by (simp add: poll_done_drives spaced_snoc) (simp add: closed_for_def split: list.splits)
  next
    case False
    then show ?thesis using assms(1) reads [of p] by (simp add: ref_inv_def poll_done_drives)
  qed
  moreover have "distinct (map (jb_devicePosition \<circ> fst) (xs @ ys))" using assms by (auto simp: ref_inv_def)
  moreover have "drive_busy (rs_ref ?s) p \<longleftrightarrow> p \<in> set (map (jb_devicePosition \<circ> fst) (xs @ ys))" for p
  proof -
    have "?p \<notin> set (map (jb_devicePosition \<circ> fst) (xs @ ys))"
      using other by (metis comp_apply imageE list.set_map)
    moreover have "drive_busy (rs_ref s) p \<longleftrightarrow> p = ?p \<or> p \<in> set (map (jb_devicePosition \<circ> fst) (xs @ ys))"
      using assms unfolding ref_inv_def by simp
    ultimately show ?thesis by (cases "p = ?p") (simp_all add: poll_done_drives)
  qed
  moreover have "pc_within (open_at (rs_ref ?s) (jb_devicePosition j)) (rs_clock s) t" if j: "(j, t) \<in> set (xs @ ys)" for j t
  proof -
    have "(j, t) \<in> set (rs_jobs s)" using j assms(2) by auto
    then have "pc_within (open_at (rs_ref s) (jb_devicePosition j)) (rs_clock s) t"
      using assms(1) by (auto simp: ref_inv_def)
    then show ?thesis using other [OF j] by (simp add: poll_done_drives)
  qed
  ultimately show ?thesis by (auto simp: ref_inv_def)
qed

lemma ref_step_keeps: "ref_step s s' \<Longrightarrow> ref_inv s \<Longrightarrow> ref_inv s'"
proof (induction rule: ref_step.induct)
  case (rs_tick s t)
  then show ?case by (auto simp: ref_inv_def reads_of_def pc_within_later)
next
  case (rs_take s job r)
  note t = takeDue_job [OF rs_take(1)]
  then show ?case using rs_take(2) by (auto simp: ref_inv_def reads_of_def)
next
  case (rs_start s xs job ys)
  then show ?case by (auto simp: ref_inv_def reads_of_def)
next
  case (rs_end s xs job st ys)
  then show ?case by (auto simp: ref_inv_def reads_of_def)
next
  case (rs_finish s xs job st en ys ok)
  then show ?case using ref_finish_keeps by blast
qed (auto simp: ref_inv_def reads_of_def)

interpretation ref_sys: step_system ref_step ref_inv "\<lambda>_. True"
  by unfold_locales (auto intro: ref_step_keeps)

text \<open>C16: In every interleaving of the workers with acquire and release calls, no two reads of one drive are
  in flight at the same time, and the reads of a drive take at most half of the time: from the start of
  its first read to the start of any later one, at least twice as much time passes as the reads before
  it took.\<close>

theorem refresher_leaves_half:
  assumes "ref_step\<^sup>*\<^sup>* ref_initial s"
  shows "distinct (map (jb_devicePosition \<circ> fst) (rs_jobs s)) \<and>
    (\<forall>p x xs. reads_of p s = x # xs \<longrightarrow> fst x + 2 * busy_time (butlast (x # xs)) \<le> fst (last (x # xs)))"
proof -
  have "ref_inv ref_initial"
    by (simp add: ref_inv_def ref_initial_def reads_of_def drive_busy_def closed_for_def)
  then have "ref_inv s" using ref_sys.reachable_inv [OF assms] by simp
  then show ?thesis using spaced_half by (metis ref_inv_def)
qed

definition example_job :: Job where
  "example_job = \<lparr>jb_key = makeKey 1 0x6064 0, jb_devicePosition = 1, jb_index = 0x6064, jb_subindex = 0\<rparr>"

definition example_entry :: "nat \<Rightarrow> RefEntry" where
  "example_entry due = \<lparr>re_devicePosition = 1, re_index = 0x6064, re_subindex = 0, re_refCount = 1,
     re_period = kMinRefreshPeriod, re_nextDue = due, re_backoff = 0\<rparr>"

definition example_state :: "nat \<Rightarrow> bool \<Rightarrow> nat \<Rightarrow> nat \<Rightarrow> (Job \<times> poll_pc) list \<Rightarrow> (u16 \<times> nat \<times> nat) list \<Rightarrow> ref_system" where
  "example_state due busy opened now jobs done =
     \<lparr>rs_ref = \<lparr>rf_entries = [(makeKey 1 0x6064 0, example_entry due)],
        rf_drives = [1 \<mapsto> \<lparr>rd_busy = busy, rd_openAt = opened\<rparr>]\<rparr>,
      rs_clock = now, rs_jobs = jobs, rs_reads = done\<rparr>"

lemma example_first_read: "ref_step\<^sup>*\<^sup>* ref_initial (example_state 10000000 False 14000000 7000000 [] [(1, 0, 7000000)])"
proof -
  let ?a = "ref_initial\<lparr>rs_ref := acquire 1 0x6064 0 0 (rs_ref ref_initial)\<rparr>"
  let ?j = example_job
  have 1: "ref_step ref_initial ?a" by (rule rs_acquire)
  have "takeDue (rs_clock ?a) (rs_ref ?a) = (Inr ?j, rs_ref (example_state 0 True 0 0 [] []))"
    by (simp add: takeDue_def acquire_def ref_initial_def example_state_def example_entry_def example_job_def
        due_at_def set_busy_def kMinRefreshPeriod_def ms_to_ns_def)
  from rs_take [OF this] have 2: "ref_step ?a (example_state 0 True 0 0 [(?j, Taken)] [])"
    by (simp add: ref_initial_def example_state_def)
  have 3: "ref_step (example_state 0 True 0 0 [(?j, Taken)] []) (example_state 0 True 0 0 [(?j, Reading 0)] [])"
    using rs_start [of "example_state 0 True 0 0 [(?j, Taken)] []" "[]" ?j "[]"] by (simp add: example_state_def)
  have 4: "ref_step (example_state 0 True 0 0 [(?j, Reading 0)] []) (example_state 0 True 0 7000000 [(?j, Reading 0)] [])"
    using rs_tick [of "example_state 0 True 0 0 [(?j, Reading 0)] []" 7000000] by (simp add: example_state_def)
  have 5: "ref_step (example_state 0 True 0 7000000 [(?j, Reading 0)] []) (example_state 0 True 0 7000000 [(?j, Ended 0 7000000)] [])"
    using rs_end [of "example_state 0 True 0 7000000 [(?j, Reading 0)] []" "[]" ?j 0 "[]"] by (simp add: example_state_def)
  have 6: "ref_step (example_state 0 True 0 7000000 [(?j, Ended 0 7000000)] [])
      (example_state 10000000 False 14000000 7000000 [] [(1, 0, 7000000)])"
    using rs_finish [of "example_state 0 True 0 7000000 [(?j, Ended 0 7000000)] []" "[]" ?j 0 7000000 "[]" True]
    by (simp add: example_state_def example_entry_def example_job_def poll_done_def scheduled_def update_entry_def kMinRefreshPeriod_def ms_to_ns_def)
  show ?thesis using 1 2 3 4 5 6 by (meson rtranclp.rtrancl_into_rtrancl rtranclp.rtrancl_refl)
qed

lemma example_second_read:
  "ref_step\<^sup>*\<^sup>* (example_state 10000000 False 14000000 7000000 [] [(1, 0, 7000000)])
     (example_state 24000000 False 14000000 14000000 [] [(1, 0, 7000000), (1, 14000000, 14000000)])"
proof -
  let ?j = example_job
  let ?s = "\<lambda>now. example_state 10000000 False 14000000 now [] [(1, 0, 7000000)]"
  let ?b = "\<lambda>jobs. example_state 10000000 True 14000000 14000000 jobs [(1, 0, 7000000)]"
  have 1: "ref_step (?s 7000000) (?s 14000000)"
    using rs_tick [of "?s 7000000" 7000000] by (simp add: example_state_def)
  have "takeDue (rs_clock (?s 14000000)) (rs_ref (?s 14000000)) = (Inr ?j, rs_ref (?b []))"
    by (simp add: takeDue_def example_state_def example_entry_def example_job_def due_at_def set_busy_def)
  from rs_take [OF this] have 2: "ref_step (?s 14000000) (?b [(?j, Taken)])" by (simp add: example_state_def)
  have 3: "ref_step (?b [(?j, Taken)]) (?b [(?j, Reading 14000000)])"
    using rs_start [of "?b [(?j, Taken)]" "[]" ?j "[]"] by (simp add: example_state_def)
  have 4: "ref_step (?b [(?j, Reading 14000000)]) (?b [(?j, Ended 14000000 14000000)])"
    using rs_end [of "?b [(?j, Reading 14000000)]" "[]" ?j 14000000 "[]"] by (simp add: example_state_def)
  have 5: "ref_step (?b [(?j, Ended 14000000 14000000)])
      (example_state 24000000 False 14000000 14000000 [] [(1, 0, 7000000), (1, 14000000, 14000000)])"
    using rs_finish [of "?b [(?j, Ended 14000000 14000000)]" "[]" ?j 14000000 14000000 "[]" True]
    by (simp add: example_state_def example_entry_def example_job_def poll_done_def scheduled_def update_entry_def kMinRefreshPeriod_def ms_to_ns_def)
  show ?thesis using 1 2 3 4 5 by (meson rtranclp.rtrancl_into_rtrancl rtranclp.rtrancl_refl)
qed

lemmas example_run = rtranclp_trans [OF example_first_read example_second_read]

theorem refresher_leaves_half_witness:
  "reads_of 1 (example_state 24000000 False 14000000 14000000 [] [(1, 0, 7000000), (1, 14000000, 14000000)]) = [(0, 7000000), (14000000, 14000000)] \<and>
   0 + 2 * busy_time (butlast [(0, 7000000), (14000000, 14000000)]) \<le> fst (last [(0, 7000000), (14000000, 14000000 :: nat)] :: nat \<times> nat)"
  using refresher_leaves_half [OF example_run, THEN conjunct2, rule_format, of 1 "(0, 7000000)" "[(14000000, 14000000)]"]
  by (simp add: example_state_def reads_of_def)

section \<open>A pass ends\<close>

definition periods_ok :: "ref_system \<Rightarrow> bool" where
  "periods_ok s \<longleftrightarrow> (\<forall>(k, e)\<in>set (rf_entries (rs_ref s)). kMinRefreshPeriod \<le> re_period e)"

definition due_count :: "nat \<Rightarrow> Refresher \<Rightarrow> nat" where
  "due_count now r = length (filter (\<lambda>(k, e). re_nextDue e \<le> now) (rf_entries r))"

lemma takeDue_entries: "takeDue now r = (res, r') \<Longrightarrow> rf_entries r' = rf_entries r"
  by (auto simp: takeDue_def split: option.splits prod.splits if_splits)

lemma scheduled_period [simp]: "re_period (scheduled st ok e) = re_period e"
  by (simp add: scheduled_def Let_def)

lemma periods_ok_step: "ref_step s s' \<Longrightarrow> periods_ok s \<Longrightarrow> periods_ok s'"
  by (induction rule: ref_step.induct)
    (fastforce simp: periods_ok_def acquire_def release_def poll_done_def update_entry_def Let_def set_insort_key
      dest: takeDue_entries split: option.splits if_splits)+

interpretation period_sys: step_system ref_step periods_ok "\<lambda>_. True"
  by unfold_locales (auto intro: periods_ok_step)

lemma nextBackoff_pos: "kMinRefreshPeriod \<le> period \<Longrightarrow> 0 < nextBackoff current period"
  by (simp add: nextBackoff_def kMinRefreshPeriod_def kMaxBackoff_def ms_to_ns_def)

lemma filter_update_entry_less:
  assumes "(k, e) \<in> set es" and "P (k, e)" and "\<And>e. (k, e) \<in> set es \<Longrightarrow> \<not> P (k, f e)"
  shows "length (filter P (update_entry k f es)) < length (filter P es)"
proof -
  have le: "length (filter P (update_entry k f es)) \<le> length (filter P es)"
    if "\<And>e. (k, e) \<in> set es \<Longrightarrow> \<not> P (k, f e)" for es
    using that
  proof (induction es)
    case (Cons x es)
    then show ?case by (cases x) (auto simp: update_entry_def le_Suc_eq split: if_splits)
  qed (simp add: update_entry_def)
  show ?thesis using assms
  proof (induction es)
    case (Cons x es)
    then show ?case using le [of es]
      by (cases "x = (k, e)") (auto simp: update_entry_def split: prod.splits if_splits)
  qed simp
qed

lemma poll_done_due_count:
  assumes "takeDue now r = (Inr job, r')" and "now \<le> readStart"
    and "\<And>k e. (k, e) \<in> set (rf_entries r) \<Longrightarrow> kMinRefreshPeriod \<le> re_period e"
  shows "due_count now (poll_done job readStart readEnd ok r') < due_count now r"
proof -
  obtain t e where e: "earliest_due (rf_drives r) (rf_entries r) None = Some (t, jb_key job, e)" "t \<le> now"
    using assms(1) by (auto simp: takeDue_def split: option.splits prod.splits if_splits)
  from earliest_due_best [OF e(1)] have "(jb_key job, e) \<in> set (rf_entries r)" "re_nextDue e \<le> now"
    using e(2) by (auto simp: due_at_def split: option.splits if_splits)
  moreover have "kMinRefreshPeriod > 0" by (simp add: kMinRefreshPeriod_def ms_to_ns_def)
  moreover have "now < re_nextDue (scheduled readStart ok e')" if "(jb_key job, e') \<in> set (rf_entries r)" for e'
    using assms(2) assms(3) [OF that] nextBackoff_pos [of "re_period e'" "re_backoff e'"] \<open>kMinRefreshPeriod > 0\<close>
    by (auto simp: scheduled_def Let_def)
  ultimately show ?thesis
    using filter_update_entry_less [of "jb_key job" e "rf_entries r" "\<lambda>(k, e). re_nextDue e \<le> now" "scheduled readStart ok"]
      takeDue_entries [OF assms(1)]
    by (simp add: due_count_def poll_done_def not_le)
qed

lemma poll_done_periods:
  "(k, e) \<in> set (rf_entries (poll_done job st en ok r)) \<Longrightarrow> \<exists>e'. (k, e') \<in> set (rf_entries r) \<and> re_period e' = re_period e"
  by (auto simp: poll_done_def update_entry_def scheduled_period split: if_splits)

lemma takeDue_idle: "takeDue now r = (Inl t, r') \<Longrightarrow> r' = r"
  by (auto simp: takeDue_def split: option.splits prod.splits if_splits)

lemma pollDue_due_count:
  assumes "\<And>job w. now \<le> fst (fst (read job w))"
    and "\<And>k e. (k, e) \<in> set (rf_entries r) \<Longrightarrow> kMinRefreshPeriod \<le> re_period e"
    and "due_count now r < fuel"
  shows "\<exists>r' w' t. pollDue read fuel now r w = Some (r', w') \<and> takeDue now r' = (Inl t, r')"
  using assms(2,3)
proof (induction fuel arbitrary: r w)
  case (Suc fuel)
  show ?case
  proof (cases "takeDue now r")
    case (Pair res r1)
    show ?thesis
    proof (cases res)
      case (Inl t)
      then show ?thesis using Pair takeDue_idle [of now r t r1] by simp
    next
      case (Inr job)
      obtain st en ok w1 where rd: "read job w = ((st, en, ok), w1)" by (metis prod.exhaust)
      let ?r = "poll_done job st en ok r1"
      have "now \<le> st" using assms(1) [of job w] rd by simp
      then have "due_count now ?r < fuel"
        using poll_done_due_count [of now r job r1 st en ok] Suc.prems Pair Inr by fastforce
      moreover have "kMinRefreshPeriod \<le> re_period e" if "(k, e) \<in> set (rf_entries ?r)" for k e
        using poll_done_periods [OF that] Suc.prems(1) takeDue_entries [OF Pair] by metis
      ultimately have "\<exists>r' w' t. pollDue read fuel now ?r w1 = Some (r', w') \<and> takeDue now r' = (Inl t, r')"
        using Suc.IH by blast
      then show ?thesis using Pair Inr rd by simp
    qed
  qed
qed simp

text \<open>C34: A pass of pollDue ends, on every set of entries that acquire, release and the workers can leave and
  whatever the reads return: it makes at most one read per entry, and when it returns nothing that is
  due is left on a free drive.\<close>

theorem pollDue_ends:
  assumes "ref_step\<^sup>*\<^sup>* ref_initial s" and "\<And>job w. now \<le> fst (fst (read job w))"
  shows "\<exists>r' w' t. pollDue read (Suc (length (rf_entries (rs_ref s)))) now (rs_ref s) w = Some (r', w') \<and>
    takeDue now r' = (Inl t, r')"
proof -
  have "periods_ok s"
    using period_sys.reachable_inv [OF assms(1)] by (simp add: periods_ok_def ref_initial_def)
  moreover have "due_count now (rs_ref s) < Suc (length (rf_entries (rs_ref s)))"
    by (simp add: due_count_def less_Suc_eq_le)
  ultimately show ?thesis using pollDue_due_count [of now read "rs_ref s"] assms(2)
    by (fastforce simp: periods_ok_def)
qed

theorem pollDue_ends_witness:
  "\<exists>r' w' t. pollDue (\<lambda>job w. ((20000000 + w, 20000000 + w, False), w + 1)) 2 20000000
     (rs_ref (example_state 10000000 False 14000000 7000000 [] [(1, 0, 7000000)])) (0 :: nat) = Some (r', w') \<and>
     takeDue 20000000 r' = (Inl t, r')"
  using pollDue_ends [OF example_first_read, of 20000000 "\<lambda>job w. ((20000000 + w, 20000000 + w, False), w + 1)" 0]
  by (simp add: example_state_def numeral_2_eq_2)

end
