(* ===== verification/Spec2Isabelle.thy ===== *)
theory Spec2Isabelle
  imports Cia402_Accessors Cia402_Walk Device Core_Util Sii Cycle_Handshake Device_Manager
    Spoe_Transfer Refresher
begin

text \<open>
  Verification of motion-master, an EtherCAT motion-control master written in C++ (sources under
  \<^verbatim>\<open>src/\<close>). A real-time loop exchanges one process image with the bus per cycle; a control plane scans the
  bus, maps the image, moves devices through the EtherCAT states and reads and writes their objects
  over a mailbox; drives are commanded through the CiA402 state machine; a recorder keeps the last
  cycles. Below the driver interface, drives are reached over EtherCAT (the SOEM library) or over TCP (SPoE).
  The development models the code between the driver interface and the API, and the SPoE driver.

  \<^bold>\<open>Library.\<close>
  \<^item> \<open>MM_Prelude\<close>: types of the model, result and state-passing combinators (\<open>io_bind\<close>), bits of byte
    lists, and the fact collections the proofs use.
  \<^item> \<open>Step_System\<close>: the locale of a step relation with an invariant, interpreted on the recorder, the
    cycle handshake, the device manager, the two SPoE buffers and the refresher.
  \<^item> \<open>Byte_Codec\<close>, \<open>Ieee754\<close>: little- and big-endian words in byte lists; conversions of binary32 and
    binary64 on bit patterns.

  \<^bold>\<open>Values and objects.\<close>
  \<^item> \<open>Object_Data_Types\<close> (\<^verbatim>\<open>libs/comm/object_data_types.h\<close>) and \<open>Device_Parameter\<close>
    (\<^verbatim>\<open>libs/node/device_parameter.h, .cc\<close>): the SDO codec, parameter cells and exact conversions. Shown: round trips, the
    declared type of every value, integer writes that are exact or refused.
  \<^item> \<open>Core_Util\<close> (\<^verbatim>\<open>libs/core/util.h\<close>, path rules of \<^verbatim>\<open>libs/core/user_cache.cc\<close>), \<open>Sii\<close> (\<^verbatim>\<open>libs/comm/sii.h, .cc\<close>):
    accepted paths stay inside their directory; validated EEPROM images are parsed whole, and a
    corrupted header byte is detected.

  \<^bold>\<open>Process data.\<close>
  \<^item> \<open>Process_Image\<close> (\<^verbatim>\<open>libs/node/process_image.h, .cc, pdo_mapping.h\<close>): fields lie inside the image and apart,
    insertion and extraction of bits are inverse.
  \<^item> \<open>Process_Data\<close> (\<^verbatim>\<open>libs/node/process_data.h\<close> and the cycle in \<^verbatim>\<open>libs/node/device_manager.cc\<close>): what one cycle sends,
    stores and serves.
  \<^item> \<open>Process_Data_Ring\<close> (\<^verbatim>\<open>libs/node/process_data_ring.h, .cc\<close>): the recorder as functions, as a step
    relation of a producer and a reader, and the refinement between the two; no torn record is read
    in any interleaving of a sequentially consistent memory.
  \<^item> \<open>Cycle_Handshake\<close> (\<^verbatim>\<open>CycleGuard\<close>, \<^verbatim>\<open>pauseCycle\<close>, \<^verbatim>\<open>resumeCycle\<close>): a drained caller works alone when the calls
    exclude each other, and a run that breaks this when they do not.

  \<^bold>\<open>Devices.\<close>
  \<^item> \<open>Ethercat_State\<close> (\<^verbatim>\<open>libs/comm/fieldbus_driver.h\<close> and the table in \<^verbatim>\<open>device_manager.cc\<close>): AL states.
  \<^item> \<open>Device\<close> (\<^verbatim>\<open>libs/node/device.cc\<close>): publishing a dictionary, reads and writes with the lock released
    around every transfer, where other threads may do anything to the node (\<open>bus_others\<close>).
  \<^item> \<open>Device_Mapping\<close> (\<^verbatim>\<open>libs/node/device.cc\<close>): reading, writing and verifying the PDO mapping, definitions
    from the EEPROM, module reconciliation. A mapping write that reports success leaves the request,
    with offsets that have not wrapped; its order of writes is accepted by a slave that enforces the
    CoE rules.
  \<^item> \<open>Device_Manager\<close> (\<^verbatim>\<open>libs/node/device_manager.cc\<close>): the control plane on the mapping and image theories:
    an invariant over all sequences of operations, what a re-map publishes, illegal transitions
    refused before any effect.
  \<^item> \<open>Device_Access\<close>, \<open>Cia402\<close>, \<open>Cia402_Accessors\<close>, \<open>Cia402_Drive\<close>, \<open>Cia402_Walk\<close> (\<^verbatim>\<open>libs/node/cia402.h,
    cia402_drive.h, .cc, cia402_drive_objects.h\<close>): the drive profile and its command loops; the walk
    terminates, writes only what the table calls for, and reaches its target on a conforming drive.

  \<^bold>\<open>SPoE driver.\<close>
  \<^item> \<open>Spoe\<close> (\<^verbatim>\<open>libs/comm/spoe_frame.h, .cc, spoe_process_data.h, .cc\<close>): the frame codec and the buffers between the
    exchange thread and the real-time thread, as functions and as interleaved steps. Shown: no torn
    output frame, a lossless ordered input queue, framing restored after a loss.
  \<^item> \<open>Spoe_Connection\<close> (\<^verbatim>\<open>libs/comm/spoe_connection.h, .cc\<close>): one request and its reply over a stream; stale replies
    are skipped however the stream is cut.
  \<^item> \<open>Spoe_Driver\<close> (\<^verbatim>\<open>libs/comm/spoe_fieldbus_driver.h, .cc\<close>): SDO access, the layout of the process data, a pass of
    the exchange thread, the real-time exchange. Shown: windows inside the images and apart, what an
    exchange delivers to every drive, and a count of 255 for which the layout never returns.
  \<^item> \<open>Spoe_Transfer\<close> (same files): scan, states, parameter entries, file transfer, release. A file is sent whole;
    a known state means an open connection.

  \<^bold>\<open>Refresher.\<close>
  \<^item> \<open>Refresher\<close> (\<^verbatim>\<open>libs/node/parameter_refresher.h, .cc\<close>): the poller of SDO objects and its workers. Shown: one
    read per drive at a time, at most half of a drive's time, and that a pass ends.

  \<^bold>\<open>Parameters of the model.\<close> The fieldbus driver (SOEM), the drive firmware, the clock and other threads are
  arguments: \<open>bus\<close>, \<open>rt_driver\<close>, \<open>fieldbus\<close>, \<open>device_access\<close>, and the network of the SPoE driver, \<open>net\<close>. Where a property needs them to behave, the
  behaviour is a named predicate (\<open>pdo_slave\<close>, \<open>module_slave\<close>, \<open>counts_below_255\<close>) with a witness that satisfies it. In
  \<open>Device_Manager\<close> the outcome of a drain and the dictionary enumeration of a device are arguments too, with
  no assumption.

  \<^bold>\<open>Bounds and fuel.\<close> Machine integers are words of their width. The wait loops of the drive are partial functions
  without fuel, and that they return on a device with a steady clock is proved. The retries of a
  mapping write and of a re-map are the constants of the source. The loops over subindices run over
  the lists the wide counters of the source produce. The recorder's theorems hold for fewer than
  \<open>2 ^ 64\<close> cycles, the range of its sequence number, and those of the SPoE input queue for fewer than
  \<open>2 ^ 64\<close> frames, the range of its counters. The loops over the SPoE assignment objects are partial
  functions, because they may not return; that they do is proved for counts below 255, and the layout
  for at most 1000 drives, where its 32-bit sums cannot wrap. A file read ends after the 200000 packets
  of the source. A pass of the refresher has fuel, and one more than the number of entries is enough.

  \<^bold>\<open>Not modelled.\<close> The SOEM driver (calls into a C library that is not part of the sources); of the SPoE driver the
  dictionary enumeration, the firmware activation, which waits for a restart by the clock, and the
  locate command; the enumeration that reads dictionaries through caches and ESI files; SOMANET
  procedures, profile devices and encoders, whose outcome firmware and floating-point calibration
  decide; the monitoring sampler, which builds JSON rows for subscribers; ESI, ENI, package and
  configuration files (XML, archives, JSON); HTTP, WebSocket and process handling; the capture tools;
  the web console and the clients. JSON rendering and logging are left out everywhere, and error texts
  are kept only where the code inspects them. Memory is sequentially consistent in the interleaved
  models; weaker orders are not modelled.
\<close>

end
